(* ===== verification/Py_Prelude.thy ===== *)
theory Py_Prelude
  imports Main "HOL-Library.AList"
begin

text \<open>
  Shared ground of the development: Python strings, JSON values, ordered dictionaries,
  exceptions, the state-and-exception computations in which the stateful operations are
  written, the preservation calculus for invariants of such computations, and the interface
  of a state machine with an invariant.

  A Python \<^verbatim>\<open>str\<close> is the list of its code points, so \<^verbatim>\<open>len\<close> and slices count code
  points as Python does. A dictionary is the association list of its items in insertion
  order: \<open>map_of\<close> reads it and \<open>AList.update\<close> writes it (an existing key keeps its
  place, a new key goes to the end), which is what \<^verbatim>\<open>d[k] = v\<close> does.
\<close>

named_theorems py_defs \<open>definitions of the computation combinators\<close>
named_theorems wp_simps \<open>equations of the weakest precondition\<close>
named_theorems keeps_intros \<open>rules that preserve an invariant through a computation\<close>

section \<open>Strings\<close>

type_synonym codepoint = nat
type_synonym pystr = "codepoint list"

definition lit :: "string \<Rightarrow> pystr" where
  "lit s = map of_char s"

lemma lit_inject [simp]: "lit s = lit t \<longleftrightarrow> s = t"
proof
  assume "lit s = lit t"
  then show "s = t"
    unfolding lit_def by (rule map_injective) (auto intro: injI)
qed simp

lemma lit_Nil [simp]: "lit [] = []"
  by (simp add: lit_def)

lemma lit_eq_Nil [simp]: "lit s = [] \<longleftrightarrow> s = []" "[] = lit s \<longleftrightarrow> s = []"
  by (auto simp: lit_def)

lemma length_lit [simp]: "length (lit s) = length s"
  by (simp add: lit_def)

lemma lit_append: "lit (s @ t) = lit s @ lit t"
  by (simp add: lit_def)

text \<open>\<^verbatim>\<open>str(n)\<close> of an integer: its decimal digits, with a minus sign when negative.\<close>

fun dec_digits :: "nat \<Rightarrow> pystr" where
  "dec_digits n = (if n < 10 then [48 + n] else dec_digits (n div 10) @ [48 + n mod 10])"

declare dec_digits.simps [simp del]

definition py_str_int :: "int \<Rightarrow> pystr" where
  "py_str_int i = (if i < 0 then 45 # dec_digits (nat (- i)) else dec_digits (nat i))"

lemma dec_digits_nonempty: "dec_digits n \<noteq> []"
  by (subst dec_digits.simps) simp

lemma dec_digits_range: "c \<in> set (dec_digits n) \<Longrightarrow> 48 \<le> c \<and> c \<le> 57"
proof (induction n rule: dec_digits.induct)
  case (1 n)
  show ?case
  proof (cases "n < 10")
    case True
    with 1(2) show ?thesis by (subst (asm) dec_digits.simps) auto
  next
    case False
    have "n mod 10 < 10" by simp
    with False 1 show ?thesis by (subst (asm) (2) dec_digits.simps) (auto simp: less_Suc_eq_le)
  qed
qed

text \<open>\<^verbatim>\<open>sep.join(parts)\<close>.\<close>

fun py_join :: "pystr \<Rightarrow> pystr list \<Rightarrow> pystr" where
  "py_join sep [] = []"
| "py_join sep [x] = x"
| "py_join sep (x # xs) = x @ sep @ py_join sep xs"

text \<open>\<^verbatim>\<open>s[:k]\<close>: a negative bound counts from the end.\<close>

definition py_take :: "int \<Rightarrow> 'a list \<Rightarrow> 'a list" where
  "py_take k xs = (if 0 \<le> k then take (nat k) xs else take (length xs - nat (- k)) xs)"

lemma py_take_nonneg [simp]: "py_take (int k) xs = take k xs"
  by (simp add: py_take_def)

text \<open>\<^verbatim>\<open>s.endswith(t)\<close>.\<close>

definition ends_with :: "pystr \<Rightarrow> pystr \<Rightarrow> bool" where
  "ends_with s t \<longleftrightarrow> length t \<le> length s \<and> drop (length s - length t) s = t"

lemma ends_with_iff: "ends_with s t \<longleftrightarrow> (\<exists>p. s = p @ t)"
proof
  assume "ends_with s t"
  then show "\<exists>p. s = p @ t" unfolding ends_with_def by (metis append_take_drop_id)
qed (auto simp: ends_with_def)

text \<open>
  \<^verbatim>\<open>str.isspace\<close> of one character: the Unicode white space Python's \<^verbatim>\<open>strip\<close> and
  \<^verbatim>\<open>split\<close> without arguments remove.
\<close>

definition py_space :: "codepoint \<Rightarrow> bool" where
  "py_space c \<longleftrightarrow> (9 \<le> c \<and> c \<le> 13) \<or> (28 \<le> c \<and> c \<le> 32) \<or> c = 133 \<or> c = 160 \<or> c = 5760
     \<or> (8192 \<le> c \<and> c \<le> 8202) \<or> c = 8232 \<or> c = 8233 \<or> c = 8239 \<or> c = 8287 \<or> c = 12288"

definition py_strip :: "pystr \<Rightarrow> pystr" where
  "py_strip s = rev (dropWhile py_space (rev (dropWhile py_space s)))"

lemma py_strip_Nil [simp]: "py_strip [] = []"
  by (simp add: py_strip_def)

lemma py_strip_id:
  assumes "s \<noteq> []" "\<not> py_space (hd s)" "\<not> py_space (last s)"
  shows "py_strip s = s"
proof -
  have "dropWhile py_space s = s"
    using assms by (cases s) auto
  moreover have "dropWhile py_space (rev s) = rev s"
    using assms by (cases "rev s") (auto simp: last_rev hd_rev rev_swap)
  ultimately show ?thesis by (simp add: py_strip_def)
qed

section \<open>JSON-like values and dictionaries\<close>

text \<open>
  The Python objects that flow through the program's dictionaries: event payloads, parsed
  JSON and parsed YAML. A float is kept as an opaque literal, since nothing here computes
  with the fractional part of one.
\<close>

datatype jval =
    JNull
  | JBool bool
  | JInt int
  | JFloat pystr
  | JStr pystr
  | JList "jval list"
  | JObj "(pystr \<times> jval) list"

type_synonym dict = "(pystr \<times> jval) list"

text \<open>\<^verbatim>\<open>d.get(key, default)\<close>.\<close>

definition dict_get :: "dict \<Rightarrow> string \<Rightarrow> jval \<Rightarrow> jval" where
  "dict_get d k dflt = (case map_of d (lit k) of None \<Rightarrow> dflt | Some v \<Rightarrow> v)"

text \<open>Truth value of an object, as \<^verbatim>\<open>bool(v)\<close> computes it; a float's is a parameter.\<close>

fun truthy :: "(pystr \<Rightarrow> bool) \<Rightarrow> jval \<Rightarrow> bool" where
  "truthy ftrue JNull = False"
| "truthy ftrue (JBool b) = b"
| "truthy ftrue (JInt i) = (i \<noteq> 0)"
| "truthy ftrue (JFloat f) = ftrue f"
| "truthy ftrue (JStr s) = (s \<noteq> [])"
| "truthy ftrue (JList xs) = (xs \<noteq> [])"
| "truthy ftrue (JObj d) = (d \<noteq> [])"

definition opt_str :: "pystr option \<Rightarrow> jval" where
  "opt_str s = (case s of None \<Rightarrow> JNull | Some t \<Rightarrow> JStr t)"

text \<open>
  \<^verbatim>\<open>repr(v)\<close> and \<^verbatim>\<open>str(v)\<close>. The quoting of a string, \<open>quote\<close>, is a parameter;
  a float's text is the literal it is kept as.
\<close>

fun py_repr :: "(pystr \<Rightarrow> pystr) \<Rightarrow> jval \<Rightarrow> pystr" where
  "py_repr quote JNull = lit ''None''"
| "py_repr quote (JBool b) = lit (if b then ''True'' else ''False'')"
| "py_repr quote (JInt i) = py_str_int i"
| "py_repr quote (JFloat f) = f"
| "py_repr quote (JStr s) = quote s"
| "py_repr quote (JList xs) = lit ''['' @ py_join (lit '', '') (map (py_repr quote) xs) @ lit '']''"
| "py_repr quote (JObj d) = lit ''{'' @ py_join (lit '', '')
     (map (\<lambda>kv. quote (fst kv) @ lit '': '' @ py_repr quote (snd kv)) d) @ lit ''}''"

fun py_str :: "(pystr \<Rightarrow> pystr) \<Rightarrow> jval \<Rightarrow> pystr" where
  "py_str quote (JStr s) = s"
| "py_str quote v = py_repr quote v"

lemma map_of_update_same [simp]: "map_of (AList.update k v d) k = Some v"
  by (simp add: update_conv')

lemma map_of_update_other: "k \<noteq> l \<Longrightarrow> map_of (AList.update k v d) l = map_of d l"
  by (simp add: update_conv')

section \<open>Exceptions\<close>

text \<open>
  The exceptions the code raises or catches. \<open>Not_Found\<close> and \<open>Image_Not_Found\<close> are
  subclasses of the SDK's \<open>Api_Error\<close>, which is a subclass of \<open>Docker_Exception\<close>;
  the decoding errors are subclasses of \<open>ValueError\<close>.
\<close>

datatype exn =
    Runtime_Error pystr
  | Value_Error pystr
  | Type_Error
  | Key_Error pystr
  | Attribute_Error
  | Unicode_Error
  | Json_Decode_Error
  | Validation_Error
  | Yaml_Error pystr
  | OS_Error pystr
  | File_Not_Found pystr
  | Task_Load_Error pystr
  | Sandbox_Error pystr
  | Docker_Exception pystr
  | Api_Error pystr
  | Not_Found pystr
  | Image_Not_Found pystr
  | Overflow_Error
  | Other_Error pystr

fun is_value_error :: "exn \<Rightarrow> bool" where
  "is_value_error (Value_Error m) = True"
| "is_value_error Unicode_Error = True"
| "is_value_error Json_Decode_Error = True"
| "is_value_error Validation_Error = True"
| "is_value_error _ = False"

fun is_api_error :: "exn \<Rightarrow> bool" where
  "is_api_error (Api_Error m) = True"
| "is_api_error (Not_Found m) = True"
| "is_api_error (Image_Not_Found m) = True"
| "is_api_error _ = False"

fun is_docker_exception :: "exn \<Rightarrow> bool" where
  "is_docker_exception (Docker_Exception m) = True"
| "is_docker_exception e = is_api_error e"

fun is_sandbox_error :: "exn \<Rightarrow> bool" where
  "is_sandbox_error (Sandbox_Error m) = True"
| "is_sandbox_error _ = False"

text \<open>The text an f-string shows for an SDK error, \<^verbatim>\<open>e.explanation or e\<close>.\<close>

fun exn_text :: "exn \<Rightarrow> pystr" where
  "exn_text (Runtime_Error m) = m"
| "exn_text (Value_Error m) = m"
| "exn_text (Key_Error m) = m"
| "exn_text (Yaml_Error m) = m"
| "exn_text (OS_Error m) = m"
| "exn_text (File_Not_Found m) = m"
| "exn_text (Task_Load_Error m) = m"
| "exn_text (Sandbox_Error m) = m"
| "exn_text (Docker_Exception m) = m"
| "exn_text (Api_Error m) = m"
| "exn_text (Not_Found m) = m"
| "exn_text (Image_Not_Found m) = m"
| "exn_text (Other_Error m) = m"
| "exn_text _ = []"

section \<open>Computations with state and exceptions\<close>

text \<open>
  A stateful operation is a function from the state to its outcome (\<open>Inl\<close> an exception,
  \<open>Inr\<close> the returned value) and the state it leaves, which is there in both cases: what
  was done before a raise stays done.
\<close>

type_synonym ('s, 'a) py = "'s \<Rightarrow> (exn + 'a) \<times> 's"

definition ret :: "'a \<Rightarrow> ('s, 'a) py" where
  [py_defs]: "ret a = (\<lambda>s. (Inr a, s))"

definition raise :: "exn \<Rightarrow> ('s, 'a) py" where
  [py_defs]: "raise e = (\<lambda>s. (Inl e, s))"

definition bind :: "('s, 'a) py \<Rightarrow> ('a \<Rightarrow> ('s, 'b) py) \<Rightarrow> ('s, 'b) py" where
  [py_defs]: "bind m k = (\<lambda>s. case m s of (Inl e, t) \<Rightarrow> (Inl e, t) | (Inr a, t) \<Rightarrow> k a t)"

definition get :: "('s \<Rightarrow> 'a) \<Rightarrow> ('s, 'a) py" where
  [py_defs]: "get f = (\<lambda>s. (Inr (f s), s))"

definition modify :: "('s \<Rightarrow> 's) \<Rightarrow> ('s, unit) py" where
  [py_defs]: "modify f = (\<lambda>s. (Inr (), f s))"

definition seq :: "('s, unit) py \<Rightarrow> ('s, 'b) py \<Rightarrow> ('s, 'b) py" where
  [py_defs]: "seq m k = bind m (\<lambda>_. k)"

text \<open>
  \<^verbatim>\<open>try: m except C as e: h\<close>, where \<open>h e\<close> is \<open>None\<close> for an exception that
  no clause catches; and \<^verbatim>\<open>try: m finally: f\<close>, where an exception of \<open>f\<close>
  replaces the outcome of \<open>m\<close>.
\<close>

definition try_except :: "('s, 'a) py \<Rightarrow> (exn \<Rightarrow> ('s, 'a) py option) \<Rightarrow> ('s, 'a) py" where
  [py_defs]: "try_except m h = (\<lambda>s. case m s of
     (Inl e, t) \<Rightarrow> (case h e of None \<Rightarrow> (Inl e, t) | Some k \<Rightarrow> k t)
   | (Inr a, t) \<Rightarrow> (Inr a, t))"

definition try_finally :: "('s, 'a) py \<Rightarrow> ('s, unit) py \<Rightarrow> ('s, 'a) py" where
  [py_defs]: "try_finally m f = (\<lambda>s. case m s of
     (r, t) \<Rightarrow> (case f t of (Inl e, u) \<Rightarrow> (Inl e, u) | (Inr _, u) \<Rightarrow> (r, u)))"

text \<open>\<^verbatim>\<open>for x in xs: f(x)\<close>, stopping at the first exception.\<close>

fun for_each :: "'x list \<Rightarrow> ('x \<Rightarrow> ('s, unit) py) \<Rightarrow> ('s, unit) py" where
  "for_each [] f = ret ()"
| "for_each (x # xs) f = seq (f x) (for_each xs f)"

lemma ret_apply [simp]: "ret a s = (Inr a, s)"
  and raise_apply [simp]: "raise e s = (Inl e, s)"
  and get_apply [simp]: "get g s = (Inr (g s), s)"
  and modify_apply [simp]: "modify h s = (Inr (), h s)"
  by (simp_all add: py_defs)

lemma bind_ret [simp]: "bind (ret a) k = k a"
  and bind_raise [simp]: "bind (raise e) k' = raise e"
  and bind_Pair_Inr [simp]: "bind (Pair (Inr a)) k = k a"
  and bind_Pair_Inl [simp]: "bind (Pair (Inl e)) k' = Pair (Inl e)"
  and bind_get_apply [simp]: "bind (get g) k'' s = k'' (g s) s"
  by (simp_all add: py_defs)

lemma bind_assoc: "bind (bind m k) l = bind m (\<lambda>a. bind (k a) l)"
  by (rule ext) (simp add: bind_def split: prod.splits sum.splits)

lemma seq_modify [simp]: "seq (modify h) k s = k (h s)"
  by (simp add: seq_def py_defs)

lemma bind_Inl: "m s = (Inl e, t) \<Longrightarrow> bind m k s = (Inl e, t)"
  and bind_Inr: "m s = (Inr a, t) \<Longrightarrow> bind m k s = k a t"
  by (simp_all add: bind_def)

lemma seq_Inl: "m s = (Inl e, t) \<Longrightarrow> seq m k s = (Inl e, t)"
  and seq_Inr: "m s = (Inr a, t) \<Longrightarrow> seq m k s = k t"
  by (simp_all add: seq_def bind_def)

lemma for_each_append: "for_each (xs @ ys) f = seq (for_each xs f) (for_each ys f)"
proof (induction xs)
  case Nil
  then show ?case by (simp add: seq_def)
next
  case (Cons x xs)
  then show ?case by (simp add: seq_def bind_assoc)
qed

subsection \<open>Preservation of invariants\<close>

text \<open>
  \<open>keeps R m\<close>: every run of \<open>m\<close> takes the state to one related to it by the
  reflexive and transitive relation \<open>R\<close>, whether it returns or raises. With
  \<open>R s t = (I s \<longrightarrow> I t)\<close> this is the preservation of the invariant \<open>I\<close>; with
  other relations it says that a log only grows or that a field is left alone.
\<close>

definition keeps :: "('s \<Rightarrow> 's \<Rightarrow> bool) \<Rightarrow> ('s, 'a) py \<Rightarrow> bool" where
  "keeps R m \<longleftrightarrow> (\<forall>s. R s (snd (m s)))"

lemma keepsI: "(\<And>s. R s (snd (m s))) \<Longrightarrow> keeps R m"
  by (simp add: keeps_def)

lemma keepsD: "keeps R m \<Longrightarrow> m s = (r, t) \<Longrightarrow> R s t"
  by (metis keeps_def snd_conv)

lemma keeps_apply: "keeps R m \<Longrightarrow> R s (snd (m s))"
  by (simp add: keeps_def)

lemma keeps_mono: "keeps R m \<Longrightarrow> (\<And>s t. R s t \<Longrightarrow> S s t) \<Longrightarrow> keeps S m"
  by (simp add: keeps_def)

lemma keeps_ret [keeps_intros]: "reflp R \<Longrightarrow> keeps R (ret a)"
  and keeps_raise [keeps_intros]: "reflp R \<Longrightarrow> keeps R (raise e)"
  and keeps_get [keeps_intros]: "reflp R \<Longrightarrow> keeps R (get g)"
  by (simp_all add: keeps_def reflpD)

lemma keeps_Pair [keeps_intros]: "reflp R \<Longrightarrow> keeps R (Pair (Inr a))"
  "reflp R \<Longrightarrow> keeps R (Pair (Inl e))"
  by (simp_all add: keeps_def reflpD)

lemma keeps_modify [keeps_intros]: "(\<And>s. R s (h s)) \<Longrightarrow> keeps R (modify h)"
  by (simp add: keeps_def)

lemma keeps_bind [keeps_intros]:
  assumes R: "transp R" and m: "keeps R m" and k: "\<And>a. keeps R (k a)"
  shows "keeps R (bind m k)"
proof (rule keepsI)
  fix s
  obtain r t where ms: "m s = (r, t)" by (cases "m s")
  show "R s (snd (bind m k s))"
  proof (cases r)
    case (Inl e)
    with ms show ?thesis using keepsD [OF m ms] by (simp add: bind_def)
  next
    case (Inr a)
    obtain r' u where ka: "k a t = (r', u)" by (cases "k a t")
    have "R s u" using R keepsD [OF m ms] keepsD [OF k ka] by (rule transpD)
    with ms Inr ka show ?thesis by (simp add: bind_def)
  qed
qed

lemma keeps_seq [keeps_intros]:
  "transp R \<Longrightarrow> keeps R m \<Longrightarrow> keeps R k \<Longrightarrow> keeps R (seq m k)"
  by (simp add: seq_def keeps_bind)

lemma keeps_try_except [keeps_intros]:
  assumes R: "transp R" and m: "keeps R m" and h: "\<And>e k. h e = Some k \<Longrightarrow> keeps R k"
  shows "keeps R (try_except m h)"
proof (rule keepsI)
  fix s
  obtain r t where ms: "m s = (r, t)" by (cases "m s")
  have st: "R s t" using m ms by (rule keepsD)
  show "R s (snd (try_except m h s))"
  proof (cases r)
    case (Inr a)
    with ms st show ?thesis by (simp add: try_except_def)
  next
    case (Inl e)
    have "\<And>k. h e = Some k \<Longrightarrow> R t (snd (k t))"
      using h [of e] by (simp add: keeps_def)
    with ms st Inl show ?thesis
      using R by (auto simp: try_except_def dest: transpD split: option.split)
  qed
qed

lemma keeps_try_finally [keeps_intros]:
  assumes R: "transp R" and m: "keeps R m" and f: "keeps R f"
  shows "keeps R (try_finally m f)"
proof (rule keepsI)
  fix s
  obtain r t where ms: "m s = (r, t)" by (cases "m s")
  obtain r' u where ft: "f t = (r', u)" by (cases "f t")
  have "R s u" using R keepsD [OF m ms] keepsD [OF f ft] by (rule transpD)
  with ms ft show "R s (snd (try_finally m f s))"
    by (cases r') (simp_all add: try_finally_def)
qed

lemma keeps_for_each [keeps_intros]:
  "reflp R \<Longrightarrow> transp R \<Longrightarrow> (\<And>x. x \<in> set xs \<Longrightarrow> keeps R (f x)) \<Longrightarrow> keeps R (for_each xs f)"
  by (induction xs) (auto intro: keeps_intros)

text \<open>Preservation of an invariant, as a case of \<open>keeps\<close>.\<close>

abbreviation preserves :: "('s \<Rightarrow> bool) \<Rightarrow> ('s, 'a) py \<Rightarrow> bool" where
  "preserves I m \<equiv> keeps (\<lambda>s t. I s \<longrightarrow> I t) m"

lemma preserves_refl [simp]: "reflp (\<lambda>s t. I s \<longrightarrow> I t)"
  and preserves_trans [simp]: "transp (\<lambda>s t. I s \<longrightarrow> I t)"
  by (auto simp: reflp_def transp_def)

subsection \<open>Weakest preconditions\<close>

text \<open>
  \<open>wp m Q X s\<close>: run in \<open>s\<close>, \<open>m\<close> either returns a value and a state that satisfy
  \<open>Q\<close> or raises an exception in a state that satisfy \<open>X\<close>. The equations push it
  through a computation, and \<open>wp_mono\<close> uses the specification of a called operation.
\<close>

definition wp :: "('s, 'a) py \<Rightarrow> ('a \<Rightarrow> 's \<Rightarrow> bool) \<Rightarrow> (exn \<Rightarrow> 's \<Rightarrow> bool) \<Rightarrow> 's \<Rightarrow> bool" where
  "wp m Q X s \<longleftrightarrow> (case m s of (Inr a, t) \<Rightarrow> Q a t | (Inl e, t) \<Rightarrow> X e t)"

lemma wp_ret [wp_simps]: "wp (ret a) Q X s \<longleftrightarrow> Q a s"
  and wp_raise [wp_simps]: "wp (raise e) Q' X s \<longleftrightarrow> X e s"
  and wp_get [wp_simps]: "wp (get g) Q'' X s \<longleftrightarrow> Q'' (g s) s"
  and wp_modify [wp_simps]: "wp (modify h) Q''' X s \<longleftrightarrow> Q''' () (h s)"
  by (simp_all add: wp_def)

lemma wp_Pair [wp_simps]: "wp (Pair (Inr a)) Q X s \<longleftrightarrow> Q a s" "wp (Pair (Inl e)) Q' X s \<longleftrightarrow> X e s"
  by (simp_all add: wp_def)

lemma wp_bind [wp_simps]: "wp (bind m k) Q X s \<longleftrightarrow> wp m (\<lambda>a. wp (k a) Q X) X s"
  by (simp add: wp_def bind_def split: prod.split sum.split)

lemma wp_seq [wp_simps]: "wp (seq m k) Q X s \<longleftrightarrow> wp m (\<lambda>_. wp k Q X) X s"
  by (simp add: seq_def wp_bind)

lemma wp_try_except [wp_simps]:
  "wp (try_except m h) Q X s \<longleftrightarrow>
     wp m Q (\<lambda>e t. case h e of None \<Rightarrow> X e t | Some k \<Rightarrow> wp k Q X t) s"
  by (simp add: wp_def try_except_def split: prod.split sum.split option.split)

lemma wp_try_finally [wp_simps]:
  "wp (try_finally m f) Q X s \<longleftrightarrow>
     wp m (\<lambda>a. wp f (\<lambda>_. Q a) X) (\<lambda>e. wp f (\<lambda>_. X e) X) s"
  by (simp add: wp_def try_finally_def split: prod.split sum.split)

lemma wp_mono:
  "wp m Q X s \<Longrightarrow> (\<And>a t. Q a t \<Longrightarrow> Q' a t) \<Longrightarrow> (\<And>e t. X e t \<Longrightarrow> X' e t) \<Longrightarrow> wp m Q' X' s"
  by (auto simp: wp_def split: prod.splits sum.splits)

lemma wpD: "wp m Q X s \<Longrightarrow> m s = (r, t) \<Longrightarrow> (case r of Inr a \<Rightarrow> Q a t | Inl e \<Rightarrow> X e t)"
  by (auto simp: wp_def split: sum.splits)

lemma wp_Inr: "wp m Q X s \<Longrightarrow> m s = (Inr a, t) \<Longrightarrow> Q a t"
  and wp_Inl: "wp m Q X s \<Longrightarrow> m s = (Inl e, t) \<Longrightarrow> X e t"
  by (auto simp: wp_def)

lemma wp_snd: "wp m (\<lambda>_. I) (\<lambda>_. I) s \<longleftrightarrow> I (snd (m s))"
  by (simp add: wp_def split: prod.split sum.split)

lemma wp_keeps: "keeps R m \<Longrightarrow> wp m (\<lambda>_. R s) (\<lambda>_. R s) s"
  by (simp add: wp_snd keeps_def)

lemma wp_preserves: "preserves I m \<Longrightarrow> I s \<Longrightarrow> wp m (\<lambda>_. I) (\<lambda>_. I) s"
  by (simp add: wp_snd keeps_def)

lemma wp_return: "wp m Q (\<lambda>_ _. False) s \<Longrightarrow> \<exists>a t. m s = (Inr a, t) \<and> Q a t"
  by (auto simp: wp_def split: prod.splits sum.splits)

lemma wp_for_each:
  "(\<And>x t. x \<in> set xs \<Longrightarrow> I t \<Longrightarrow> wp (f x) (\<lambda>_. I) X t) \<Longrightarrow> I s \<Longrightarrow> wp (for_each xs f) (\<lambda>_. I) X s"
proof (induction xs arbitrary: s)
  case (Cons x xs)
  have "wp (f x) (\<lambda>_. I) X s" using Cons.prems by simp
  then show ?case
    by (simp add: wp_seq) (erule wp_mono; use Cons in simp)
qed (simp add: wp_ret)

section \<open>State machines with an invariant\<close>

text \<open>
  The interface of a component that moves by steps: where it starts, what a step is, and
  an invariant every step keeps. The reachable states then all satisfy it. Each component
  interprets this on its own operations.
\<close>

locale machine =
  fixes start :: "'s \<Rightarrow> bool"
    and step :: "'s \<Rightarrow> 's \<Rightarrow> bool"
    and inv :: "'s \<Rightarrow> bool"
  assumes start_inv: "start s \<Longrightarrow> inv s"
    and step_inv: "inv s \<Longrightarrow> step s t \<Longrightarrow> inv t"
begin

lemma steps_inv: "rtranclp step s t \<Longrightarrow> inv s \<Longrightarrow> inv t"
  by (induction rule: rtranclp_induct) (auto intro: step_inv)

lemma reachable_inv: "start s \<Longrightarrow> rtranclp step s t \<Longrightarrow> inv t"
  using start_inv steps_inv by blast

end

section \<open>What is written is read back\<close>

text \<open>
  The interface of a writer and its reader: JSON, paths, tasks, events. Different values are
  then written differently.
\<close>

locale codec =
  fixes enc :: "'a \<Rightarrow> 'b"
    and dec :: "'b \<Rightarrow> 'a option"
    and ok :: "'a \<Rightarrow> bool"
  assumes dec_enc: "ok v \<Longrightarrow> dec (enc v) = Some v"
begin

lemma enc_eq: "ok u \<Longrightarrow> ok v \<Longrightarrow> enc u = enc v \<longleftrightarrow> u = v"
  using dec_enc by (metis option.inject)

lemma dec_all: "list_all ok vs \<Longrightarrow> map dec (map enc vs) = map Some vs"
  by (induction vs) (simp_all add: dec_enc)

end

text \<open>One behind the other.\<close>

locale codec_chain = inner: codec f g p + outer: codec enc dec ok
  for f :: "'a \<Rightarrow> 'b" and g :: "'b \<Rightarrow> 'a option" and p :: "'a \<Rightarrow> bool"
    and enc :: "'b \<Rightarrow> 'c" and dec :: "'c \<Rightarrow> 'b option" and ok :: "'b \<Rightarrow> bool" +
  assumes inner_ok: "p v \<Longrightarrow> ok (f v)"

sublocale codec_chain \<subseteq> through: codec "\<lambda>v. enc (f v)" "\<lambda>s. case dec s of None \<Rightarrow> None | Some w \<Rightarrow> g w" p
  by unfold_locales (simp add: outer.dec_enc inner.dec_enc inner_ok)

end
