(* ===== verification/Schemas.thy ===== *)
theory Schemas
  imports Py_Prelude
begin

text \<open>
  \<^verbatim>\<open>schemas.py\<close>: the models that cross module boundaries, their validation and their
  dumps. Validation is what the field declarations say (required fields, defaults, bounds,
  literals, the identifier pattern, no extra keys); the conversions to an integer that the
  validation library accepts beside an integer are the parameter \<open>lax_int\<close>.
\<close>

section \<open>Data\<close>

datatype network_mode = Mode_none | Mode_restricted | Mode_full

record network_spec =
  ns_mode :: network_mode
  ns_extra_allow :: "pystr list"

record task =
  tk_id :: pystr
  tk_description :: pystr
  tk_image :: pystr
  tk_network :: network_spec
  tk_timeout_seconds :: int
  tk_exec_timeout_seconds :: int
  tk_workdir :: pystr
  tk_setup :: "pystr list"
  tk_verify :: "pystr list"
  tk_tags :: "pystr list"
  tk_difficulty :: "pystr option"

datatype run_status = PASSED | FAILED | ERROR

record command_result =
  cr_cmd :: pystr
  cr_exit_code :: int
  cr_stdout :: pystr
  cr_stderr :: pystr
  cr_duration_ms :: int

datatype event_type =
    Run_started
  | Setup_command
  | Agent_command
  | Agent_thought
  | Egress_attempt
  | Session_forked
  | Session_reverted
  | Verify_command
  | Run_finished

record trajectory_event =
  ev_seq :: int
  ev_ts :: pystr
  ev_type :: event_type
  ev_data :: dict

record run_result =
  rr_task_id :: pystr
  rr_status :: run_status
  rr_reason :: pystr
  rr_trajectory_path :: "pystr list"
  rr_container_id :: "pystr option"

text \<open>The strings the enumerations and literals stand for.\<close>

fun mode_str :: "network_mode \<Rightarrow> string" where
  "mode_str Mode_none = ''none''"
| "mode_str Mode_restricted = ''restricted''"
| "mode_str Mode_full = ''full''"

fun status_str :: "run_status \<Rightarrow> string" where
  "status_str PASSED = ''passed''"
| "status_str FAILED = ''failed''"
| "status_str ERROR = ''error''"

fun event_type_str :: "event_type \<Rightarrow> string" where
  "event_type_str Run_started = ''run_started''"
| "event_type_str Setup_command = ''setup_command''"
| "event_type_str Agent_command = ''agent_command''"
| "event_type_str Agent_thought = ''agent_thought''"
| "event_type_str Egress_attempt = ''egress_attempt''"
| "event_type_str Session_forked = ''session_forked''"
| "event_type_str Session_reverted = ''session_reverted''"
| "event_type_str Verify_command = ''verify_command''"
| "event_type_str Run_finished = ''run_finished''"

definition EVENT_TYPES :: "event_type list" where
  "EVENT_TYPES = [Run_started, Setup_command, Agent_command, Agent_thought, Egress_attempt,
     Session_forked, Session_reverted, Verify_command, Run_finished]"

lemma EVENT_TYPES_all: "t \<in> set EVENT_TYPES"
  by (cases t) (simp_all add: EVENT_TYPES_def)

lemma event_type_str_inject [simp]: "event_type_str t = event_type_str u \<longleftrightarrow> t = u"
  by (cases t; cases u) simp_all

lemma mode_str_inject [simp]: "mode_str m = mode_str n \<longleftrightarrow> m = n"
  by (cases m; cases n) simp_all

section \<open>Field validators\<close>

text \<open>The pattern \<^verbatim>\<open>^[a-z0-9][a-z0-9_-]{0,63}$\<close>.\<close>

definition id_start :: "codepoint \<Rightarrow> bool" where
  "id_start c \<longleftrightarrow> (97 \<le> c \<and> c \<le> 122) \<or> (48 \<le> c \<and> c \<le> 57)"

definition id_char :: "codepoint \<Rightarrow> bool" where
  "id_char c \<longleftrightarrow> id_start c \<or> c = 95 \<or> c = 45"

fun valid_task_id :: "pystr \<Rightarrow> bool" where
  "valid_task_id [] = False"
| "valid_task_id (c # s) = (id_start c \<and> length s \<le> 63 \<and> list_all id_char s)"

fun as_str :: "jval \<Rightarrow> pystr option" where
  "as_str (JStr s) = Some s"
| "as_str _ = None"

fun as_str_list :: "jval \<Rightarrow> pystr list option" where
  "as_str_list (JList xs) = those (map as_str xs)"
| "as_str_list _ = None"

fun as_opt_str :: "jval \<Rightarrow> pystr option option" where
  "as_opt_str JNull = Some None"
| "as_opt_str (JStr s) = Some (Some s)"
| "as_opt_str _ = None"

fun as_obj :: "jval \<Rightarrow> dict option" where
  "as_obj (JObj d) = Some d"
| "as_obj _ = None"

definition refine :: "('a \<Rightarrow> bool) \<Rightarrow> 'a option \<Rightarrow> 'a option" where
  "refine P x = (case x of Some a \<Rightarrow> if P a then Some a else None | None \<Rightarrow> None)"

definition as_int :: "(jval \<Rightarrow> int option) \<Rightarrow> (int \<Rightarrow> bool) \<Rightarrow> jval \<Rightarrow> int option" where
  "as_int lax_int P v = refine P (lax_int v)"

definition as_literal :: "('a \<Rightarrow> string) \<Rightarrow> 'a list \<Rightarrow> jval \<Rightarrow> 'a option" where
  "as_literal f xs v = (case v of JStr s \<Rightarrow> find (\<lambda>x. lit (f x) = s) xs | _ \<Rightarrow> None)"

definition required :: "dict \<Rightarrow> string \<Rightarrow> (jval \<Rightarrow> 'a option) \<Rightarrow> 'a option" where
  "required d k f = (case map_of d (lit k) of None \<Rightarrow> None | Some v \<Rightarrow> f v)"

definition defaulted :: "dict \<Rightarrow> string \<Rightarrow> 'a \<Rightarrow> (jval \<Rightarrow> 'a option) \<Rightarrow> 'a option" where
  "defaulted d k a f = (case map_of d (lit k) of None \<Rightarrow> Some a | Some v \<Rightarrow> f v)"

definition no_extra :: "string list \<Rightarrow> dict \<Rightarrow> bool" where
  "no_extra ks d \<longleftrightarrow> list_all (\<lambda>(k, v). k \<in> set (map lit ks)) d"

section \<open>Models\<close>

definition MODES :: "network_mode list" where
  "MODES = [Mode_none, Mode_restricted, Mode_full]"

definition default_network :: network_spec where
  "default_network = \<lparr>ns_mode = Mode_none, ns_extra_allow = []\<rparr>"

fun coerce_legacy_bool :: "jval \<Rightarrow> jval" where
  "coerce_legacy_bool (JBool b) =
     JObj [(lit ''mode'', JStr (lit (if b then ''full'' else ''none'')))]"
| "coerce_legacy_bool v = v"

definition validate_network :: "jval \<Rightarrow> network_spec option" where
  "validate_network v =
     Option.bind (refine (no_extra [''mode'', ''extra_allow'']) (as_obj v)) (\<lambda>d.
     Option.bind (defaulted d ''mode'' Mode_none (as_literal mode_str MODES)) (\<lambda>m.
     Option.bind (defaulted d ''extra_allow'' [] as_str_list) (\<lambda>xs.
       Some \<lparr>ns_mode = m, ns_extra_allow = xs\<rparr>)))"

definition TASK_FIELDS :: "string list" where
  "TASK_FIELDS = [''id'', ''description'', ''image'', ''network'', ''timeout_seconds'',
     ''exec_timeout_seconds'', ''workdir'', ''setup'', ''verify'', ''tags'', ''difficulty'']"

definition DEFAULT_IMAGE :: pystr where
  "DEFAULT_IMAGE = lit ''prehnite-base:latest''"

definition validate_task_fields :: "(jval \<Rightarrow> int option) \<Rightarrow> dict \<Rightarrow> task option" where
  "validate_task_fields lax_int d =
     Option.bind (required d ''id'' (\<lambda>v. refine valid_task_id (as_str v))) (\<lambda>i.
     Option.bind (required d ''description'' (\<lambda>v. refine (\<lambda>s. s \<noteq> []) (as_str v))) (\<lambda>desc.
     Option.bind (defaulted d ''image'' DEFAULT_IMAGE (\<lambda>v. refine (\<lambda>s. s \<noteq> []) (as_str v))) (\<lambda>img.
     Option.bind (defaulted d ''network'' default_network
                    (\<lambda>v. validate_network (coerce_legacy_bool v))) (\<lambda>net.
     Option.bind (defaulted d ''timeout_seconds'' 120
                    (as_int lax_int (\<lambda>n. 0 < n \<and> n \<le> 3600))) (\<lambda>tmo.
     Option.bind (defaulted d ''exec_timeout_seconds'' 60
                    (as_int lax_int (\<lambda>n. 0 < n \<and> n \<le> 600))) (\<lambda>xtmo.
     Option.bind (defaulted d ''workdir'' (lit ''/workspace'') as_str) (\<lambda>wd.
     Option.bind (defaulted d ''setup'' [] as_str_list) (\<lambda>setup.
     Option.bind (defaulted d ''verify'' [] as_str_list) (\<lambda>verify.
     Option.bind (defaulted d ''tags'' [] as_str_list) (\<lambda>tags.
     Option.bind (defaulted d ''difficulty'' None as_opt_str) (\<lambda>diff.
       Some \<lparr>tk_id = i, tk_description = desc, tk_image = img, tk_network = net,
             tk_timeout_seconds = tmo, tk_exec_timeout_seconds = xtmo, tk_workdir = wd,
             tk_setup = setup, tk_verify = verify, tk_tags = tags,
             tk_difficulty = diff\<rparr>)))))))))))"

definition validate_task :: "(jval \<Rightarrow> int option) \<Rightarrow> jval \<Rightarrow> exn + task" where
  "validate_task lax_int v =
     (case Option.bind (refine (no_extra TASK_FIELDS) (as_obj v)) (validate_task_fields lax_int)
      of None \<Rightarrow> Inl Validation_Error | Some t \<Rightarrow> Inr t)"

definition EVENT_FIELDS :: "string list" where
  "EVENT_FIELDS = [''seq'', ''ts'', ''type'', ''data'']"

definition validate_event_fields :: "(jval \<Rightarrow> int option) \<Rightarrow> dict \<Rightarrow> trajectory_event option" where
  "validate_event_fields lax_int d =
     Option.bind (required d ''seq'' (as_int lax_int (\<lambda>n. 0 \<le> n))) (\<lambda>sq.
     Option.bind (required d ''ts'' as_str) (\<lambda>t.
     Option.bind (required d ''type'' (as_literal event_type_str EVENT_TYPES)) (\<lambda>ty.
     Option.bind (defaulted d ''data'' [] as_obj) (\<lambda>da.
       Some \<lparr>ev_seq = sq, ev_ts = t, ev_type = ty, ev_data = da\<rparr>))))"

definition validate_event :: "(jval \<Rightarrow> int option) \<Rightarrow> jval \<Rightarrow> exn + trajectory_event" where
  "validate_event lax_int v =
     (case Option.bind (refine (no_extra EVENT_FIELDS) (as_obj v)) (validate_event_fields lax_int)
      of None \<Rightarrow> Inl Validation_Error | Some e \<Rightarrow> Inr e)"

section \<open>Dumps\<close>

definition str_list :: "pystr list \<Rightarrow> jval" where
  "str_list xs = JList (map JStr xs)"

definition dump_network :: "network_spec \<Rightarrow> jval" where
  "dump_network n = JObj [(lit ''mode'', JStr (lit (mode_str (ns_mode n)))),
     (lit ''extra_allow'', str_list (ns_extra_allow n))]"

definition dump_task :: "task \<Rightarrow> jval" where
  "dump_task t = JObj
     [(lit ''id'', JStr (tk_id t)),
      (lit ''description'', JStr (tk_description t)),
      (lit ''image'', JStr (tk_image t)),
      (lit ''network'', dump_network (tk_network t)),
      (lit ''timeout_seconds'', JInt (tk_timeout_seconds t)),
      (lit ''exec_timeout_seconds'', JInt (tk_exec_timeout_seconds t)),
      (lit ''workdir'', JStr (tk_workdir t)),
      (lit ''setup'', str_list (tk_setup t)),
      (lit ''verify'', str_list (tk_verify t)),
      (lit ''tags'', str_list (tk_tags t)),
      (lit ''difficulty'', opt_str (tk_difficulty t))]"

definition dump_event :: "trajectory_event \<Rightarrow> jval" where
  "dump_event e = JObj
     [(lit ''seq'', JInt (ev_seq e)),
      (lit ''ts'', JStr (ev_ts e)),
      (lit ''type'', JStr (lit (event_type_str (ev_type e)))),
      (lit ''data'', JObj (ev_data e))]"

definition dump_command :: "command_result \<Rightarrow> dict" where
  "dump_command r =
     [(lit ''cmd'', JStr (cr_cmd r)),
      (lit ''exit_code'', JInt (cr_exit_code r)),
      (lit ''stdout'', JStr (cr_stdout r)),
      (lit ''stderr'', JStr (cr_stderr r)),
      (lit ''duration_ms'', JInt (cr_duration_ms r))]"

text \<open>\<^verbatim>\<open>utcnow_iso\<close>: the clock's reading, to the second, as the format string prints it.\<close>

record utc_time =
  u_year :: nat
  u_month :: nat
  u_day :: nat
  u_hour :: nat
  u_minute :: nat
  u_second :: nat

definition pad0 :: "nat \<Rightarrow> pystr \<Rightarrow> pystr" where
  "pad0 w s = replicate (w - length s) 48 @ s"

definition utcnow_iso :: "utc_time \<Rightarrow> pystr" where
  "utcnow_iso t =
     pad0 4 (dec_digits (u_year t)) @ lit ''-'' @ pad0 2 (dec_digits (u_month t)) @ lit ''-''
     @ pad0 2 (dec_digits (u_day t)) @ lit ''T'' @ pad0 2 (dec_digits (u_hour t)) @ lit '':''
     @ pad0 2 (dec_digits (u_minute t)) @ lit '':'' @ pad0 2 (dec_digits (u_second t)) @ lit ''Z''"

section \<open>Validation is sound and inverts the dump\<close>

definition wf_task :: "task \<Rightarrow> bool" where
  "wf_task t \<longleftrightarrow> valid_task_id (tk_id t) \<and> tk_description t \<noteq> [] \<and> tk_image t \<noteq> []
     \<and> 0 < tk_timeout_seconds t \<and> tk_timeout_seconds t \<le> 3600
     \<and> 0 < tk_exec_timeout_seconds t \<and> tk_exec_timeout_seconds t \<le> 600"

lemma refine_Some: "refine P x = Some a \<longleftrightarrow> x = Some a \<and> P a"
  by (auto simp: refine_def split: option.splits)

lemma required_refined: "required d k (\<lambda>v. refine P (g v)) = Some a \<Longrightarrow> P a"
  by (auto simp: required_def refine_Some split: option.splits)

lemma defaulted_refined:
  "defaulted d k dflt (\<lambda>v. refine P (g v)) = Some a \<Longrightarrow> P dflt \<Longrightarrow> P a"
  by (auto simp: defaulted_def refine_Some split: option.splits)

lemma defaulted_int: "defaulted d k dflt (as_int l P) = Some a \<Longrightarrow> P dflt \<Longrightarrow> P a"
  by (auto simp: defaulted_def as_int_def refine_Some split: option.splits)

lemmas validated = required_refined defaulted_refined defaulted_int

lemma validate_task_fields_wf:
  assumes "validate_task_fields lax_int d = Some t"
  shows "wf_task t"
proof -
  from assms obtain i desc img net tmo xtmo wd su ve ta di where
    r: "required d ''id'' (\<lambda>v. refine valid_task_id (as_str v)) = Some i"
       "required d ''description'' (\<lambda>v. refine (\<lambda>s. s \<noteq> []) (as_str v)) = Some desc"
       "defaulted d ''image'' DEFAULT_IMAGE (\<lambda>v. refine (\<lambda>s. s \<noteq> []) (as_str v)) = Some img"
       "defaulted d ''timeout_seconds'' 120 (as_int lax_int (\<lambda>n. 0 < n \<and> n \<le> 3600)) = Some tmo"
       "defaulted d ''exec_timeout_seconds'' 60 (as_int lax_int (\<lambda>n. 0 < n \<and> n \<le> 600)) = Some xtmo"
    and t: "t = \<lparr>tk_id = i, tk_description = desc, tk_image = img, tk_network = net,
             tk_timeout_seconds = tmo, tk_exec_timeout_seconds = xtmo, tk_workdir = wd,
             tk_setup = su, tk_verify = ve, tk_tags = ta, tk_difficulty = di\<rparr>"
    unfolding validate_task_fields_def bind_eq_Some_conv option.inject by metis
  show ?thesis
    using validated(1) [OF r(1)] validated(1) [OF r(2)] validated(2) [OF r(3)]
      validated(3) [OF r(4)] validated(3) [OF r(5)]
    by (simp add: wf_task_def t DEFAULT_IMAGE_def)
qed

lemma validate_task_wf: "validate_task lax_int v = Inr t \<Longrightarrow> wf_task t"
  by (auto simp: validate_task_def bind_eq_Some_conv validate_task_fields_wf split: option.splits)

text \<open>Reading back a dump.\<close>

lemma those_as_str [simp]: "those (map (as_str \<circ> JStr) xs) = Some xs"
  by (induction xs) simp_all

lemma as_str_list_str_list [simp]: "as_str_list (str_list xs) = Some xs"
  by (simp add: str_list_def)

lemma as_opt_str_opt_str [simp]: "as_opt_str (opt_str x) = Some x"
  by (cases x) (simp_all add: opt_str_def)

lemma find_lit_unique:
  "x \<in> set xs \<Longrightarrow> (\<And>y. f y = f x \<Longrightarrow> y = x) \<Longrightarrow> find (\<lambda>y. f y = f x) xs = Some x"
  by (induction xs) auto

lemma as_literal_mode [simp]: "as_literal mode_str MODES (JStr (lit (mode_str m))) = Some m"
  unfolding as_literal_def by (cases m) (simp_all add: MODES_def)

lemma as_literal_event [simp]:
  "as_literal event_type_str EVENT_TYPES (JStr (lit (event_type_str t))) = Some t"
  using find_lit_unique [OF EVENT_TYPES_all, of event_type_str t]
  by (simp add: as_literal_def)

lemma validate_dump_network [simp]:
  "validate_network (coerce_legacy_bool (dump_network n)) = Some n"
  by (simp add: validate_network_def dump_network_def no_extra_def refine_def defaulted_def)

lemma validate_dump_task:
  assumes "\<And>n. lax_int (JInt n) = Some n" and "wf_task t"
  shows "validate_task lax_int (dump_task t) = Inr t"
proof -
  have "no_extra TASK_FIELDS (the (as_obj (dump_task t)))"
    by (simp add: no_extra_def TASK_FIELDS_def dump_task_def)
  moreover have "validate_task_fields lax_int (the (as_obj (dump_task t))) = Some t"
    using assms
    by (simp add: validate_task_fields_def dump_task_def required_def defaulted_def refine_def
        as_int_def wf_task_def)
  ultimately show ?thesis
    by (simp add: validate_task_def refine_def dump_task_def)
qed

lemma validate_dump_event:
  assumes "\<And>n. lax_int (JInt n) = Some n" and "0 \<le> ev_seq e"
  shows "validate_event lax_int (dump_event e) = Inr e"
  using assms
  by (simp add: validate_event_def validate_event_fields_def dump_event_def required_def
      defaulted_def refine_def as_int_def no_extra_def EVENT_FIELDS_def)



text \<open>C31. A task survives persistence: validating the dump of a well-formed task gives that task
  back, field for field, provided the validator accepts an integer as itself.\<close>

theorem task_dump_roundtrip:
  assumes "\<And>n. lax_int (JInt n) = Some n" and "wf_task t"
  shows "validate_task lax_int (dump_task t) = Inr t"
  using assms by (rule validate_dump_task)

theorem task_dump_roundtrip_witness:
  "validate_task (\<lambda>v. case v of JInt n \<Rightarrow> Some n | _ \<Rightarrow> None)
     (dump_task \<lparr>tk_id = lit ''a-1'', tk_description = lit ''d'', tk_image = DEFAULT_IMAGE,
        tk_network = \<lparr>ns_mode = Mode_restricted, ns_extra_allow = [lit ''x.org'']\<rparr>,
        tk_timeout_seconds = 3600, tk_exec_timeout_seconds = 1, tk_workdir = [],
        tk_setup = [lit ''true''], tk_verify = [], tk_tags = [], tk_difficulty = Some []\<rparr>)
   = Inr \<lparr>tk_id = lit ''a-1'', tk_description = lit ''d'', tk_image = DEFAULT_IMAGE,
        tk_network = \<lparr>ns_mode = Mode_restricted, ns_extra_allow = [lit ''x.org'']\<rparr>,
        tk_timeout_seconds = 3600, tk_exec_timeout_seconds = 1, tk_workdir = [],
        tk_setup = [lit ''true''], tk_verify = [], tk_tags = [], tk_difficulty = Some []\<rparr>"
  by (rule task_dump_roundtrip)
    (simp_all add: wf_task_def DEFAULT_IMAGE_def lit_def id_start_def id_char_def)

end
