(* ===== verification/Loader.thy ===== *)
theory Loader
  imports Schemas "HOL-Library.List_Lexorder"
begin

text \<open>
  \<^verbatim>\<open>tasks/loader.py\<close>: reading one task file and discovering all tasks of a directory. The
  directory is a parameter: whether it exists, the paths below it in the order the walk
  yields them, and the content of the files; so is the YAML parser. Paths are lists of their
  parts, ordered part by part as \<^verbatim>\<open>sorted\<close> orders them.
\<close>

record taskdir =
  td_exists :: bool
  td_entries :: "pystr list list"
  td_read :: "pystr list \<Rightarrow> (exn + pystr) option"
  td_yaml :: "pystr \<Rightarrow> exn + jval"
  td_lax_int :: "jval \<Rightarrow> int option"
  td_quote :: "pystr \<Rightarrow> pystr"
  td_show_task :: "task \<Rightarrow> pystr"

definition path_str :: "pystr list \<Rightarrow> pystr" where
  "path_str p = lit ''/'' @ py_join (lit ''/'') p"

fun is_yaml_error :: "exn \<Rightarrow> bool" where
  "is_yaml_error (Yaml_Error m) = True"
| "is_yaml_error _ = False"

definition load_task :: "taskdir \<Rightarrow> pystr list \<Rightarrow> exn + task" where
  "load_task D p = (case td_read D p of
     None \<Rightarrow> Inl (Task_Load_Error (lit ''task file not found: '' @ path_str p))
   | Some (Inl e) \<Rightarrow> Inl e
   | Some (Inr content) \<Rightarrow>
       (case td_yaml D content of
          Inl e \<Rightarrow> if is_yaml_error e
            then Inl (Task_Load_Error (path_str p @ lit '': invalid YAML: '' @ exn_text e)) else Inl e
        | Inr (JObj raw) \<Rightarrow>
            (case validate_task (td_lax_int D) (JObj raw) of
               Inl e \<Rightarrow> Inl (Task_Load_Error (path_str p @ lit '': schema validation failed:'' @ [10]))
             | Inr t \<Rightarrow> Inr t)
        | Inr _ \<Rightarrow> Inl (Task_Load_Error (path_str p
            @ lit '': expected a YAML mapping at the top level''))))"

definition named :: "string \<Rightarrow> pystr list \<Rightarrow> bool" where
  "named suffix p \<longleftrightarrow> p \<noteq> [] \<and> ends_with (last p) (lit suffix)"

definition yaml_files :: "taskdir \<Rightarrow> pystr list list" where
  "yaml_files D = filter (named ''.yaml'') (td_entries D) @ filter (named ''.yml'') (td_entries D)"

fun load_all :: "taskdir \<Rightarrow> pystr list list \<Rightarrow> (pystr \<times> task) list \<Rightarrow> exn + (pystr \<times> task) list" where
  "load_all D [] tasks = Inr tasks"
| "load_all D (p # ps) tasks = (case load_task D p of
     Inl e \<Rightarrow> Inl e
   | Inr t \<Rightarrow> (case map_of tasks (tk_id t) of
       Some u \<Rightarrow> Inl (Task_Load_Error (lit ''duplicate task id '' @ td_quote D (tk_id t)
           @ lit '': defined in both '' @ td_show_task D u @ lit '' and '' @ path_str p))
     | None \<Rightarrow> load_all D ps (AList.update (tk_id t) t tasks)))"

definition discover_tasks :: "taskdir \<Rightarrow> pystr list \<Rightarrow> exn + task list" where
  "discover_tasks D root =
     (if \<not> td_exists D then Inl (Task_Load_Error (lit ''task directory not found: '' @ path_str root))
      else case load_all D (sort (yaml_files D)) [] of
        Inl e \<Rightarrow> Inl e | Inr tasks \<Rightarrow> Inr (map snd tasks))"

text \<open>\<^verbatim>\<open>_find_task\<close> of the server: the first task with the identifier.\<close>

fun find_in :: "pystr \<Rightarrow> task list \<Rightarrow> exn + task" where
  "find_in i [] = Inl (Key_Error (lit ''unknown task_id: '' @ i))"
| "find_in i (t # ts) = (if tk_id t = i then Inr t else find_in i ts)"

definition find_task :: "taskdir \<Rightarrow> pystr list \<Rightarrow> pystr \<Rightarrow> exn + task" where
  "find_task D root i = (case discover_tasks D root of Inl e \<Rightarrow> Inl e | Inr ts \<Rightarrow> find_in i ts)"

section \<open>Loading is all or nothing\<close>

lemma load_task_wf: "load_task D p = Inr t \<Longrightarrow> wf_task t"
  by (auto simp: load_task_def split: option.splits sum.splits jval.splits if_splits
      intro: validate_task_wf)

lemma update_new: "map_of d k = None \<Longrightarrow> AList.update k v d = d @ [(k, v)]"
  by (induction d) auto

definition keyed :: "(pystr \<times> task) list \<Rightarrow> bool" where
  "keyed tasks \<longleftrightarrow> distinct (map fst tasks) \<and> list_all (\<lambda>(k, t). k = tk_id t) tasks"

lemma keyed_snoc: "keyed tasks \<Longrightarrow> map_of tasks (tk_id t) = None \<Longrightarrow> keyed (tasks @ [(tk_id t, t)])"
  by (auto simp: keyed_def map_of_eq_None_iff)

lemma load_all_Inr:
  "load_all D ps tasks = Inr out \<Longrightarrow> keyed tasks \<Longrightarrow>
     keyed out \<and> (\<exists>new. out = tasks @ new \<and> list_all2 (\<lambda>p (k, t). load_task D p = Inr t) ps new)"
proof (induction ps arbitrary: tasks)
  case (Cons p ps)
  from Cons.prems(1) obtain t where t: "load_task D p = Inr t" "map_of tasks (tk_id t) = None"
    "load_all D ps (tasks @ [(tk_id t, t)]) = Inr out"
    by (auto simp: update_new split: sum.splits option.splits)
  from Cons.IH [OF t(3) keyed_snoc [OF Cons.prems(2) t(2)]] t(1) show ?case by fastforce
qed auto

lemma load_all_distinct:
  "list_all2 (\<lambda>p t. load_task D p = Inr t) ps ts \<Longrightarrow> keyed tasks
     \<Longrightarrow> distinct (map fst tasks @ map tk_id ts)
     \<Longrightarrow> load_all D ps tasks = Inr (tasks @ map (\<lambda>t. (tk_id t, t)) ts)"
proof (induction arbitrary: tasks rule: list_all2_induct)
  case Nil
  then show ?case by simp
next
  case (Cons p ps t ts)
  then have n: "map_of tasks (tk_id t) = None" by (simp add: map_of_eq_None_iff)
  moreover have "load_all D ps (tasks @ [(tk_id t, t)])
      = Inr ((tasks @ [(tk_id t, t)]) @ map (\<lambda>t. (tk_id t, t)) ts)"
    using Cons.prems n by (intro Cons.IH keyed_snoc) auto
  ultimately show ?case using Cons.hyps(1) by (simp add: update_new)
qed

lemma discover_Inr:
  assumes "discover_tasks D root = Inr ts"
  shows "distinct (map tk_id ts) \<and> list_all2 (\<lambda>p t. load_task D p = Inr t) (sort (yaml_files D)) ts"
proof -
  obtain out where out: "load_all D (sort (yaml_files D)) [] = Inr out" "ts = map snd out"
    using assms by (auto simp: discover_tasks_def split: if_splits sum.splits)
  have k: "keyed out" and l: "list_all2 (\<lambda>p (k, t). load_task D p = Inr t) (sort (yaml_files D)) out"
    using load_all_Inr [OF out(1)] by (auto simp: keyed_def)
  have m: "map tk_id ts = map fst out"
    using k by (auto simp: keyed_def out(2) list_all_iff)
  have l2: "list_all2 (\<lambda>p e. load_task D p = Inr (snd e)) (sort (yaml_files D)) out"
    using l by (rule list_all2_mono) auto
  have "distinct (map tk_id ts)" using k unfolding m keyed_def by blast
  moreover have "list_all2 (\<lambda>p t. load_task D p = Inr t) (sort (yaml_files D)) ts"
    using l2 by (simp add: out(2) list_all2_map2)
  ultimately show ?thesis ..
qed

text \<open>
  What the server asks of the tasks: the one found is well-formed and has the identifier it was
  asked for. Such a task can be written down and validated again.
\<close>

locale task_store =
  fixes lookup :: "pystr \<Rightarrow> exn + task"
  assumes found_wf: "lookup i = Inr t \<Longrightarrow> wf_task t"
    and found_id: "lookup i = Inr t \<Longrightarrow> tk_id t = i"
begin

lemma found_once: "lookup i = Inr t \<Longrightarrow> lookup j = Inr t \<Longrightarrow> i = j"
  using found_id by blast

lemma found_valid_id: "lookup i = Inr t \<Longrightarrow> valid_task_id i"
  using found_id found_wf by (fastforce simp: wf_task_def)

lemma found_validates: "lookup i = Inr t \<Longrightarrow> (\<And>n. lax (JInt n) = Some n) \<Longrightarrow> validate_task lax (dump_task t) = Inr t"
  by (simp add: validate_dump_task found_wf)

end

lemma find_in_Inr: "find_in i ts = Inr t \<Longrightarrow> t \<in> set ts \<and> tk_id t = i"
  by (induction ts) (auto split: if_splits)

interpretation tasks: task_store "find_task D root" for D root
proof
  fix i t assume "find_task D root i = Inr t"
  then obtain ts where ts: "discover_tasks D root = Inr ts" "find_in i ts = Inr t"
    by (auto simp: find_task_def split: sum.splits)
  have "list_all wf_task ts"
    using discover_Inr [OF ts(1)] by (auto simp: list_all2_conv_all_nth list_all_length intro: load_task_wf)
  then show "wf_task t" "tk_id t = i" using find_in_Inr [OF ts(2)] by (auto simp: list_all_iff)
qed

text \<open>C33. Discovery returns one task per YAML file, in the order of the paths, each well-formed and as
  its file loads, and no two with the same identifier.\<close>

theorem discovery_is_sound:
  assumes "discover_tasks D root = Inr ts"
  shows "distinct (map tk_id ts) \<and> list_all wf_task ts
    \<and> list_all2 (\<lambda>p t. load_task D p = Inr t) (sort (yaml_files D)) ts"
proof -
  from discover_Inr [OF assms]
  have "distinct (map tk_id ts)" and l: "list_all2 (\<lambda>p t. load_task D p = Inr t) (sort (yaml_files D)) ts"
    by auto
  moreover have "list_all wf_task ts"
    using l by (auto simp: list_all2_conv_all_nth list_all_length intro: load_task_wf)
  ultimately show ?thesis by simp
qed

text \<open>C34. And it is complete: when every file loads and no identifier repeats, it succeeds with exactly
  those tasks, and each of them is found by its identifier.\<close>

theorem discovery_is_complete:
  assumes "td_exists D" "list_all2 (\<lambda>p t. load_task D p = Inr t) (sort (yaml_files D)) ts"
    and "distinct (map tk_id ts)"
  shows "discover_tasks D root = Inr ts \<and> list_all (\<lambda>t. find_task D root (tk_id t) = Inr t) ts"
proof -
  have "load_all D (sort (yaml_files D)) [] = Inr (map (\<lambda>t. (tk_id t, t)) ts)"
    using load_all_distinct [OF assms(2), of "[]"] assms(3) by (simp add: keyed_def)
  then have d: "discover_tasks D root = Inr ts"
    using assms(1) by (simp add: discover_tasks_def comp_def)
  have "t \<in> set ts \<Longrightarrow> find_in (tk_id t) ts = Inr t" for t
    using assms(3) by (induction ts) auto
  with d show ?thesis by (simp add: find_task_def list_all_iff)
qed

definition demo_yaml :: "pystr \<Rightarrow> jval" where
  "demo_yaml c = JObj [(lit ''id'', JStr c), (lit ''description'', JStr (lit ''d''))]"

definition demo_loaded :: "pystr \<Rightarrow> task" where
  "demo_loaded i = \<lparr>tk_id = i, tk_description = lit ''d'', tk_image = DEFAULT_IMAGE,
     tk_network = default_network, tk_timeout_seconds = 120, tk_exec_timeout_seconds = 60,
     tk_workdir = lit ''/workspace'', tk_setup = [], tk_verify = [], tk_tags = [], tk_difficulty = None\<rparr>"

definition demo_dir :: taskdir where
  "demo_dir = \<lparr>td_exists = True,
     td_entries = [[lit ''b.yml''], [lit ''README.md''], [lit ''a.yaml'']],
     td_read = (\<lambda>p. Some (Inr (if p = [lit ''b.yml''] then lit ''b'' else lit ''a''))),
     td_yaml = (\<lambda>c. Inr (demo_yaml c)),
     td_lax_int = (\<lambda>v. case v of JInt n \<Rightarrow> Some n | _ \<Rightarrow> None), td_quote = (\<lambda>s. s),
     td_show_task = tk_id\<rparr>"

lemma demo_files: "sort (yaml_files demo_dir) = [[lit ''a.yaml''], [lit ''b.yml'']]"
  by (simp add: yaml_files_def demo_dir_def named_def ends_with_def lit_def)

lemma demo_load: "load_task demo_dir [lit ''a.yaml''] = Inr (demo_loaded (lit ''a''))"
  "load_task demo_dir [lit ''b.yml''] = Inr (demo_loaded (lit ''b''))"
  by (simp_all add: load_task_def demo_dir_def demo_yaml_def demo_loaded_def validate_task_def
      validate_task_fields_def refine_def required_def defaulted_def no_extra_def TASK_FIELDS_def
      default_network_def DEFAULT_IMAGE_def lit_def id_start_def)

theorem discovery_is_complete_witness:
  "discover_tasks demo_dir [] = Inr [demo_loaded (lit ''a''), demo_loaded (lit ''b'')]
    \<and> list_all (\<lambda>t. find_task demo_dir [] (tk_id t) = Inr t) [demo_loaded (lit ''a''), demo_loaded (lit ''b'')]"
proof (rule discovery_is_complete)
  show "td_exists demo_dir" by (simp add: demo_dir_def)
qed (simp_all add: demo_files demo_load demo_loaded_def)

theorem discovery_is_sound_witness:
  "distinct (map tk_id [demo_loaded (lit ''a''), demo_loaded (lit ''b'')])
    \<and> list_all wf_task [demo_loaded (lit ''a''), demo_loaded (lit ''b'')]
    \<and> list_all2 (\<lambda>p t. load_task demo_dir p = Inr t) (sort (yaml_files demo_dir))
        [demo_loaded (lit ''a''), demo_loaded (lit ''b'')]"
proof (rule discovery_is_sound)
  show "discover_tasks demo_dir [] = Inr [demo_loaded (lit ''a''), demo_loaded (lit ''b'')]"
    by (simp add: discover_tasks_def demo_files demo_load demo_loaded_def)
      (simp add: demo_dir_def)
qed

end
