(* ===== verification/Utf8.thy ===== *)
theory Utf8
  imports Py_Prelude "HOL-Library.Word"
begin

text \<open>
  UTF-8 as the standard library's \<^verbatim>\<open>str.encode\<close> and \<^verbatim>\<open>bytes.decode\<close> do it:
  the encoder raises on a surrogate code point, the decoder with
  \<^verbatim>\<open>errors="replace"\<close> is total and shows U+FFFD for every maximal ill-formed part.
  The lemmas are the round trip, the shape of an encoding (one start byte, then
  continuation bytes) and the longest prefix of a text whose encoding fits a byte budget.
\<close>

unbundle bit_operations_syntax

type_synonym byte = "8 word"

named_theorems utf8_arith \<open>values of the bytes the encoder builds\<close>

section \<open>Encoding\<close>

definition is_scalar :: "codepoint \<Rightarrow> bool" where
  "is_scalar c \<longleftrightarrow> c < 55296 \<or> (57344 \<le> c \<and> c < 1114112)"

definition byte_of :: "nat \<Rightarrow> byte" where
  "byte_of n = of_nat n"

definition enc1 :: "codepoint \<Rightarrow> byte list" where
  "enc1 c =
    (if c < 128 then [byte_of c]
     else if c < 2048 then [byte_of (192 + c div 64), byte_of (128 + c mod 64)]
     else if c < 65536 then
       [byte_of (224 + c div 4096), byte_of (128 + c div 64 mod 64), byte_of (128 + c mod 64)]
     else
       [byte_of (240 + c div 262144), byte_of (128 + c div 4096 mod 64),
        byte_of (128 + c div 64 mod 64), byte_of (128 + c mod 64)])"

definition enc :: "pystr \<Rightarrow> byte list" where
  "enc s = concat (map enc1 s)"

definition utf8_encode :: "pystr \<Rightarrow> exn + byte list" where
  "utf8_encode s = (if list_all is_scalar s then Inr (enc s) else Inl Unicode_Error)"

text \<open>A continuation byte is 10xxxxxx, tested as the code tests it.\<close>

definition is_cont :: "byte \<Rightarrow> bool" where
  "is_cont b \<longleftrightarrow> b AND 0xC0 = 0x80"

section \<open>Decoding with replacement\<close>

definition replacement :: codepoint where
  "replacement = 65533"

text \<open>
  One step of the decoder: the code point and the bytes left. After a bad start byte one
  byte is consumed; a truncated sequence consumes its valid beginning. The second byte of
  a three- or four-byte form is restricted, so that overlong forms, surrogates and values
  above U+10FFFF are ill-formed.
\<close>

definition second_ok :: "nat \<Rightarrow> byte \<Rightarrow> bool" where
  "second_ok n b \<longleftrightarrow> is_cont b \<and> (n = 224 \<longrightarrow> 160 \<le> unat b) \<and> (n = 237 \<longrightarrow> unat b < 160)
     \<and> (n = 240 \<longrightarrow> 144 \<le> unat b) \<and> (n = 244 \<longrightarrow> unat b < 144)"

definition dec2 :: "nat \<Rightarrow> byte list \<Rightarrow> codepoint \<times> byte list" where
  "dec2 n bs = (case bs of
     c # r \<Rightarrow> if is_cont c then ((n - 192) * 64 + (unat c - 128), r) else (replacement, bs)
   | [] \<Rightarrow> (replacement, bs))"

definition dec3 :: "nat \<Rightarrow> byte list \<Rightarrow> codepoint \<times> byte list" where
  "dec3 n bs = (case bs of
     c # r \<Rightarrow> if second_ok n c then
         (case r of
            d # q \<Rightarrow> if is_cont d
              then ((n - 224) * 4096 + (unat c - 128) * 64 + (unat d - 128), q)
              else (replacement, r)
          | [] \<Rightarrow> (replacement, r))
       else (replacement, bs)
   | [] \<Rightarrow> (replacement, bs))"

definition dec4 :: "nat \<Rightarrow> byte list \<Rightarrow> codepoint \<times> byte list" where
  "dec4 n bs = (case bs of
     c # r \<Rightarrow> if second_ok n c then
         (case r of
            d # q \<Rightarrow> if is_cont d then
                (case q of
                   e # p \<Rightarrow> if is_cont e
                     then ((n - 240) * 262144 + (unat c - 128) * 4096
                           + (unat d - 128) * 64 + (unat e - 128), p)
                     else (replacement, q)
                 | [] \<Rightarrow> (replacement, q))
              else (replacement, r)
          | [] \<Rightarrow> (replacement, r))
       else (replacement, bs)
   | [] \<Rightarrow> (replacement, bs))"

definition dec1 :: "byte \<Rightarrow> byte list \<Rightarrow> codepoint \<times> byte list" where
  "dec1 b bs =
    (if unat b < 128 then (unat b, bs)
     else if 194 \<le> unat b \<and> unat b \<le> 223 then dec2 (unat b) bs
     else if 224 \<le> unat b \<and> unat b \<le> 239 then dec3 (unat b) bs
     else if 240 \<le> unat b \<and> unat b \<le> 244 then dec4 (unat b) bs
     else (replacement, bs))"

lemma dec_length:
  "length (snd (dec2 n bs)) \<le> length bs"
  "length (snd (dec3 n bs)) \<le> length bs"
  "length (snd (dec4 n bs)) \<le> length bs"
  by (auto simp: dec2_def dec3_def dec4_def split: list.split)

lemma dec1_length: "length (snd (dec1 b bs)) \<le> length bs"
  by (simp add: dec1_def dec_length)

function utf8_decode :: "byte list \<Rightarrow> pystr" where
  "utf8_decode [] = []"
| "utf8_decode (b # bs) = (case dec1 b bs of (c, r) \<Rightarrow> c # utf8_decode r)"
  by pat_completeness auto
termination
proof (relation "measure length", goal_cases)
  case 1
  show ?case by simp
next
  case (2 b bs c r)
  then show ?case using dec1_length [of b bs] by (cases "dec1 b bs") simp
qed

section \<open>The bytes of an encoding\<close>

lemma unat_byte [utf8_arith]: "n < 256 \<Longrightarrow> unat (byte_of n) = n"
  by (simp add: byte_of_def unat_of_nat)

lemma and_push_bit: "n AND push_bit k m = push_bit k (drop_bit k n AND (m :: nat))"
  by (rule bit_eqI) (auto simp: bit_simps)

lemma and_C0:
  assumes "n < 256"
  shows "n AND 192 = 128 \<longleftrightarrow> 128 \<le> n \<and> n < (192 :: nat)"
proof -
  have "n AND 192 = n AND push_bit 6 (mask 2)"
    by (simp add: push_bit_eq_mult mask_eq_exp_minus_1)
  also have "\<dots> = push_bit 6 (take_bit 2 (drop_bit 6 n))"
    by (simp only: and_push_bit take_bit_eq_mask)
  also have "\<dots> = 64 * (n div 64 mod 4)"
    by (simp add: push_bit_eq_mult take_bit_eq_mod drop_bit_eq_div)
  finally have "n AND 192 = 64 * (n div 64 mod 4)" .
  moreover have "n div 64 < 4" using assms by simp
  ultimately have "n AND 192 = 64 * (n div 64)" by simp
  moreover have "n = 64 * (n div 64) + n mod 64" "n mod 64 < 64" by simp_all
  ultimately show ?thesis by auto
qed

lemma is_cont_unat: "is_cont b \<longleftrightarrow> 128 \<le> unat b \<and> unat b < 192"
proof -
  have "unat b < 256"
    using unsigned_less [of b] by simp
  moreover have "b AND 0xC0 = 0x80 \<longleftrightarrow> unat b AND 192 = 128"
    by (simp add: word_unat_eq_iff unsigned_and_eq)
  ultimately show ?thesis by (simp add: is_cont_def and_C0)
qed

lemma enc1_shape:
  assumes "is_scalar c"
  shows "\<exists>b t. enc1 c = b # t \<and> \<not> is_cont b \<and> list_all is_cont t"
proof -
  have "c < 1114112" using assms by (auto simp: is_scalar_def)
  then have "c div 262144 < 5" by simp
  then show ?thesis
    by (auto simp: enc1_def is_cont_unat utf8_arith)
qed

lemma enc1_nonempty [simp]: "enc1 c \<noteq> []"
  by (simp add: enc1_def)

lemma enc_Nil [simp]: "enc [] = []"
  and enc_Cons [simp]: "enc (c # s) = enc1 c @ enc s"
  and enc_append [simp]: "enc (s @ t) = enc s @ enc t"
  by (simp_all add: enc_def)

lemma enc_eq_Nil [simp]: "enc s = [] \<longleftrightarrow> s = []"
  by (cases s) auto

section \<open>Round trip\<close>

lemma split_base64:
  fixes c :: nat
  shows "c div 64 * 64 + c mod 64 = c"
    and "c div 4096 * 4096 + c div 64 mod 64 * 64 + c mod 64 = c"
    and "c div 262144 * 262144 + c div 4096 mod 64 * 4096 + c div 64 mod 64 * 64 + c mod 64 = c"
proof -
  have e: "c div 4096 = c div 64 div 64" "c div 262144 = c div 64 div 64 div 64"
    by (simp_all add: div_mult2_eq [symmetric])
  have d: "x = 64 * (x div 64) + x mod 64" for x :: nat
    by simp
  show "c div 64 * 64 + c mod 64 = c" by simp
  show "c div 4096 * 4096 + c div 64 mod 64 * 64 + c mod 64 = c"
    unfolding e using d [of c] d [of "c div 64"] by linarith
  show "c div 262144 * 262144 + c div 4096 mod 64 * 4096 + c div 64 mod 64 * 64 + c mod 64 = c"
    unfolding e using d [of c] d [of "c div 64"] d [of "c div 64 div 64"] by linarith
qed

lemma dec1_enc1:
  assumes "is_scalar c" and "enc1 c = b # t"
  shows "dec1 b (t @ r) = (c, r)"
proof -
  consider (one) "c < 128" | (two) "128 \<le> c" "c < 2048"
    | (three) "2048 \<le> c" "c < 65536" "c < 55296 \<or> 57344 \<le> c"
    | (four) "65536 \<le> c" "c < 1114112"
    using assms(1) unfolding is_scalar_def by linarith
  then show ?thesis
  proof cases
    case one
    with assms(2) have "b = byte_of c" "t = []" by (simp_all add: enc1_def)
    with one show ?thesis by (simp add: dec1_def utf8_arith)
  next
    case two
    with assms(2) have b: "b = byte_of (192 + c div 64)" "t = [byte_of (128 + c mod 64)]"
      by (simp_all add: enc1_def)
    have "2 \<le> c div 64" "c div 64 < 32" using two by simp_all
    then show ?thesis
      by (simp add: b dec1_def dec2_def utf8_arith is_cont_unat split_base64)
  next
    case three
    with assms(2) have b: "b = byte_of (224 + c div 4096)"
      "t = [byte_of (128 + c div 64 mod 64), byte_of (128 + c mod 64)]"
      by (simp_all add: enc1_def)
    have "c div 4096 < 16" using three by simp
    moreover have "second_ok (224 + c div 4096) (byte_of (128 + c div 64 mod 64))"
    proof -
      have x: "c div 64 = 64 * (c div 4096) + c div 64 mod 64" "c mod 64 < 64"
        "c = 64 * (c div 64) + c mod 64"
        using div_mult2_eq [of c 64 64] by simp_all
      have "c div 4096 = 0 \<Longrightarrow> 32 \<le> c div 64 mod 64"
        using three x by linarith
      moreover have "c div 4096 = 13 \<Longrightarrow> c div 64 mod 64 < 32"
        using three x by linarith
      ultimately
      show ?thesis using \<open>c div 4096 < 16\<close>
        by (simp add: second_ok_def is_cont_unat utf8_arith)
    qed
    ultimately show ?thesis
      by (simp add: b dec1_def dec3_def utf8_arith is_cont_unat split_base64)
  next
    case four
    with assms(2) have b: "b = byte_of (240 + c div 262144)"
      "t = [byte_of (128 + c div 4096 mod 64), byte_of (128 + c div 64 mod 64),
            byte_of (128 + c mod 64)]"
      by (simp_all add: enc1_def)
    have "c div 262144 < 5" using four by simp
    moreover have "second_ok (240 + c div 262144) (byte_of (128 + c div 4096 mod 64))"
    proof -
      have x: "c div 4096 = 64 * (c div 262144) + c div 4096 mod 64" "c mod 4096 < 4096"
        "c = 4096 * (c div 4096) + c mod 4096"
        using div_mult2_eq [of c 4096 64] by simp_all
      have "c div 262144 = 0 \<Longrightarrow> 16 \<le> c div 4096 mod 64"
        using four x by linarith
      moreover have "c div 262144 = 4 \<Longrightarrow> c div 4096 mod 64 < 16"
        using four x by linarith
      ultimately
      show ?thesis using \<open>c div 262144 < 5\<close>
        by (simp add: second_ok_def is_cont_unat utf8_arith)
    qed
    ultimately show ?thesis
      by (simp add: b dec1_def dec4_def utf8_arith is_cont_unat split_base64)
  qed
qed

lemma utf8_decode_enc_append:
  "list_all is_scalar s \<Longrightarrow> utf8_decode (enc s @ r) = s @ utf8_decode r"
proof (induction s)
  case Nil
  then show ?case by simp
next
  case (Cons c s)
  then obtain b t where b: "enc1 c = b # t" using enc1_shape [of c] by auto
  with Cons have "dec1 b (t @ enc s @ r) = (c, enc s @ r)" by (auto intro: dec1_enc1)
  with b Cons show ?case by simp
qed

lemma utf8_roundtrip: "utf8_encode s = Inr bs \<Longrightarrow> utf8_decode bs = s"
  using utf8_decode_enc_append [of s "[]"] by (auto simp: utf8_encode_def split: if_splits)

text \<open>The decoder only produces scalar values, so its result can always be encoded again.\<close>

lemma replacement_scalar [simp]: "is_scalar replacement"
  by (simp add: is_scalar_def replacement_def)

lemma dec2_scalar: "194 \<le> n \<Longrightarrow> n \<le> 223 \<Longrightarrow> is_scalar (fst (dec2 n bs))"
  by (auto simp: dec2_def is_scalar_def is_cont_unat replacement_def split: list.split)

lemma dec3_scalar:
  assumes "224 \<le> n" "n \<le> 239"
  shows "is_scalar (fst (dec3 n bs))"
proof -
  have "is_scalar ((n - 224) * 4096 + (x - 128) * 64 + (y - 128))"
    if "128 \<le> x" "x < 192" "n = 237 \<longrightarrow> x < 160" "128 \<le> y" "y < 192" for x y
  proof -
    consider "n \<le> 236" | "n = 237" | "238 \<le> n" by linarith
    then show ?thesis using assms that unfolding is_scalar_def by cases linarith+
  qed
  then show ?thesis
    by (auto simp: dec3_def second_ok_def is_cont_unat split: list.split)
qed

lemma dec4_scalar:
  assumes "240 \<le> n" "n \<le> 244"
  shows "is_scalar (fst (dec4 n bs))"
proof -
  have "is_scalar ((n - 240) * 262144 + (x - 128) * 4096 + (y - 128) * 64 + (z - 128))"
    if "128 \<le> x" "x < 192" "n = 240 \<longrightarrow> 144 \<le> x" "n = 244 \<longrightarrow> x < 144"
      "128 \<le> y" "y < 192" "128 \<le> z" "z < 192" for x y z
  proof -
    consider "n = 240" | "241 \<le> n" "n \<le> 243" | "n = 244" using assms by linarith
    then show ?thesis using assms that unfolding is_scalar_def by cases linarith+
  qed
  then show ?thesis
    by (auto simp: dec4_def second_ok_def is_cont_unat split: list.split)
qed

lemma dec1_scalar: "is_scalar (fst (dec1 b bs))"
  by (simp add: dec1_def dec2_scalar dec3_scalar dec4_scalar) (simp add: is_scalar_def)

lemma utf8_decode_scalar: "list_all is_scalar (utf8_decode bs)"
proof (induction bs rule: utf8_decode.induct)
  case 1
  then show ?case by simp
next
  case (2 b bs)
  then show ?case using dec1_scalar [of b bs] by (cases "dec1 b bs") simp
qed

end
