(* ===== verification/Overflow.thy ===== *)
theory Overflow
  imports Utf8
begin

text \<open>
  \<^verbatim>\<open>overflow.py\<close>: bounded storage of command output. A stream longer than the byte
  budget is cut to its longest prefix of whole characters that fits, and the full bytes go
  to a file named by their SHA-256 digest. The digest function is the parameter \<open>sha\<close>.
  The file system is the part of the state the program's files live in: text files
  (trajectories) and binary files (overflow), each keyed by its path.
\<close>

type_synonym path = "pystr list"

record fsys =
  texts :: "path \<Rightarrow> pystr option"
  blobs :: "path \<Rightarrow> byte list option"

type_synonym digest = "byte list \<Rightarrow> pystr"

section \<open>The code\<close>

definition DEFAULT_MAX_BYTES :: int where
  "DEFAULT_MAX_BYTES = 8 * 1024"

definition CAPPED_FIELDS :: "(string \<times> string) list" where
  "CAPPED_FIELDS = [(''stdout'', ''stdout''), (''stderr'', ''stderr'')]"

text \<open>The loop \<^verbatim>\<open>while cut > 0 and (encoded[cut] & 0xC0) == 0x80: cut -= 1\<close>.\<close>

function walk_back :: "byte list \<Rightarrow> int \<Rightarrow> int" where
  "walk_back encoded k =
     (if 0 < k \<and> is_cont (encoded ! nat k) then walk_back encoded (k - 1) else k)"
  by pat_completeness auto
termination
  by (relation "measure (\<lambda>(encoded, k). nat k)") auto

declare walk_back.simps [simp del]

definition encode_text :: "pystr \<Rightarrow> ('z fsys_scheme, byte list) py" where
  "encode_text text = (case utf8_encode text of Inl e \<Rightarrow> raise e | Inr bs \<Rightarrow> ret bs)"

definition spill :: "path \<Rightarrow> byte list \<Rightarrow> 'z fsys_scheme \<Rightarrow> 'z fsys_scheme" where
  "spill p encoded s =
     (if blobs s p = None then s\<lparr>blobs := (blobs s)(p \<mapsto> encoded)\<rparr> else s)"

fun cap_stream :: "digest \<Rightarrow> int \<Rightarrow> path \<Rightarrow> jval \<Rightarrow> ('z fsys_scheme, jval \<times> dict) py" where
  "cap_stream sha max_bytes overflow_dir (JStr text) =
     bind (encode_text text) (\<lambda>encoded.
       if int (length encoded) \<le> max_bytes then ret (JStr text, [])
       else
         seq (modify (spill (overflow_dir @ [sha encoded]) encoded))
           (ret (JStr (utf8_decode (py_take (walk_back encoded max_bytes) encoded)),
             [(lit ''truncated'', JBool True),
              (lit ''overflow_sha256'', JStr (sha encoded)),
              (lit ''original_bytes'', JInt (int (length encoded)))])))"
| "cap_stream sha max_bytes overflow_dir v = ret (v, [])"

text \<open>One turn of the loop over the capped fields, then the loop.\<close>

definition merge_meta :: "string \<Rightarrow> dict \<Rightarrow> dict \<Rightarrow> dict" where
  "merge_meta prefix meta out =
     fold (\<lambda>(k, v). AList.update (lit prefix @ lit ''_'' @ k) v) meta out"

definition cap_field ::
    "digest \<Rightarrow> int \<Rightarrow> path \<Rightarrow> string \<Rightarrow> string \<Rightarrow> dict \<Rightarrow> ('z fsys_scheme, dict) py" where
  "cap_field sha max_bytes overflow_dir field prefix out =
     (case map_of out (lit field) of
        Some (JStr value) \<Rightarrow>
          bind (cap_stream sha max_bytes overflow_dir (JStr value)) (\<lambda>(capped, meta).
            ret (merge_meta prefix meta (AList.update (lit field) capped out)))
      | _ \<Rightarrow> ret out)"

fun cap_fields ::
    "digest \<Rightarrow> int \<Rightarrow> path \<Rightarrow> (string \<times> string) list \<Rightarrow> dict \<Rightarrow> ('z fsys_scheme, dict) py" where
  "cap_fields sha max_bytes overflow_dir [] out = ret out"
| "cap_fields sha max_bytes overflow_dir ((field, prefix) # rest) out =
     bind (cap_field sha max_bytes overflow_dir field prefix out)
       (cap_fields sha max_bytes overflow_dir rest)"

definition cap_command_data :: "digest \<Rightarrow> int \<Rightarrow> path \<Rightarrow> dict \<Rightarrow> ('z fsys_scheme, dict) py" where
  "cap_command_data sha max_bytes overflow_dir data =
     cap_fields sha max_bytes overflow_dir CAPPED_FIELDS data"

section \<open>The cut\<close>

text \<open>The reference: the longest prefix of whole characters whose encoding fits \<open>m\<close> bytes.\<close>

fun longest_fit :: "nat \<Rightarrow> pystr \<Rightarrow> pystr" where
  "longest_fit m [] = []"
| "longest_fit m (c # s) =
     (if length (enc1 c) \<le> m then c # longest_fit (m - length (enc1 c)) s else [])"

lemma longest_fit_split:
  "\<exists>q. s = longest_fit m s @ q \<and> length (enc (longest_fit m s)) \<le> m
     \<and> (q \<noteq> [] \<longrightarrow> m < length (enc (longest_fit m s)) + length (enc1 (hd q)))"
proof (induction s arbitrary: m)
  case Nil
  then show ?case by simp
next
  case (Cons c s)
  show ?case
  proof (cases "length (enc1 c) \<le> m")
    case True
    from Cons.IH [of "m - length (enc1 c)"] True show ?thesis by auto
  qed simp
qed

lemma longest_fit_length: "length (enc (longest_fit m s)) \<le> m"
  using longest_fit_split [of s m] by blast

lemma longest_fit_prefix: "\<exists>q. s = longest_fit m s @ q"
  using longest_fit_split [of s m] by blast

text \<open>Any prefix that fits is a prefix of the longest one.\<close>

lemma longest_fit_greatest:
  "length (enc p) \<le> m \<Longrightarrow> \<exists>r. longest_fit m (p @ q) = p @ r"
proof (induction p arbitrary: m)
  case Nil
  then show ?case by simp
next
  case (Cons c p)
  then have "length (enc p) \<le> m - length (enc1 c)" "length (enc1 c) \<le> m" by simp_all
  then show ?case using Cons.IH by auto
qed

lemma longest_fit_all: "length (enc s) \<le> m \<Longrightarrow> longest_fit m s = s"
proof -
  assume "length (enc s) \<le> m"
  then obtain r where r: "longest_fit m (s @ []) = s @ r"
    using longest_fit_greatest by blast
  moreover obtain q where "s = longest_fit m s @ q"
    using longest_fit_prefix by blast
  ultimately show ?thesis by simp
qed

lemma walk_back_run:
  "a \<le> k \<Longrightarrow> (\<And>i. a < i \<Longrightarrow> i \<le> k \<Longrightarrow> is_cont (bs ! i)) \<Longrightarrow> a = 0 \<or> \<not> is_cont (bs ! a)
     \<Longrightarrow> walk_back bs (int k) = int a"
proof (induction "k - a" arbitrary: k)
  case 0
  then show ?case by (subst walk_back.simps) auto
next
  case (Suc d)
  then obtain k' where k: "k = Suc k'" "a \<le> k'" by (cases k) auto
  then have "is_cont (bs ! k)" using Suc.prems(2) Suc.hyps(2) by simp
  moreover have "walk_back bs (int k') = int a"
    using Suc.hyps Suc.prems k by (intro Suc.hyps(1)) auto
  moreover have "0 < int k" "int k - 1 = int k'" using k(1) by simp_all
  ultimately show ?case by (subst walk_back.simps) simp
qed

lemma walk_back_enc:
  assumes s: "list_all is_scalar s" and m: "m < length (enc s)"
  shows "walk_back (enc s) (int m) = int (length (enc (longest_fit m s)))"
proof -
  let ?p = "longest_fit m s"
  obtain q where q: "s = ?p @ q" "length (enc ?p) \<le> m"
    "q \<noteq> [] \<Longrightarrow> m < length (enc ?p) + length (enc1 (hd q))"
    using longest_fit_split [of s m] by blast
  from q(1) m longest_fit_length [of m s] have "q \<noteq> []"
    by (metis append_Nil2 not_le)
  then obtain c q' where c: "q = c # q'" by (cases q) auto
  have "c \<in> set s" by (subst q(1)) (simp add: c)
  with s have "is_scalar c" by (simp add: list_all_iff)
  then obtain b t where bt: "enc1 c = b # t" "\<not> is_cont b" "list_all is_cont t"
    using enc1_shape by blast
  have e: "enc s = enc ?p @ b # t @ enc q'"
    by (subst q(1)) (simp add: c bt(1))
  show ?thesis
  proof (rule walk_back_run)
    show "length (enc ?p) \<le> m" by (rule q(2))
    show "length (enc ?p) = 0 \<or> \<not> is_cont (enc s ! length (enc ?p))"
      by (simp add: e bt(2) nth_append)
    fix i assume i: "length (enc ?p) < i" "i \<le> m"
    with q(3) c bt(1) have "i - length (enc ?p) - 1 < length t" by simp
    moreover have "enc s ! i = t ! (i - length (enc ?p) - 1)"
      using i calculation by (simp add: e nth_append nth_Cons')
    ultimately show "is_cont (enc s ! i)" using bt(3) by (simp add: list_all_length)
  qed
qed

lemma head_decode:
  assumes "list_all is_scalar s"
  shows "utf8_decode (take (length (enc (longest_fit m s))) (enc s)) = longest_fit m s"
proof -
  obtain q where q: "s = longest_fit m s @ q" using longest_fit_prefix by blast
  then have "list_all is_scalar (longest_fit m s)" using assms by (metis list_all_append)
  moreover have "take (length (enc (longest_fit m s))) (enc s) = enc (longest_fit m s)"
    by (subst (2) q) simp
  ultimately show ?thesis using utf8_decode_enc_append [of "longest_fit m s" "[]"] by simp
qed

section \<open>What one stream becomes\<close>

definition stream_meta :: "digest \<Rightarrow> pystr \<Rightarrow> dict" where
  "stream_meta sha s =
     [(lit ''truncated'', JBool True),
      (lit ''overflow_sha256'', JStr (sha (enc s))),
      (lit ''original_bytes'', JInt (int (length (enc s))))]"

lemma cap_stream_surrogate:
  "\<not> list_all is_scalar s \<Longrightarrow> cap_stream sha m d (JStr s) fs = (Inl Unicode_Error, fs)"
  by (simp add: encode_text_def utf8_encode_def)

lemma cap_stream_small:
  "list_all is_scalar s \<Longrightarrow> int (length (enc s)) \<le> m
     \<Longrightarrow> cap_stream sha m d (JStr s) fs = (Inr (JStr s, []), fs)"
  by (simp add: encode_text_def utf8_encode_def)

lemma cap_stream_big:
  assumes "list_all is_scalar s" "0 \<le> m" "m < int (length (enc s))"
  shows "cap_stream sha m d (JStr s) fs =
    (Inr (JStr (longest_fit (nat m) s), stream_meta sha s), spill (d @ [sha (enc s)]) (enc s) fs)"
proof -
  have "walk_back (enc s) m = int (length (enc (longest_fit (nat m) s)))"
    using walk_back_enc [of s "nat m"] assms by simp
  then show ?thesis using assms
    by (simp add: encode_text_def utf8_encode_def stream_meta_def head_decode)
qed

lemma cap_stream_eq:
  "0 \<le> m \<Longrightarrow> cap_stream sha m d (JStr s) fs =
    (if \<not> list_all is_scalar s then (Inl Unicode_Error, fs)
     else if int (length (enc s)) \<le> m then (Inr (JStr s, []), fs)
     else (Inr (JStr (longest_fit (nat m) s), stream_meta sha s),
           spill (d @ [sha (enc s)]) (enc s) fs))"
  by (simp add: cap_stream_surrogate cap_stream_small cap_stream_big del: cap_stream.simps)

declare cap_stream.simps(1) [simp del]

text \<open>C24. Truncation computes the longest prefix of whole characters that fits the byte budget:
  a text within the budget is returned as it is and nothing is written; a longer one is cut
  to its longest fitting prefix, described by its digest and its original size, and its full
  bytes are stored under the digest. A text that cannot be encoded raises before anything
  is written.\<close>

theorem cap_stream_correct:
  assumes "0 \<le> max_bytes"
  shows "cap_stream sha max_bytes odir (JStr text) fs =
    (if \<not> list_all is_scalar text then (Inl Unicode_Error, fs)
     else if int (length (enc text)) \<le> max_bytes then (Inr (JStr text, []), fs)
     else (Inr (JStr (longest_fit (nat max_bytes) text), stream_meta sha text),
           spill (odir @ [sha (enc text)]) (enc text) fs))"
  using assms by (rule cap_stream_eq)

theorem cap_stream_correct_witness:
  "cap_stream (\<lambda>_. lit ''h'') 4 [lit ''o''] (JStr [12354, 12354]) \<lparr>texts = Map.empty, blobs = Map.empty\<rparr>
    = (Inr (JStr [12354], stream_meta (\<lambda>_. lit ''h'') [12354, 12354]),
       spill [lit ''o'', lit ''h''] (enc [12354, 12354]) \<lparr>texts = Map.empty, blobs = Map.empty\<rparr>)"
  using cap_stream_correct [of 4 "\<lambda>_. lit ''h''" "[lit ''o'']" "[12354, 12354]"
      "\<lparr>texts = Map.empty, blobs = Map.empty\<rparr>"]
  by (simp add: is_scalar_def enc1_def)

lemma cap_stream_InrD:
  assumes "cap_stream sha m d (JStr s) fs = (Inr (v, meta), fs')" "0 \<le> m"
  shows "list_all is_scalar s \<and> v = JStr (longest_fit (nat m) s)
    \<and> (if int (length (enc s)) \<le> m then meta = [] \<and> fs' = fs
       else meta = stream_meta sha s \<and> fs' = spill (d @ [sha (enc s)]) (enc s) fs)"
  using assms by (auto simp: cap_stream_eq longest_fit_all split: if_splits)



section \<open>The overflow store\<close>

text \<open>
  The invariant of the overflow directory: each file in it is named by the digest of its
  content. Spilling keeps it, so a file found there can be checked against its name.
\<close>

definition store_ok :: "digest \<Rightarrow> path \<Rightarrow> 'z fsys_scheme \<Rightarrow> bool" where
  "store_ok sha d fs \<longleftrightarrow> (\<forall>h b. blobs fs (d @ [h]) = Some b \<longrightarrow> sha b = h)"

lemma spill_store_ok: "store_ok sha d fs \<Longrightarrow> store_ok sha d (spill (d @ [sha b]) b fs)"
  by (auto simp: store_ok_def spill_def)

lemma spill_present: "\<exists>c. blobs (spill p b fs) p = Some c"
  by (auto simp: spill_def)

lemma spill_idem: "spill p b (spill p b fs) = spill p b fs"
  using spill_present [of p b fs] by (auto simp: spill_def [of p b "spill p b fs"])

lemma spill_texts [simp]: "texts (spill p b fs) = texts fs"
  by (simp add: spill_def)

lemma spill_keeps: "blobs fs p = Some b \<Longrightarrow> blobs (spill q c fs) p = Some b"
  by (auto simp: spill_def)

lemma cap_stream_store_ok:
  assumes "store_ok sha d fs" "0 \<le> m"
  shows "store_ok sha d (snd (cap_stream sha m d v fs))"
proof (cases v)
  case (JStr s)
  show ?thesis
    unfolding JStr cap_stream_eq [OF assms(2)]
    using assms(1) by (simp add: spill_store_ok)
qed (use assms in simp_all)



text \<open>Spilling is content-addressed: capping the same text again gives the same result and
  leaves the file system exactly as the first call left it, so equal outputs share one file.\<close>

theorem cap_stream_dedupes:
  assumes "cap_stream sha max_bytes odir (JStr text) fs = (Inr r, fs')" "0 \<le> max_bytes"
  shows "cap_stream sha max_bytes odir (JStr text) fs' = (Inr r, fs')"
  using assms by (auto simp: cap_stream_eq spill_idem split: if_splits)

theorem cap_stream_dedupes_witness:
  "cap_stream (map unat) 1 [] (JStr [97, 98])
      (spill [map unat (enc [97, 98])] (enc [97, 98]) \<lparr>texts = Map.empty, blobs = Map.empty\<rparr>)
    = (Inr (JStr [97], stream_meta (map unat) [97, 98]),
       spill [map unat (enc [97, 98])] (enc [97, 98]) \<lparr>texts = Map.empty, blobs = Map.empty\<rparr>)"
proof (rule cap_stream_dedupes)
  show "cap_stream (map unat) 1 [] (JStr [97, 98]) \<lparr>texts = Map.empty, blobs = Map.empty\<rparr>
    = (Inr (JStr [97], stream_meta (map unat) [97, 98]),
       spill [map unat (enc [97, 98])] (enc [97, 98]) \<lparr>texts = Map.empty, blobs = Map.empty\<rparr>)"
    by (subst cap_stream_big) (simp_all add: is_scalar_def enc1_def)
qed simp

section \<open>A whole command payload\<close>

text \<open>The six keys the metadata of the two streams is merged under.\<close>

definition META_KEYS :: "pystr list" where
  "META_KEYS = map lit [''stdout_truncated'', ''stdout_overflow_sha256'', ''stdout_original_bytes'',
     ''stderr_truncated'', ''stderr_overflow_sha256'', ''stderr_original_bytes'']"

fun cap_value :: "nat \<Rightarrow> jval option \<Rightarrow> jval option" where
  "cap_value m (Some (JStr s)) = Some (JStr (longest_fit m s))"
| "cap_value m v = v"

lemma cap_value_id:
  "(\<And>s. v = Some (JStr s) \<Longrightarrow> length (enc s) \<le> m) \<Longrightarrow> cap_value m v = v"
  by (cases "(m, v)" rule: cap_value.cases) (auto simp: longest_fit_all)

lemma update_same_id: "map_of d k = Some v \<Longrightarrow> AList.update k v d = d"
  by (induction d) auto

lemma merge_meta_Nil [simp]: "merge_meta prefix [] out = out"
  by (simp add: merge_meta_def)

lemma map_of_merge_meta_other:
  "k \<notin> (\<lambda>(a, v). lit prefix @ lit ''_'' @ a) ` set meta
     \<Longrightarrow> map_of (merge_meta prefix meta out) k = map_of out k"
  unfolding merge_meta_def
  by (induction meta arbitrary: out) (auto simp: map_of_update_other)

text \<open>
  One field: the payload is unchanged, or its text was within the budget, or it was cut and
  three keys were merged in.
\<close>

lemma cap_field_InrE:
  assumes "cap_field sha m d field prefix out fs = (Inr out', fs')" "0 \<le> m"
  obtains (same) "out' = out" "fs' = fs"
      "\<And>s. map_of out (lit field) = Some (JStr s)
         \<Longrightarrow> list_all is_scalar s \<and> int (length (enc s)) \<le> m"
    | (over) s where "map_of out (lit field) = Some (JStr s)" "list_all is_scalar s"
      "out' = merge_meta prefix (stream_meta sha s)
         (AList.update (lit field) (JStr (longest_fit (nat m) s)) out)"
      "fs' = spill (d @ [sha (enc s)]) (enc s) fs"
proof (cases "\<exists>s. map_of out (lit field) = Some (JStr s)")
  case False
  with assms(1) have "out' = out" "fs' = fs"
    by (auto simp: cap_field_def split: option.splits jval.splits)
  with False show ?thesis by (intro same) auto
next
  case True
  then obtain s where s: "map_of out (lit field) = Some (JStr s)" by blast
  show ?thesis
  proof (cases "int (length (enc s)) \<le> m")
    case True
    with s assms have "out' = out" "fs' = fs" "list_all is_scalar s"
      by (auto simp: cap_field_def bind_def cap_stream_eq update_same_id split: if_splits)
    with s True show ?thesis by (intro same) auto
  next
    case False
    with s assms show ?thesis
      by (intro over [of s]) (auto simp: cap_field_def bind_def cap_stream_eq split: if_splits)
  qed
qed

definition meta_keys :: "string \<Rightarrow> pystr set" where
  "meta_keys prefix = (\<lambda>a. lit (prefix @ ''_'' @ a)) ` {''truncated'', ''overflow_sha256'', ''original_bytes''}"

lemma stream_meta_keys:
  "(\<lambda>(a, v). lit prefix @ lit ''_'' @ a) ` set (stream_meta sha s) = meta_keys prefix"
  by (simp add: stream_meta_def meta_keys_def flip: lit_append)

lemma META_KEYS_eq: "set META_KEYS = meta_keys ''stdout'' \<union> meta_keys ''stderr''"
  by (simp add: META_KEYS_def meta_keys_def insert_commute)

lemma stream_not_meta [simp]:
  "lit ''stdout'' \<notin> meta_keys ''stdout''" "lit ''stdout'' \<notin> meta_keys ''stderr''"
  "lit ''stderr'' \<notin> meta_keys ''stdout''" "lit ''stderr'' \<notin> meta_keys ''stderr''"
  by (simp_all add: meta_keys_def)

lemma cap_field_lookup:
  assumes "cap_field sha m d field prefix out fs = (Inr out', fs')" "0 \<le> m"
    and "k \<notin> meta_keys prefix"
  shows "map_of out' k = (if k = lit field then cap_value (nat m) (map_of out k) else map_of out k)"
  using assms(1,2)
proof (cases rule: cap_field_InrE)
  case same
  have "cap_value (nat m) (map_of out (lit field)) = map_of out (lit field)"
  proof (rule cap_value_id)
    fix s assume "map_of out (lit field) = Some (JStr s)"
    with same(3) have "int (length (enc s)) \<le> m" by blast
    then show "length (enc s) \<le> nat m" by linarith
  qed
  with same(1) show ?thesis by simp
next
  case (over s)
  have "map_of out' k = map_of (AList.update (lit field) (JStr (longest_fit (nat m) s)) out) k"
    unfolding over(3) using assms(3)
    by (intro map_of_merge_meta_other) (simp add: stream_meta_keys)
  with over(1) show ?thesis by (simp add: map_of_update_other)
qed

lemma cap_command_dataE:
  assumes "cap_command_data sha m d data fs = (Inr out, fs')"
  obtains mid fs1 where "cap_field sha m d ''stdout'' ''stdout'' data fs = (Inr mid, fs1)"
    "cap_field sha m d ''stderr'' ''stderr'' mid fs1 = (Inr out, fs')"
  using assms
  by (auto simp: cap_command_data_def CAPPED_FIELDS_def bind_def ret_def
      split: prod.splits sum.splits)

lemma cap_command_data_lookup:
  assumes "cap_command_data sha m d data fs = (Inr out, fs')" "0 \<le> m" "k \<notin> set META_KEYS"
  shows "map_of out k = (if k \<in> {lit ''stdout'', lit ''stderr''}
      then cap_value (nat m) (map_of data k) else map_of data k)"
proof -
  obtain mid fs1 where c: "cap_field sha m d ''stdout'' ''stdout'' data fs = (Inr mid, fs1)"
    "cap_field sha m d ''stderr'' ''stderr'' mid fs1 = (Inr out, fs')"
    using assms(1) by (rule cap_command_dataE)
  have "map_of mid k =
      (if k = lit ''stdout'' then cap_value (nat m) (map_of data k) else map_of data k)"
    using assms(3) by (intro cap_field_lookup [OF c(1) assms(2)]) (simp add: META_KEYS_eq)
  moreover have "map_of out k =
      (if k = lit ''stderr'' then cap_value (nat m) (map_of mid k) else map_of mid k)"
    using assms(3) by (intro cap_field_lookup [OF c(2) assms(2)]) (simp add: META_KEYS_eq)
  ultimately show ?thesis by auto
qed

text \<open>Capping a command payload touches only its two streams and the six keys that describe
  their truncation: every other entry is as it was, and each stream holds the longest prefix
  that fits.\<close>

theorem cap_command_data_frame:
  assumes "cap_command_data sha max_bytes odir data fs = (Inr out, fs')" "0 \<le> max_bytes"
    and "k \<notin> set META_KEYS"
  shows "map_of out k = (if k \<in> {lit ''stdout'', lit ''stderr''}
      then cap_value (nat max_bytes) (map_of data k) else map_of data k)"
  using assms by (rule cap_command_data_lookup)

theorem cap_command_data_frame_witness:
  "map_of [(lit ''cmd'', JNull), (lit ''stdout'', JStr [97]), (lit ''stdout_truncated'', JBool True),
      (lit ''stdout_overflow_sha256'', JStr [104]), (lit ''stdout_original_bytes'', JInt 2)] (lit ''stdout'')
    = (if lit ''stdout'' \<in> {lit ''stdout'', lit ''stderr''}
       then cap_value (nat 1)
         (map_of [(lit ''cmd'', JNull), (lit ''stdout'', JStr [97, 98])] (lit ''stdout''))
       else map_of [(lit ''cmd'', JNull), (lit ''stdout'', JStr [97, 98])] (lit ''stdout''))"
proof (rule cap_command_data_frame)
  show "cap_command_data (\<lambda>_. [104]) 1 [] [(lit ''cmd'', JNull), (lit ''stdout'', JStr [97, 98])]
      \<lparr>texts = Map.empty, blobs = Map.empty\<rparr>
    = (Inr [(lit ''cmd'', JNull), (lit ''stdout'', JStr [97]), (lit ''stdout_truncated'', JBool True),
         (lit ''stdout_overflow_sha256'', JStr [104]), (lit ''stdout_original_bytes'', JInt 2)],
       spill [[104]] (enc [97, 98]) \<lparr>texts = Map.empty, blobs = Map.empty\<rparr>)"
    by (simp add: cap_command_data_def CAPPED_FIELDS_def cap_field_def bind_def cap_stream_eq
        enc1_def is_scalar_def merge_meta_def stream_meta_def flip: lit_append)
qed (simp_all add: META_KEYS_def)

lemma longest_fit_scalar: "list_all is_scalar s \<Longrightarrow> list_all is_scalar (longest_fit m s)"
  using longest_fit_prefix [of s m] by (metis list_all_append)

lemma cap_field_fits:
  assumes "cap_field sha m d field prefix out fs = (Inr out', fs')" "0 \<le> m"
    and "lit field \<notin> meta_keys prefix"
    and "map_of out' (lit field) = Some (JStr s)"
  shows "list_all is_scalar s \<and> int (length (enc s)) \<le> m"
  using assms(1,2)
proof (cases rule: cap_field_InrE)
  case same
  with assms(4) show ?thesis by simp
next
  case (over s0)
  have "map_of out' (lit field) = Some (JStr (longest_fit (nat m) s0))"
    using over(1) cap_field_lookup [OF assms(1,2), of "lit field"] assms(3) by auto
  with assms(4) over(2) longest_fit_length [of "nat m" s0] show ?thesis
    using assms(2) by (auto simp: longest_fit_scalar)
qed

lemma cap_field_fitting:
  assumes "\<And>s. map_of out (lit field) = Some (JStr s)
      \<Longrightarrow> list_all is_scalar s \<and> int (length (enc s)) \<le> m" and "0 \<le> m"
  shows "cap_field sha m d field prefix out fs = (Inr out, fs)"
  using assms
  by (auto simp: cap_field_def bind_def cap_stream_eq update_same_id
      split: option.splits jval.splits)

text \<open>Capping is idempotent: a payload that has been capped once passes through the same cap
  unchanged, and nothing more is written.\<close>

theorem cap_command_data_idempotent:
  assumes "cap_command_data sha max_bytes odir data fs = (Inr out, fs')" "0 \<le> max_bytes"
  shows "cap_command_data sha max_bytes odir out fs' = (Inr out, fs')"
proof -
  obtain mid fs1 where
    c1: "cap_field sha max_bytes odir ''stdout'' ''stdout'' data fs = (Inr mid, fs1)" and
    c2: "cap_field sha max_bytes odir ''stderr'' ''stderr'' mid fs1 = (Inr out, fs')"
    using assms(1) by (rule cap_command_dataE)
  have "map_of out (lit ''stdout'') = map_of mid (lit ''stdout'')"
    using cap_field_lookup [OF c2 assms(2), of "lit ''stdout''"] by auto
  then have "list_all is_scalar s \<and> int (length (enc s)) \<le> max_bytes"
    if "map_of out (lit ''stdout'') = Some (JStr s)" for s
    using cap_field_fits [OF c1 assms(2)] that by auto
  moreover have "list_all is_scalar s \<and> int (length (enc s)) \<le> max_bytes"
    if "map_of out (lit ''stderr'') = Some (JStr s)" for s
    using cap_field_fits [OF c2 assms(2)] that by auto
  ultimately show ?thesis using assms(2)
    by (simp add: cap_command_data_def CAPPED_FIELDS_def cap_field_fitting bind_def)
qed

theorem cap_command_data_idempotent_witness:
  "cap_command_data (\<lambda>_. [104]) 1 []
     [(lit ''stdout'', JStr [97]), (lit ''stdout_truncated'', JBool True),
      (lit ''stdout_overflow_sha256'', JStr [104]), (lit ''stdout_original_bytes'', JInt 2)]
     (spill [[104]] (enc [97, 98]) \<lparr>texts = Map.empty, blobs = Map.empty\<rparr>)
   = (Inr [(lit ''stdout'', JStr [97]), (lit ''stdout_truncated'', JBool True),
        (lit ''stdout_overflow_sha256'', JStr [104]), (lit ''stdout_original_bytes'', JInt 2)],
      spill [[104]] (enc [97, 98]) \<lparr>texts = Map.empty, blobs = Map.empty\<rparr>)"
proof (rule cap_command_data_idempotent)
  show "cap_command_data (\<lambda>_. [104]) 1 [] [(lit ''stdout'', JStr [97, 98])]
      \<lparr>texts = Map.empty, blobs = Map.empty\<rparr>
    = (Inr [(lit ''stdout'', JStr [97]), (lit ''stdout_truncated'', JBool True),
         (lit ''stdout_overflow_sha256'', JStr [104]), (lit ''stdout_original_bytes'', JInt 2)],
       spill [[104]] (enc [97, 98]) \<lparr>texts = Map.empty, blobs = Map.empty\<rparr>)"
    by (simp add: cap_command_data_def CAPPED_FIELDS_def cap_field_def bind_def cap_stream_eq
        enc1_def is_scalar_def merge_meta_def stream_meta_def flip: lit_append)
qed simp

text \<open>A file already present under the digest is never rewritten, whatever bytes it holds: a
  partial file left by a crashed writer stays as it is, and the full text is not stored.\<close>

theorem cap_stream_keeps_existing:
  assumes "blobs fs (odir @ [sha (enc text)]) = Some b" "0 \<le> max_bytes"
  shows "snd (cap_stream sha max_bytes odir (JStr text) fs) = fs"
  using assms by (simp add: cap_stream_eq spill_def)

theorem cap_stream_keeps_existing_witness:
  "snd (cap_stream (\<lambda>_. [104]) 1 [] (JStr [97, 98])
      \<lparr>texts = Map.empty, blobs = [[[104]] \<mapsto> enc [97]]\<rparr>)
    = \<lparr>texts = Map.empty, blobs = [[[104]] \<mapsto> enc [97]]\<rparr>"
  by (rule cap_stream_keeps_existing [where b = "enc [97]"]) simp_all

section \<open>Frame\<close>

text \<open>Capping writes nothing but overflow files, whether it returns or raises.\<close>

definition only_blobs :: "'z fsys_scheme \<Rightarrow> 'z fsys_scheme \<Rightarrow> bool" where
  "only_blobs s t \<longleftrightarrow> (\<exists>b. t = s\<lparr>blobs := b\<rparr>)"

lemma only_blobs_refl [simp]: "reflp only_blobs"
  unfolding reflp_def only_blobs_def by (metis fsys.surjective fsys.update_convs(2))

lemma only_blobs_trans [simp]: "transp only_blobs"
  by (auto simp: transp_def only_blobs_def)

lemma only_blobs_spill: "only_blobs s (spill p b s)"
  using only_blobs_refl by (auto simp: spill_def only_blobs_def reflp_def)

lemma cap_stream_frame: "keeps only_blobs (cap_stream sha m d v)"
  by (cases v) (auto simp: cap_stream.simps encode_text_def only_blobs_spill
      intro!: keeps_intros split: sum.split)

lemma cap_field_frame: "keeps only_blobs (cap_field sha m d field prefix out)"
  by (auto simp: cap_field_def intro!: keeps_intros cap_stream_frame split: option.split jval.split)

lemma cap_command_data_only_blobs: "keeps only_blobs (cap_command_data sha m d data)"
proof -
  have "keeps only_blobs (cap_fields sha m d fields data)" for fields
    by (induction fields arbitrary: data) (auto intro!: keeps_intros cap_field_frame)
  then show ?thesis by (simp add: cap_command_data_def [abs_def])
qed

end
