(* ===== verification/Trajectory.thy ===== *)
theory Trajectory
  imports Overflow Schemas
begin

text \<open>
  \<^verbatim>\<open>trajectory.py\<close>: the append-only, sequence-numbered JSONL writer of one trajectory
  file, the reader, and the recovery of the sequence counter when an existing file is
  reopened. The state holds the files, the number of clock readings so far and the writer.
  The event serialiser and the JSON parser are parameters; \<open>codec_ok\<close> is what is asked of
  them. A lock makes each \<^verbatim>\<open>write\<close> atomic, so the interleavings of the threads that
  share a writer are the sequences of writes.
\<close>

record env =
  e_sha :: digest
  e_clock :: "nat \<Rightarrow> utc_time"
  e_dump :: "trajectory_event \<Rightarrow> exn + pystr"
  e_loads :: "pystr \<Rightarrow> jval option"
  e_lax_int :: "jval \<Rightarrow> int option"
  e_int_of_str :: "pystr \<Rightarrow> int option"
  e_int_of_float :: "pystr \<Rightarrow> int option"

record writer =
  w_path :: path
  w_fh :: bool
  w_seq :: int
  w_closed :: bool
  w_overflow_dir :: "path option"
  w_max_stream_bytes :: int

record tstate = fsys +
  ticks :: nat
  wr :: writer

section \<open>The code\<close>

definition new_writer :: "path \<Rightarrow> path option \<Rightarrow> int \<Rightarrow> writer" where
  "new_writer path odir max_bytes =
     \<lparr>w_path = path, w_fh = False, w_seq = 0, w_closed = False,
      w_overflow_dir = odir, w_max_stream_bytes = max_bytes\<rparr>"

definition CAPPED_EVENT_TYPES :: "event_type set" where
  "CAPPED_EVENT_TYPES = {Setup_command, Agent_command, Verify_command}"

text \<open>
  The builtin \<^verbatim>\<open>int()\<close> on a JSON value. A text that is no number is a ValueError, and so is a NaN;
  an infinite float is an OverflowError; anything but a number or a text is a TypeError.
\<close>

fun py_int :: "('e env_scheme) \<Rightarrow> jval \<Rightarrow> exn + int" where
  "py_int E (JInt i) = Inr i"
| "py_int E (JBool b) = Inr (if b then 1 else 0)"
| "py_int E (JStr s) = (case e_int_of_str E s of None \<Rightarrow> Inl (Value_Error s) | Some n \<Rightarrow> Inr n)"
| "py_int E (JFloat f) = (case e_int_of_float E f of
     None \<Rightarrow> Inl (if f = lit ''NaN'' then Value_Error f else Overflow_Error) | Some n \<Rightarrow> Inr n)"
| "py_int E _ = Inl Type_Error"

text \<open>
  The lines of a text file. Universal newlines end a line at LF, CR or CR LF; the blank
  pieces this splitting adds are dropped with the other blank lines by both readers.
\<close>

fun split_lines :: "pystr \<Rightarrow> pystr list" where
  "split_lines [] = [[]]"
| "split_lines (c # s) =
     (if c = 10 \<or> c = 13 then [] # split_lines s
      else (c # hd (split_lines s)) # tl (split_lines s))"

definition stripped_lines :: "pystr \<Rightarrow> pystr list" where
  "stripped_lines content = filter (\<lambda>l. l \<noteq> []) (map py_strip (split_lines content))"

definition recover_next_seq :: "'e env_scheme \<Rightarrow> pystr \<Rightarrow> exn + int" where
  "recover_next_seq E content =
     (let ls = stripped_lines content in
      if ls = [] then Inr 0
      else case e_loads E (last ls) of
        None \<Rightarrow> Inr 0
      | Some (JObj obj) \<Rightarrow>
          (case py_int E (dict_get obj ''seq'' (JInt (- 1))) of
             Inl e \<Rightarrow> if is_value_error e \<or> e = Type_Error then Inr 0 else Inl e
           | Inr n \<Rightarrow> Inr (n + 1))
      | Some _ \<Rightarrow> Inl Attribute_Error)"

definition set_wr :: "(writer \<Rightarrow> writer) \<Rightarrow> 'z tstate_scheme \<Rightarrow> 'z tstate_scheme" where
  "set_wr f s = s\<lparr>wr := f (wr s)\<rparr>"

text \<open>Opening for append creates a missing file.\<close>

definition create_text :: "path \<Rightarrow> 'z fsys_scheme \<Rightarrow> 'z fsys_scheme" where
  "create_text p s = (if texts s p = None then s\<lparr>texts := (texts s)(p \<mapsto> [])\<rparr> else s)"

definition append_text :: "path \<Rightarrow> pystr \<Rightarrow> 'z fsys_scheme \<Rightarrow> 'z fsys_scheme" where
  "append_text p x s =
     s\<lparr>texts := (texts s)(p \<mapsto> (case texts s p of None \<Rightarrow> x | Some c \<Rightarrow> c @ x))\<rparr>"

definition recover :: "'e env_scheme \<Rightarrow> ('z tstate_scheme, unit) py" where
  "recover E = (\<lambda>s. case texts s (w_path (wr s)) of
     None \<Rightarrow> (Inr (), s)
   | Some content \<Rightarrow>
       if content = [] then (Inr (), s)
       else (case recover_next_seq E content of
               Inl e \<Rightarrow> (Inl e, s)
             | Inr n \<Rightarrow> (Inr (), set_wr (\<lambda>w. w\<lparr>w_seq := n\<rparr>) s)))"

definition open_writer :: "'e env_scheme \<Rightarrow> ('z tstate_scheme, unit) py" where
  "open_writer E = bind (get (\<lambda>s. w_fh (wr s))) (\<lambda>opened.
     if opened then ret ()
     else seq (recover E) (modify (\<lambda>s.
       set_wr (\<lambda>w. w\<lparr>w_fh := True\<rparr>) (create_text (w_path (wr s)) s))))"

definition now_iso :: "'e env_scheme \<Rightarrow> ('z tstate_scheme, pystr) py" where
  "now_iso E = (\<lambda>s. (Inr (utcnow_iso (e_clock E (ticks s))), s\<lparr>ticks := Suc (ticks s)\<rparr>))"

definition cap_event_data ::
    "'e env_scheme \<Rightarrow> event_type \<Rightarrow> dict \<Rightarrow> ('z tstate_scheme, dict) py" where
  "cap_event_data E ty data = bind (get wr) (\<lambda>w.
     case w_overflow_dir w of
       Some odir \<Rightarrow>
         if ty \<in> CAPPED_EVENT_TYPES
         then cap_command_data (e_sha E) (w_max_stream_bytes w) odir data
         else ret data
     | None \<Rightarrow> ret data)"

definition make_event :: "int \<Rightarrow> pystr \<Rightarrow> event_type \<Rightarrow> dict \<Rightarrow> ('s, trajectory_event) py" where
  "make_event n ts ty data =
     (if 0 \<le> n then ret \<lparr>ev_seq = n, ev_ts = ts, ev_type = ty, ev_data = data\<rparr>
      else raise Validation_Error)"

definition emit_line ::
    "'e env_scheme \<Rightarrow> trajectory_event \<Rightarrow> ('z tstate_scheme, trajectory_event) py" where
  "emit_line E ev = (case e_dump E ev of
     Inl e \<Rightarrow> raise e
   | Inr line \<Rightarrow> (\<lambda>s. (Inr ev, set_wr (\<lambda>w. w\<lparr>w_seq := w_seq w + 1\<rparr>)
                            (append_text (w_path (wr s)) (line @ [10]) s))))"

definition write_event ::
    "'e env_scheme \<Rightarrow> event_type \<Rightarrow> dict \<Rightarrow> ('z tstate_scheme, trajectory_event) py" where
  "write_event E ty data = bind (get wr) (\<lambda>w.
     if w_closed w then raise (Runtime_Error (lit ''trajectory writer is closed''))
     else if \<not> w_fh w then raise (Runtime_Error (lit ''trajectory writer is not open''))
     else bind (cap_event_data E ty data) (\<lambda>capped.
       bind (now_iso E) (\<lambda>ts.
       bind (make_event (w_seq w) ts ty capped) (emit_line E))))"

definition close_writer :: "('z tstate_scheme, unit) py" where
  "close_writer = modify (set_wr (\<lambda>w. w\<lparr>w_fh := False, w_closed := True\<rparr>))"

fun parse_lines :: "'e env_scheme \<Rightarrow> pystr list \<Rightarrow> exn + trajectory_event list" where
  "parse_lines E [] = Inr []"
| "parse_lines E (l # ls) =
     (case e_loads E l of
        None \<Rightarrow> Inl Json_Decode_Error
      | Some v \<Rightarrow> (case validate_event (e_lax_int E) v of
          Inl e \<Rightarrow> Inl e
        | Inr ev \<Rightarrow> (case parse_lines E ls of Inl e \<Rightarrow> Inl e | Inr evs \<Rightarrow> Inr (ev # evs))))"

definition read_trajectory :: "'e env_scheme \<Rightarrow> pystr \<Rightarrow> exn + trajectory_event list" where
  "read_trajectory E content = parse_lines E (stripped_lines content)"

section \<open>Append-only\<close>

text \<open>Every text file that exists afterwards still begins with what it held, and none is gone.\<close>

definition appends :: "'z fsys_scheme \<Rightarrow> 'z fsys_scheme \<Rightarrow> bool" where
  "appends s t \<longleftrightarrow> (\<forall>p c. texts s p = Some c \<longrightarrow> (\<exists>d. texts t p = Some (c @ d)))"

lemma appends_refl [simp]: "reflp appends"
  by (auto simp: reflp_def appends_def)

lemma appends_trans [simp]: "transp appends"
  unfolding transp_def appends_def by (metis append.assoc)

lemma appends_same_texts: "texts t = texts s \<Longrightarrow> appends s t"
  by (auto simp: appends_def)

lemma appends_create: "appends s (create_text p s)"
  by (auto simp: appends_def create_text_def)

lemma appends_append: "appends s (append_text p x s)"
  by (auto simp: appends_def append_text_def)

lemma texts_set_wr [simp]: "texts (set_wr f s) = texts s"
  and wr_set_wr [simp]: "wr (set_wr f s) = f (wr s)"
  and ticks_set_wr [simp]: "ticks (set_wr f s) = ticks s"
  by (simp_all add: set_wr_def)

lemma wr_append_text [simp]: "wr (append_text p x s) = wr s"
  and wr_create_text [simp]: "wr (create_text p s) = wr s"
  by (simp_all add: append_text_def create_text_def)

lemma cap_event_data_only_blobs: "keeps only_blobs (cap_event_data E ty data)"
  by (auto simp: cap_event_data_def intro!: keeps_intros cap_command_data_only_blobs
      split: option.split)

lemma recover_appends: "keeps appends (recover E)"
  by (rule keepsI) (auto simp: recover_def intro!: appends_same_texts split: option.split sum.split)

lemma open_writer_appends: "keeps appends (open_writer E)"
  unfolding open_writer_def
  by (auto intro!: keeps_intros recover_appends simp: appends_create)
    (metis appends_create appends_def texts_set_wr)

lemma emit_line_appends: "keeps appends (emit_line E ev)"
  by (rule keepsI)
    (auto simp: emit_line_def appends_def append_text_def split: sum.split)

lemma write_event_appends: "keeps appends (write_event E ty data)"
proof -
  have cap: "keeps appends (cap_event_data E ty data)"
    by (rule keeps_mono [OF cap_event_data_only_blobs])
      (auto simp: only_blobs_def intro!: appends_same_texts)
  have now: "keeps appends (now_iso E)"
    by (rule keepsI) (simp add: now_iso_def appends_same_texts)
  show ?thesis
    unfolding write_event_def
    by (auto intro!: keeps_intros cap now emit_line_appends simp: make_event_def)
qed

lemma close_writer_appends: "keeps appends close_writer"
  by (auto simp: close_writer_def intro!: keeps_intros appends_same_texts)

section \<open>Lines\<close>

definition good_line :: "pystr \<Rightarrow> bool" where
  "good_line l \<longleftrightarrow> l \<noteq> [] \<and> 10 \<notin> set l \<and> 13 \<notin> set l \<and> \<not> py_space (hd l) \<and> \<not> py_space (last l)"

definition join_lines :: "pystr list \<Rightarrow> pystr" where
  "join_lines ls = concat (map (\<lambda>l. l @ [10]) ls)"

lemma join_lines_snoc: "join_lines (ls @ [l]) = join_lines ls @ l @ [10]"
  by (simp add: join_lines_def)

lemma split_lines_nonempty [simp]: "split_lines s \<noteq> []"
  by (cases s) auto

lemma split_lines_line: "10 \<notin> set l \<Longrightarrow> 13 \<notin> set l \<Longrightarrow> split_lines (l @ 10 # s) = l # split_lines s"
  by (induction l) auto

lemma split_join_lines:
  "list_all good_line ls \<Longrightarrow> split_lines (join_lines ls) = ls @ [[]]"
  by (induction ls) (auto simp: join_lines_def good_line_def split_lines_line)

lemma py_strip_good: "good_line l \<Longrightarrow> py_strip l = l"
  by (simp add: good_line_def py_strip_id)

lemma stripped_join_lines: "list_all good_line ls \<Longrightarrow> stripped_lines (join_lines ls) = ls"
proof -
  assume ls: "list_all good_line ls"
  then have "map py_strip ls = ls" "filter (\<lambda>l. l \<noteq> []) ls = ls"
    by (induction ls) (auto simp: py_strip_good good_line_def)
  with ls show ?thesis by (simp add: stripped_lines_def split_join_lines)
qed

section \<open>The serialiser's contract\<close>

text \<open>
  When the serialiser returns, it returns one line, with no white space at its ends, from
  which the JSON parser gets the event's object; and the validator takes an integer as
  itself. It may raise instead (on a lone surrogate, for example).
\<close>

definition codec_ok :: "'e env_scheme \<Rightarrow> bool" where
  "codec_ok E \<longleftrightarrow> (\<forall>n. e_lax_int E (JInt n) = Some n)
     \<and> (\<forall>ev l. 0 \<le> ev_seq ev \<longrightarrow> e_dump E ev = Inr l
          \<longrightarrow> good_line l \<and> e_loads E l = Some (dump_event ev))"

text \<open>
  The part of it that concerns the lines, as an interface: a value is emitted as one line, which
  parses to what the value is seen as. A file of such lines is then read line by line.
\<close>

locale line_codec =
  fixes emit :: "'a \<Rightarrow> exn + pystr"
    and parse :: "pystr \<Rightarrow> 'b option"
    and seen_as :: "'a \<Rightarrow> 'b"
    and ok :: "'a \<Rightarrow> bool"
  assumes emit_good: "ok v \<Longrightarrow> emit v = Inr l \<Longrightarrow> good_line l"
    and parse_emit: "ok v \<Longrightarrow> emit v = Inr l \<Longrightarrow> parse l = Some (seen_as v)"
begin

lemma emit_eq: "ok u \<Longrightarrow> ok v \<Longrightarrow> emit u = Inr l \<Longrightarrow> emit v = Inr l \<Longrightarrow> seen_as u = seen_as v"
  using parse_emit by (metis option.inject)

lemma emitted_good: "list_all2 (\<lambda>v l. emit v = Inr l) vs ls \<Longrightarrow> list_all ok vs \<Longrightarrow> list_all good_line ls"
  by (induction rule: list_all2_induct) (auto dest: emit_good)

lemma emitted_parsed: "list_all2 (\<lambda>v l. emit v = Inr l) vs ls \<Longrightarrow> list_all ok vs
    \<Longrightarrow> list_all2 (\<lambda>v l. parse l = Some (seen_as v)) vs ls"
  by (induction rule: list_all2_induct) (auto dest: parse_emit)

lemma file_parsed: "list_all2 (\<lambda>v l. emit v = Inr l) vs ls \<Longrightarrow> list_all ok vs
    \<Longrightarrow> list_all2 (\<lambda>v l. parse l = Some (seen_as v)) vs (stripped_lines (join_lines ls))"
  using emitted_good emitted_parsed by (simp add: stripped_join_lines)

end

lemma codec_ok_lines: "codec_ok E \<Longrightarrow> line_codec (e_dump E) (e_loads E) dump_event (\<lambda>ev. 0 \<le> ev_seq ev)"
  by unfold_locales (auto simp: codec_ok_def)

text \<open>The content of a file that holds exactly the lines of these events.\<close>

definition renders :: "'e env_scheme \<Rightarrow> trajectory_event list \<Rightarrow> pystr \<Rightarrow> bool" where
  "renders E evs c \<longleftrightarrow>
     (\<exists>ls. list_all2 (\<lambda>ev l. e_dump E ev = Inr l) evs ls \<and> c = join_lines ls)"

definition numbered :: "trajectory_event list \<Rightarrow> bool" where
  "numbered evs \<longleftrightarrow> map ev_seq evs = map int [0..<length evs]"

lemma renders_Nil [simp]: "renders E [] c \<longleftrightarrow> c = []"
  by (auto simp: renders_def join_lines_def)

lemma renders_snoc: "renders E evs c \<Longrightarrow> e_dump E ev = Inr l \<Longrightarrow> renders E (evs @ [ev]) (c @ l @ [10])"
proof -
  assume "renders E evs c" and l: "e_dump E ev = Inr l"
  then obtain ls where "list_all2 (\<lambda>ev l. e_dump E ev = Inr l) evs ls" "c = join_lines ls"
    by (auto simp: renders_def)
  with l have "list_all2 (\<lambda>ev l. e_dump E ev = Inr l) (evs @ [ev]) (ls @ [l])"
    and "c @ l @ [10] = join_lines (ls @ [l])"
    by (simp_all add: list_all2_appendI join_lines_snoc)
  then show ?thesis by (auto simp: renders_def)
qed

lemma renders_nonempty: "renders E evs c \<Longrightarrow> c = [] \<longleftrightarrow> evs = []"
  by (auto simp: renders_def join_lines_def list_all2_conv_all_nth)

lemma numbered_Nil [simp]: "numbered []"
  by (simp add: numbered_def)

lemma numbered_snoc:
  "numbered evs \<Longrightarrow> ev_seq ev = int (length evs) \<Longrightarrow> numbered (evs @ [ev])"
  by (simp add: numbered_def)

lemma numbered_nth: "numbered evs \<Longrightarrow> i < length evs \<Longrightarrow> ev_seq (evs ! i) = int i"
  unfolding numbered_def by (metis add.left_neutral length_map nth_map nth_upt)

lemma numbered_nonneg: "numbered evs \<Longrightarrow> ev \<in> set evs \<Longrightarrow> 0 \<le> ev_seq ev"
  by (metis in_set_conv_nth numbered_nth of_nat_0_le_iff)

lemma numbered_last: "numbered evs \<Longrightarrow> evs \<noteq> [] \<Longrightarrow> ev_seq (last evs) = int (length evs) - 1"
  by (simp add: last_conv_nth numbered_nth of_nat_diff Suc_leI)

lemma renders_lines:
  assumes "codec_ok E" "renders E evs c" "\<And>ev. ev \<in> set evs \<Longrightarrow> 0 \<le> ev_seq ev"
  shows "list_all2 (\<lambda>ev l. e_loads E l = Some (dump_event ev)) evs (stripped_lines c)"
  using assms(2,3) line_codec.file_parsed [OF codec_ok_lines [OF assms(1)]]
  by (auto simp: renders_def list_all_iff)

lemma parse_lines_dumped:
  assumes "codec_ok E" "list_all2 (\<lambda>ev l. e_loads E l = Some (dump_event ev)) evs ls"
    and "\<And>ev. ev \<in> set evs \<Longrightarrow> 0 \<le> ev_seq ev"
  shows "parse_lines E ls = Inr evs"
  using assms(2,3)
proof (induction rule: list_all2_induct)
  case Nil
  then show ?case by simp
next
  case (Cons ev evs l ls)
  moreover have "validate_event (e_lax_int E) (dump_event ev) = Inr ev"
    using assms(1) Cons.prems by (auto simp: codec_ok_def intro: validate_dump_event)
  ultimately show ?case by simp
qed

lemma read_rendered:
  assumes "codec_ok E" "renders E evs c" "numbered evs"
  shows "read_trajectory E c = Inr evs"
  unfolding read_trajectory_def
  using assms by (auto intro!: parse_lines_dumped renders_lines dest: numbered_nonneg)

lemma recover_rendered:
  assumes "codec_ok E" "renders E evs c" "numbered evs"
  shows "recover_next_seq E c = Inr (int (length evs))"
proof (cases "evs = []")
  case True
  with assms(2) show ?thesis by (simp add: recover_next_seq_def stripped_lines_def)
next
  case False
  have ls: "list_all2 (\<lambda>ev l. e_loads E l = Some (dump_event ev)) evs (stripped_lines c)"
    using assms by (auto intro!: renders_lines dest: numbered_nonneg)
  then have "length (stripped_lines c) = length evs" by (simp add: list_all2_lengthD)
  with False have ne: "stripped_lines c \<noteq> []" by auto
  have "e_loads E (last (stripped_lines c)) = Some (dump_event (last evs))"
    using list_all2_nthD [OF ls, of "length evs - 1"] False ne
      \<open>length (stripped_lines c) = length evs\<close> by (simp add: last_conv_nth)
  with ne numbered_last [OF assms(3) False] show ?thesis
    by (simp add: recover_next_seq_def Let_def dump_event_def dict_get_def)
qed

section \<open>One write\<close>

lemma cap_event_data_frame:
  "cap_event_data E ty data s = (r, t) \<Longrightarrow> texts t = texts s \<and> wr t = wr s \<and> ticks t = ticks s"
  using keepsD [OF cap_event_data_only_blobs, of E ty data s r t] by (auto simp: only_blobs_def)

lemma write_event_Inr:
  assumes "write_event E ty data s = (Inr ev, t)"
  obtains l capped s1 where "\<not> w_closed (wr s)" "w_fh (wr s)" "0 \<le> w_seq (wr s)"
    "cap_event_data E ty data s = (Inr capped, s1)"
    "ev = \<lparr>ev_seq = w_seq (wr s), ev_ts = utcnow_iso (e_clock E (ticks s)), ev_type = ty,
            ev_data = capped\<rparr>"
    "e_dump E ev = Inr l"
    "texts t = texts (append_text (w_path (wr s)) (l @ [10]) s)"
    "wr t = (wr s)\<lparr>w_seq := w_seq (wr s) + 1\<rparr>"
proof -
  obtain capped s1 where "cap_event_data E ty data s = (Inr capped, s1)"
    using assms by (auto simp: write_event_def bind_def split: if_splits prod.splits sum.splits)
  moreover obtain l where "e_dump E ev = Inr l"
    using assms by (auto simp: write_event_def bind_def now_iso_def make_event_def emit_line_def
        split: if_splits prod.splits sum.splits)
  ultimately show thesis
    using assms cap_event_data_frame [of E ty data s "Inr capped" s1]
    by (intro that [of capped s1 l])
      (auto simp: write_event_def bind_def now_iso_def make_event_def emit_line_def append_text_def
        split: if_splits sum.splits)
qed

lemma write_event_Inl:
  assumes "write_event E ty data s = (Inl e, t)"
  shows "texts t = texts s \<and> wr t = wr s"
proof -
  obtain c s1 where cap: "cap_event_data E ty data s = (c, s1)"
    by (cases "cap_event_data E ty data s")
  show ?thesis using assms cap_event_data_frame [OF cap]
    by (auto simp: write_event_def bind_def cap now_iso_def make_event_def emit_line_def
        split: if_splits sum.splits)
qed

lemma write_event_wr:
  "write_event E ty data s = (r, t) \<Longrightarrow>
     wr t = (if isl r then wr s else (wr s)\<lparr>w_seq := w_seq (wr s) + 1\<rparr>)"
  by (cases r) (auto dest: write_event_Inl elim: write_event_Inr)

section \<open>The writer's invariant\<close>

text \<open>
  The file holds exactly the lines of events numbered 0, 1, 2, ..., and while the writer is
  open (or the file still empty) its counter is their number, so the next event continues
  the numbering.
\<close>

definition writer_inv :: "'e env_scheme \<Rightarrow> 'z tstate_scheme \<Rightarrow> bool" where
  "writer_inv E s \<longleftrightarrow> (case texts s (w_path (wr s)) of
     None \<Rightarrow> \<not> w_fh (wr s) \<and> w_seq (wr s) = 0
   | Some c \<Rightarrow> \<exists>evs. renders E evs c \<and> numbered evs
       \<and> (w_fh (wr s) \<or> evs = [] \<longrightarrow> w_seq (wr s) = int (length evs)))"

lemma writer_invE:
  assumes "writer_inv E s" "w_fh (wr s)"
  obtains c evs where "texts s (w_path (wr s)) = Some c" "renders E evs c" "numbered evs"
    "w_seq (wr s) = int (length evs)"
  using assms by (auto simp: writer_inv_def split: option.splits)

lemma writer_invI:
  "texts s (w_path (wr s)) = Some c \<Longrightarrow> renders E evs c \<Longrightarrow> numbered evs
     \<Longrightarrow> w_seq (wr s) = int (length evs) \<Longrightarrow> writer_inv E s"
  by (auto simp: writer_inv_def)

lemma write_event_extends:
  assumes "write_event E ty data s = (Inr ev, t)"
    and "texts s (w_path (wr s)) = Some c" "renders E evs c" "numbered evs"
    and "w_seq (wr s) = int (length evs)"
  shows "\<exists>c'. texts t (w_path (wr t)) = Some c' \<and> renders E (evs @ [ev]) c'
     \<and> numbered (evs @ [ev]) \<and> w_seq (wr t) = int (length (evs @ [ev]))"
  using assms(1)
proof (cases rule: write_event_Inr)
  case (1 l capped s1)
  have "renders E (evs @ [ev]) (c @ l @ [10])" using assms(3) 1(6) by (rule renders_snoc)
  moreover have "numbered (evs @ [ev])"
    using assms(4,5) by (intro numbered_snoc) (simp_all add: 1(5))
  ultimately show ?thesis
    using assms(2,5) by (simp add: 1(7,8) append_text_def)
qed

lemma write_event_writer_inv:
  assumes "writer_inv E s"
  shows "writer_inv E (snd (write_event E ty data s))"
proof (cases "write_event E ty data s")
  case (Pair r t)
  show ?thesis
  proof (cases r)
    case (Inl e)
    with Pair have "write_event E ty data s = (Inl e, t)" by simp
    from write_event_Inl [OF this] assms Pair show ?thesis
      by (simp add: writer_inv_def cong: option.case_cong)
  next
    case (Inr ev)
    with Pair have w: "write_event E ty data s = (Inr ev, t)" by simp
    then have "w_fh (wr s)" by (auto elim: write_event_Inr)
    with assms obtain c evs where "texts s (w_path (wr s)) = Some c" "renders E evs c"
      "numbered evs" "w_seq (wr s) = int (length evs)" by (rule writer_invE)
    from write_event_extends [OF w this] Pair show ?thesis by (auto intro: writer_invI)
  qed
qed

lemma open_writer_apply:
  "open_writer E s = (if w_fh (wr s) then (Inr (), s)
     else case recover E s of
       (Inl e, t) \<Rightarrow> (Inl e, t)
     | (Inr _, t) \<Rightarrow> (Inr (), set_wr (\<lambda>w. w\<lparr>w_fh := True\<rparr>) (create_text (w_path (wr t)) t)))"
  by (simp add: open_writer_def seq_def bind_def split: prod.split sum.split)

lemma recover_rendered_state:
  assumes "codec_ok E" "texts s (w_path (wr s)) = Some c" "renders E evs c" "numbered evs"
    and "evs = [] \<Longrightarrow> w_seq (wr s) = 0"
  shows "\<exists>t. recover E s = (Inr (), t) \<and> texts t = texts s
     \<and> wr t = (wr s)\<lparr>w_seq := int (length evs)\<rparr>"
proof (cases "evs = []")
  case True
  then have "wr s = (wr s)\<lparr>w_seq := int (length evs)\<rparr>" using assms(5) by simp
  with True assms(2,3) show ?thesis by (simp add: recover_def)
next
  case False
  with assms(2) renders_nonempty [OF assms(3)] recover_rendered [OF assms(1,3,4)]
  show ?thesis by (simp add: recover_def)
qed

lemma open_writer_rendered:
  assumes "codec_ok E" "texts s (w_path (wr s)) = Some c" "renders E evs c" "numbered evs"
    and "evs = [] \<Longrightarrow> w_seq (wr s) = 0" "\<not> w_fh (wr s)"
  shows "\<exists>t. open_writer E s = (Inr (), t) \<and> texts t = texts s
     \<and> wr t = (wr s)\<lparr>w_seq := int (length evs), w_fh := True\<rparr>"
proof -
  obtain t where "recover E s = (Inr (), t)" "texts t = texts s"
    "wr t = (wr s)\<lparr>w_seq := int (length evs)\<rparr>"
    using recover_rendered_state [OF assms(1-5)] by blast
  with assms(2,6) show ?thesis by (simp add: open_writer_apply create_text_def)
qed

lemma open_writer_new_file:
  assumes "texts s (w_path (wr s)) = None" "\<not> w_fh (wr s)"
  shows "open_writer E s = (Inr (), set_wr (\<lambda>w. w\<lparr>w_fh := True\<rparr>) (create_text (w_path (wr s)) s))"
  using assms by (simp add: open_writer_apply recover_def)

lemma open_writer_writer_inv:
  assumes "codec_ok E" "writer_inv E s"
  shows "writer_inv E (snd (open_writer E s))"
proof (cases "w_fh (wr s)")
  case True
  with assms(2) show ?thesis by (simp add: open_writer_apply)
next
  case fh: False
  show ?thesis
  proof (cases "texts s (w_path (wr s))")
    case None
    with fh assms(2) show ?thesis
      by (auto simp: open_writer_new_file create_text_def writer_inv_def)
  next
    case (Some c)
    with assms(2) obtain evs where c: "renders E evs c" "numbered evs"
      "evs = [] \<Longrightarrow> w_seq (wr s) = 0"
      by (auto simp: writer_inv_def)
    from open_writer_rendered [OF assms(1) Some this fh] c Some show ?thesis
      by (auto intro: writer_invI)
  qed
qed

lemma close_writer_writer_inv: "writer_inv E s \<Longrightarrow> writer_inv E (snd (close_writer s))"
  by (auto simp: close_writer_def writer_inv_def split: option.splits)

section \<open>Runs of a writer\<close>

datatype writer_op = Op_open | Op_write event_type dict | Op_close

fun writer_step :: "'e env_scheme \<Rightarrow> writer_op \<Rightarrow> 'z tstate_scheme \<Rightarrow> 'z tstate_scheme" where
  "writer_step E Op_open s = snd (open_writer E s)"
| "writer_step E (Op_write ty data) s = snd (write_event E ty data s)"
| "writer_step E Op_close s = snd (close_writer s)"

definition fresh :: "'z tstate_scheme \<Rightarrow> bool" where
  "fresh s \<longleftrightarrow> texts s (w_path (wr s)) = None \<and> \<not> w_fh (wr s) \<and> w_seq (wr s) = 0"

lemma writer_step_inv:
  "codec_ok E \<Longrightarrow> writer_inv E s \<Longrightarrow> writer_inv E (writer_step E op s)"
  by (cases op) (simp_all add: open_writer_writer_inv write_event_writer_inv close_writer_writer_inv)

interpretation writer: machine fresh "\<lambda>s t. codec_ok E \<and> (\<exists>op. t = writer_step E op s)" "writer_inv E" for E
proof unfold_locales
  fix s t :: "'a tstate_scheme"
  show "fresh s \<Longrightarrow> writer_inv E s" by (simp add: fresh_def writer_inv_def)
  show "writer_inv E s \<Longrightarrow> codec_ok E \<and> (\<exists>op. t = writer_step E op s) \<Longrightarrow> writer_inv E t"
    by (auto intro: writer_step_inv)
qed

lemma writer_step_appends: "appends s (writer_step E op s)"
  by (cases op)
    (simp_all add: keeps_apply [OF open_writer_appends] keeps_apply [OF write_event_appends]
      keeps_apply [OF close_writer_appends])

interpretation append_only: machine "\<lambda>s. s = s0" "\<lambda>s t. \<exists>op. t = writer_step E op s" "appends s0" for s0 E
proof unfold_locales
  fix s t :: "'a tstate_scheme"
  show "s = s0 \<Longrightarrow> appends s0 s" by (simp add: appends_same_texts)
  show "appends s0 s \<Longrightarrow> \<exists>op. t = writer_step E op s \<Longrightarrow> appends s0 t"
    by (auto intro: transpD [OF appends_trans] writer_step_appends)
qed

section \<open>A small instance\<close>

text \<open>
  An instance of the parameters and a short run, at which the hypotheses of the properties
  below hold: its serialiser returns for one event only.
\<close>

definition demo_event :: trajectory_event where
  "demo_event = \<lparr>ev_seq = 0,
     ev_ts = utcnow_iso \<lparr>u_year = 2026, u_month = 5, u_day = 16, u_hour = 1, u_minute = 2, u_second = 3\<rparr>,
     ev_type = Agent_command, ev_data = [(lit ''stdout'', JStr [97])]\<rparr>"

definition demo_env :: env where
  "demo_env = \<lparr>e_sha = (\<lambda>_. lit ''h''),
     e_clock = (\<lambda>_. \<lparr>u_year = 2026, u_month = 5, u_day = 16, u_hour = 1, u_minute = 2, u_second = 3\<rparr>),
     e_dump = (\<lambda>ev. if ev = demo_event then Inr (lit ''{}'') else Inl Unicode_Error),
     e_loads = (\<lambda>l. if l = lit ''{}'' then Some (dump_event demo_event) else None),
     e_lax_int = (\<lambda>v. case v of JInt n \<Rightarrow> Some n | _ \<Rightarrow> None),
     e_int_of_str = (\<lambda>_. None), e_int_of_float = (\<lambda>_. None)\<rparr>"

definition demo_path :: path where
  "demo_path = [lit ''t.jsonl'']"

definition demo_start :: tstate where
  "demo_start = \<lparr>texts = Map.empty, blobs = Map.empty, ticks = 0,
     wr = new_writer demo_path (Some [lit ''overflow'']) 1\<rparr>"

definition demo_open :: tstate where
  "demo_open = writer_step demo_env Op_open demo_start"

definition demo_written :: tstate where
  "demo_written = writer_step demo_env (Op_write Agent_command [(lit ''stdout'', JStr [97])]) demo_open"

lemma demo_codec: "codec_ok demo_env"
  by (auto simp: codec_ok_def demo_env_def good_line_def lit_def py_space_def)

lemma demo_fresh: "fresh demo_start"
  by (simp add: fresh_def demo_start_def new_writer_def)

lemma demo_open_eq: "demo_open = \<lparr>texts = [demo_path \<mapsto> []], blobs = Map.empty, ticks = 0,
     wr = (new_writer demo_path (Some [lit ''overflow'']) 1)\<lparr>w_fh := True\<rparr>\<rparr>"
  by (simp add: demo_open_def open_writer_apply recover_def demo_start_def new_writer_def
      create_text_def set_wr_def)

lemma demo_write: "write_event demo_env Agent_command [(lit ''stdout'', JStr [97])] demo_open =
    (Inr demo_event, \<lparr>texts = [demo_path \<mapsto> lit ''{}'' @ [10]], blobs = Map.empty, ticks = 1,
       wr = (new_writer demo_path (Some [lit ''overflow'']) 1)\<lparr>w_fh := True, w_seq := 1\<rparr>\<rparr>)"
proof -
  have "cap_event_data demo_env Agent_command [(lit ''stdout'', JStr [97])] demo_open
      = (Inr [(lit ''stdout'', JStr [97])], demo_open)"
    by (simp add: cap_event_data_def demo_open_eq new_writer_def CAPPED_EVENT_TYPES_def
        cap_command_data_def CAPPED_FIELDS_def cap_field_def bind_def cap_stream_eq enc1_def
        is_scalar_def py_defs)
  then show ?thesis
    by (simp add: write_event_def bind_def py_defs now_iso_def make_event_def emit_line_def)
      (simp add: demo_open_eq new_writer_def demo_env_def demo_event_def set_wr_def append_text_def)
qed

lemma demo_written_eq: "demo_written = \<lparr>texts = [demo_path \<mapsto> lit ''{}'' @ [10]], blobs = Map.empty,
     ticks = 1, wr = (new_writer demo_path (Some [lit ''overflow'']) 1)\<lparr>w_fh := True, w_seq := 1\<rparr>\<rparr>"
  by (simp add: demo_written_def demo_write)

lemma demo_steps:
  "(\<lambda>s t. codec_ok demo_env \<and> (\<exists>op. t = writer_step demo_env op s))\<^sup>*\<^sup>* demo_start demo_open"
  "(\<lambda>s t. codec_ok demo_env \<and> (\<exists>op. t = writer_step demo_env op s))\<^sup>*\<^sup>* demo_start demo_written"
proof -
  let ?R = "\<lambda>s t. codec_ok demo_env \<and> (\<exists>op. t = writer_step demo_env op s)"
  have "?R demo_start demo_open" "?R demo_open demo_written"
    using demo_codec unfolding demo_open_def demo_written_def by blast+
  then show "?R\<^sup>*\<^sup>* demo_start demo_open" "?R\<^sup>*\<^sup>* demo_start demo_written"
    by (auto intro: rtranclp.rtrancl_into_rtrancl)
qed

lemma demo_invs: "writer_inv demo_env demo_open" "writer_inv demo_env demo_written"
  using writer.reachable_inv [OF demo_fresh demo_steps(1)]
    writer.reachable_inv [OF demo_fresh demo_steps(2)] by auto

section \<open>Properties\<close>

text \<open>C2. The trajectory is append-only: whatever sequence of opens, writes (successful or not) and
  closes a writer goes through, every text file that existed still begins with the content it
  had, and no file disappears.\<close>

theorem trajectory_append_only:
  assumes "(\<lambda>s t. \<exists>op. t = writer_step E op s)\<^sup>*\<^sup>* s0 s" and "texts s0 p = Some c"
  shows "\<exists>d. texts s p = Some (c @ d)"
  using append_only.reachable_inv [OF refl assms(1)] assms(2) by (simp add: appends_def)

theorem trajectory_append_only_witness:
  "\<exists>d. texts demo_written demo_path = Some ([] @ d)"
proof (rule trajectory_append_only)
  show "(\<lambda>s t. \<exists>op. t = writer_step demo_env op s)\<^sup>*\<^sup>* demo_open demo_written"
    unfolding demo_written_def by (rule r_into_rtranclp) blast
  show "texts demo_open demo_path = Some []" by (simp add: demo_open_eq)
qed

text \<open>C1. Between any two operations of a writer, even if the process is killed there, the file it
  writes parses back, and its events carry the sequence numbers 0, 1, 2, ... without a gap.\<close>

theorem trajectory_always_readable:
  assumes "fresh s0" and "(\<lambda>s t. codec_ok E \<and> (\<exists>op. t = writer_step E op s))\<^sup>*\<^sup>* s0 s"
    and "texts s (w_path (wr s)) = Some c" and "codec_ok E"
  shows "\<exists>evs. read_trajectory E c = Inr evs \<and> map ev_seq evs = map int [0..<length evs]"
proof -
  have "writer_inv E s" using assms(1,2) by (rule writer.reachable_inv)
  with assms(3) obtain evs where "renders E evs c" "numbered evs" by (auto simp: writer_inv_def)
  with assms(4) show ?thesis using read_rendered by (auto simp: numbered_def)
qed

theorem trajectory_always_readable_witness:
  "\<exists>evs. read_trajectory demo_env (lit ''{}'' @ [10]) = Inr evs
     \<and> map ev_seq evs = map int [0..<length evs]"
  by (rule trajectory_always_readable [OF demo_fresh demo_steps(2) _ demo_codec])
    (simp add: demo_written_eq new_writer_def)

text \<open>C12. A successful write adds exactly the event it returns: the file then reads back as the
  earlier events followed by it, and its number is the count of the earlier ones.\<close>

theorem write_event_reads_back:
  assumes "codec_ok E" "writer_inv E s" "write_event E ty data s = (Inr ev, t)"
    and "texts s (w_path (wr s)) = Some c" "read_trajectory E c = Inr evs"
  shows "\<exists>c'. texts t (w_path (wr t)) = Some c' \<and> read_trajectory E c' = Inr (evs @ [ev])
     \<and> ev_seq ev = int (length evs) \<and> ev_type ev = ty"
proof -
  have w: "w_fh (wr s)" "ev_seq ev = w_seq (wr s)" "ev_type ev = ty"
    using assms(3) by (auto elim: write_event_Inr)
  obtain c0 es where c0: "texts s (w_path (wr s)) = Some c0" "renders E es c0" "numbered es"
    "w_seq (wr s) = int (length es)" using assms(2) w(1) by (rule writer_invE)
  then have "es = evs" using read_rendered [OF assms(1) c0(2,3)] assms(4,5) by simp
  with write_event_extends [OF assms(3) c0] w c0(4) show ?thesis
    using read_rendered [OF assms(1)] by fastforce
qed

theorem write_event_reads_back_witness:
  "\<exists>c'. texts demo_written (w_path (wr demo_written)) = Some c'
     \<and> read_trajectory demo_env c' = Inr ([] @ [demo_event])
     \<and> ev_seq demo_event = int (length ([] :: trajectory_event list))
     \<and> ev_type demo_event = Agent_command"
proof (rule write_event_reads_back [OF demo_codec demo_invs(1)])
  show "write_event demo_env Agent_command [(lit ''stdout'', JStr [97])] demo_open
      = (Inr demo_event, demo_written)"
    by (simp add: demo_write demo_written_eq)
  show "texts demo_open (w_path (wr demo_open)) = Some []"
    by (simp add: demo_open_eq new_writer_def)
  show "read_trajectory demo_env [] = Inr []"
    by (simp add: read_trajectory_def stripped_lines_def)
qed

text \<open>Resumption continues the numbering: a new writer that opens the file a former writer
  left behind recovers the counter as the number of events in the file.\<close>

lemma reopen_continues_numbering:
  assumes "codec_ok E" "writer_inv E s" "texts s (w_path (wr s)) = Some c"
    and "read_trajectory E c = Inr evs"
    and "open_writer E (s\<lparr>wr := new_writer (w_path (wr s)) odir m\<rparr>) = (r, t)"
  shows "r = Inr () \<and> w_fh (wr t) \<and> w_seq (wr t) = int (length evs) \<and> texts t = texts s
     \<and> writer_inv E t"
proof -
  let ?s = "s\<lparr>wr := new_writer (w_path (wr s)) odir m\<rparr>"
  obtain es where es: "renders E es c" "numbered es"
    using assms(2,3) by (auto simp: writer_inv_def)
  then have "es = evs" using read_rendered [OF assms(1)] assms(4) by simp
  moreover have "texts ?s (w_path (wr ?s)) = Some c" "\<not> w_fh (wr ?s)" "w_seq (wr ?s) = 0"
    using assms(3) by (simp_all add: new_writer_def)
  moreover from this obtain u where u: "open_writer E ?s = (Inr (), u)" "texts u = texts ?s"
    "wr u = (wr ?s)\<lparr>w_seq := int (length es), w_fh := True\<rparr>"
    using open_writer_rendered [OF assms(1) _ es, of ?s] by blast
  ultimately show ?thesis
    using assms(5) es by (auto intro: writer_invI)
qed

lemma demo_renders: "renders demo_env [demo_event] (lit ''{}'' @ [10])" "numbered [demo_event]"
  using renders_snoc [of demo_env "[]" "[]" demo_event "lit ''{}''"]
  by (simp_all add: demo_env_def numbered_def demo_event_def)

lemma demo_reopen: "open_writer demo_env (demo_written\<lparr>wr := new_writer (w_path (wr demo_written))
    (Some [lit ''overflow'']) 1\<rparr>) = (Inr (), demo_written)"
  using recover_rendered [OF demo_codec demo_renders]
  by (simp add: open_writer_apply recover_def demo_written_eq new_writer_def set_wr_def create_text_def)

lemma reopen_continues_numbering_example:
  "(Inr () :: exn + unit) = Inr () \<and> w_fh (wr demo_written)
    \<and> w_seq (wr demo_written) = int (length [demo_event])
    \<and> texts demo_written = texts demo_written \<and> writer_inv demo_env demo_written"
proof (rule reopen_continues_numbering [OF demo_codec demo_invs(2)])
  show "texts demo_written (w_path (wr demo_written)) = Some (lit ''{}'' @ [10])"
    by (simp add: demo_written_eq new_writer_def)
  show "read_trajectory demo_env (lit ''{}'' @ [10]) = Inr [demo_event]"
    using demo_codec demo_renders by (rule read_rendered)
  show "open_writer demo_env (demo_written\<lparr>wr := new_writer (w_path (wr demo_written))
      (Some [lit ''overflow'']) 1\<rparr>) = (Inr (), demo_written)"
    by (rule demo_reopen)
qed

end
