(* ===== verification/Egress.thy ===== *)
theory Egress
  imports Utf8 "HOL-Library.Sublist"
begin

text \<open>
  \<^verbatim>\<open>egress_proxy.py\<close>: the allowlist match, the handler of one proxied connection and the
  two-way forwarding after it is granted. The network is scripted: the results of the
  \<^verbatim>\<open>recv\<close> calls on either socket, in order (after the last one the peer has closed), the
  outcome of a dial and of a send. The handler's own effects are recorded: what it sends
  to either side, which upstream it dials and which attempts it reports.
\<close>

section \<open>The allowlist\<close>

definition DEFAULT_ALLOWLIST :: "pystr list" where
  "DEFAULT_ALLOWLIST = map lit [''pypi.org'', ''pythonhosted.org'', ''github.com'',
     ''githubusercontent.com'', ''registry.npmjs.org'', ''crates.io'', ''static.crates.io'',
     ''httpbin.org'', ''example.com'']"

definition matches_allowlist :: "pystr \<Rightarrow> pystr list \<Rightarrow> bool" where
  "matches_allowlist host allow \<longleftrightarrow>
     host \<in> set allow \<or> list_ex (\<lambda>a. ends_with host (lit ''.'' @ a)) allow"

section \<open>One connection\<close>

datatype recv_result = Recv_error | Received "byte list"

record conn =
  c_in :: "recv_result list"
  c_out :: "byte list list"
  c_shut :: bool
  c_closed :: bool
  u_in :: "recv_result list"
  u_out :: "byte list list"
  u_shut :: bool
  u_closed :: bool
  c_attempts :: "dict list"
  c_dials :: "(pystr \<times> int) list"

text \<open>
  The outcomes that are not the handler's: of a dial (with the milliseconds it took), of
  the one send to the client, of reporting an attempt, and of sends while forwarding.
\<close>

record net =
  n_dial :: "pystr \<Rightarrow> int \<Rightarrow> (exn + unit) \<times> int"
  n_reply :: "byte list \<Rightarrow> exn option"
  n_report :: "dict \<Rightarrow> exn option"
  n_to_upstream :: "byte list \<Rightarrow> bool"
  n_to_client :: "byte list \<Rightarrow> bool"

text \<open>\<^verbatim>\<open>buf.split(sep, 1)[0]\<close>, when \<^verbatim>\<open>sep in buf\<close>.\<close>

fun before :: "'a list \<Rightarrow> 'a list \<Rightarrow> 'a list option" where
  "before sep [] = (if sep = [] then Some [] else None)"
| "before sep (b # bs) =
     (if take (length sep) (b # bs) = sep then Some []
      else map_option (\<lambda>xs. b # xs) (before sep bs))"

definition CRLF :: "byte list" where
  "CRLF = [13, 10]"

definition MAX_HEAD :: nat where
  "MAX_HEAD = 16384"

text \<open>The two reading loops: the request line, then the rest of the head.\<close>

fun read_head :: "recv_result list \<Rightarrow> byte list \<Rightarrow> byte list option \<times> recv_result list" where
  "read_head [] buf = (if before CRLF buf \<noteq> None then (Some buf, []) else (None, []))"
| "read_head (x # ins) buf =
     (if before CRLF buf \<noteq> None then (Some buf, x # ins)
      else case x of
        Recv_error \<Rightarrow> (None, ins)
      | Received chunk \<Rightarrow>
          if chunk = [] then (None, ins)
          else if length (buf @ chunk) > MAX_HEAD then (None, ins)
          else read_head ins (buf @ chunk))"

fun drain_head :: "recv_result list \<Rightarrow> byte list \<Rightarrow> byte list \<times> recv_result list" where
  "drain_head [] buf = (buf, [])"
| "drain_head (x # ins) buf =
     (if before (CRLF @ CRLF) buf \<noteq> None then (buf, x # ins)
      else case x of
        Recv_error \<Rightarrow> (buf, ins)
      | Received chunk \<Rightarrow> if chunk = [] then (buf, ins) else drain_head ins (buf @ chunk))"

text \<open>Decoding as ASCII with replacement, splitting at white space, upper case of ASCII.\<close>

definition ascii_decode :: "byte list \<Rightarrow> pystr" where
  "ascii_decode bs = map (\<lambda>b. if b < 128 then unat b else 65533) bs"

fun py_words :: "pystr \<Rightarrow> pystr \<Rightarrow> pystr list" where
  "py_words acc [] = (if acc = [] then [] else [acc])"
| "py_words acc (c # s) =
     (if py_space c then (if acc = [] then py_words [] s else acc # py_words [] s)
      else py_words (acc @ [c]) s)"

definition py_split :: "pystr \<Rightarrow> pystr list" where
  "py_split s = py_words [] s"

definition ascii_upper :: "pystr \<Rightarrow> pystr" where
  "ascii_upper s = map (\<lambda>c. if 97 \<le> c \<and> c \<le> 122 then c - 32 else c) s"

text \<open>\<^verbatim>\<open>target.rsplit(":", 1)\<close>, unpacked into two; \<open>None\<close> when there is no colon.\<close>

definition rsplit_colon :: "pystr \<Rightarrow> (pystr \<times> pystr) option" where
  "rsplit_colon s =
     (if 58 \<in> set s
      then Some (rev (tl (dropWhile (\<lambda>c. c \<noteq> 58) (rev s))), rev (takeWhile (\<lambda>c. c \<noteq> 58) (rev s)))
      else None)"

text \<open>
  \<^verbatim>\<open>int(s)\<close> of an ASCII text: optional white space and sign, then decimal digits with
  single underscores between digits, at most 4300 of them.
\<close>

fun int_digits :: "bool \<Rightarrow> nat \<Rightarrow> nat \<Rightarrow> pystr \<Rightarrow> (nat \<times> nat) option" where
  "int_digits after_digit n k [] = (if after_digit then Some (n, k) else None)"
| "int_digits after_digit n k (c # s) =
     (if 48 \<le> c \<and> c \<le> 57 then int_digits True (10 * n + (c - 48)) (Suc k) s
      else if c = 95 \<and> after_digit then int_digits False n k s
      else None)"

definition int_unsigned :: "pystr \<Rightarrow> nat option" where
  "int_unsigned s = (case int_digits False 0 0 s of
     Some (n, k) \<Rightarrow> if k \<le> 4300 then Some n else None | None \<Rightarrow> None)"

definition int_of_ascii :: "pystr \<Rightarrow> int option" where
  "int_of_ascii s = (case py_strip s of
     [] \<Rightarrow> None
   | c # t \<Rightarrow>
       if c = 43 then map_option int (int_unsigned t)
       else if c = 45 then map_option (\<lambda>n. - int n) (int_unsigned t)
       else map_option int (int_unsigned (c # t)))"

text \<open>What the request line asks for.\<close>

datatype request = Other_method | Bad_target | Connect pystr int

definition parse_request :: "byte list \<Rightarrow> request" where
  "parse_request line =
     (let parts = py_split (ascii_decode line) in
      if length parts < 2 \<or> ascii_upper (parts ! 0) \<noteq> lit ''CONNECT'' then Other_method
      else case rsplit_colon (parts ! 1) of
        None \<Rightarrow> Bad_target
      | Some (host, port_s) \<Rightarrow>
          (case int_of_ascii port_s of None \<Rightarrow> Bad_target | Some port \<Rightarrow> Connect host port))"

definition attempt :: "pystr \<Rightarrow> int \<Rightarrow> bool \<Rightarrow> pystr \<Rightarrow> int \<Rightarrow> dict" where
  "attempt host port allowed reason duration_ms =
     [(lit ''host'', JStr host), (lit ''port'', JInt port), (lit ''allowed'', JBool allowed),
      (lit ''reason'', JStr reason), (lit ''duration_ms'', JInt duration_ms)]"

definition ascii_bytes :: "string \<Rightarrow> byte list" where
  "ascii_bytes s = map (\<lambda>c. of_nat (of_char c)) s"

definition http_line :: "string \<Rightarrow> byte list" where
  "http_line s = ascii_bytes s @ CRLF @ CRLF"

definition send_client :: "'e net_scheme \<Rightarrow> byte list \<Rightarrow> (conn, unit) py" where
  "send_client N bs = (\<lambda>s. case n_reply N bs of
     Some e \<Rightarrow> (Inl e, s) | None \<Rightarrow> (Inr (), s\<lparr>c_out := c_out s @ [bs]\<rparr>))"

definition on_attempt :: "'e net_scheme \<Rightarrow> dict \<Rightarrow> (conn, unit) py" where
  "on_attempt N d = (\<lambda>s.
     let t = s\<lparr>c_attempts := c_attempts s @ [d]\<rparr>
     in case n_report N d of Some e \<Rightarrow> (Inl e, t) | None \<Rightarrow> (Inr (), t))"

definition dial :: "'e net_scheme \<Rightarrow> pystr \<Rightarrow> int \<Rightarrow> (conn, unit) py" where
  "dial N host port = (\<lambda>s. (fst (n_dial N host port), s\<lparr>c_dials := c_dials s @ [(host, port)]\<rparr>))"

text \<open>Forwarding one direction: the bytes delivered to the destination, in the order of the sends.\<close>

fun forward :: "(byte list \<Rightarrow> bool) \<Rightarrow> recv_result list \<Rightarrow> byte list list" where
  "forward send_ok [] = []"
| "forward send_ok (Recv_error # ins) = []"
| "forward send_ok (Received data # ins) =
     (if data = [] then []
      else if send_ok data then data # forward send_ok ins
      else [])"

definition pump :: "'e net_scheme \<Rightarrow> (conn, unit) py" where
  "pump N = modify (\<lambda>s. s\<lparr>
     u_out := u_out s @ forward (n_to_upstream N) (c_in s), u_shut := True,
     c_out := c_out s @ forward (n_to_client N) (u_in s), c_shut := True,
     c_closed := True, u_closed := True\<rparr>)"

definition connect_to :: "'e net_scheme \<Rightarrow> pystr list \<Rightarrow> pystr \<Rightarrow> int \<Rightarrow> (conn, unit) py" where
  "connect_to N allowlist host port =
     (if \<not> matches_allowlist host allowlist
      then seq (on_attempt N (attempt host port False (lit ''not in allowlist'') 0))
             (send_client N (http_line ''HTTP/1.1 403 Forbidden''))
      else (\<lambda>s. case dial N host port s of
          (Inl (OS_Error e), t) \<Rightarrow>
            seq (on_attempt N (attempt host port True (lit ''upstream connect failed: '' @ e)
                   (snd (n_dial N host port))))
                (send_client N (http_line ''HTTP/1.1 502 Bad Gateway'')) t
        | (Inl e, t) \<Rightarrow> (Inl e, t)
        | (Inr _, t) \<Rightarrow>
            seq (on_attempt N (attempt host port True (lit ''matched allowlist'')
                   (snd (n_dial N host port))))
              (seq (send_client N (http_line ''HTTP/1.1 200 Connection Established''))
                (pump N)) t))"

definition handle :: "'e net_scheme \<Rightarrow> pystr list \<Rightarrow> (conn, unit) py" where
  "handle N allowlist = (\<lambda>s. case read_head (c_in s) [] of
     (None, ins) \<Rightarrow> (Inr (), s\<lparr>c_in := ins\<rparr>)
   | (Some buf, ins) \<Rightarrow>
       (case parse_request (the (before CRLF buf)) of
          Other_method \<Rightarrow>
            send_client N (http_line ''HTTP/1.1 405 Method Not Allowed'') (s\<lparr>c_in := ins\<rparr>)
        | Bad_target \<Rightarrow>
            send_client N (http_line ''HTTP/1.1 400 Bad Request'') (s\<lparr>c_in := ins\<rparr>)
        | Connect host port \<Rightarrow>
            connect_to N allowlist host port (s\<lparr>c_in := snd (drain_head ins buf)\<rparr>)))"

section \<open>Matching is by whole labels\<close>

fun labels :: "pystr \<Rightarrow> pystr list" where
  "labels [] = [[]]"
| "labels (c # s) =
     (if c = 46 then [] # labels s else (c # hd (labels s)) # tl (labels s))"

lemma labels_nonempty [simp]: "labels s \<noteq> []"
  by (cases s) auto

lemma labels_dot: "labels (p @ 46 # a) = labels p @ labels a"
  by (induction p) auto

lemma join_labels: "py_join [46] (labels s) = s"
proof (induction s)
  case (Cons c s)
  then show ?case
    by (cases "labels s"; cases "tl (labels s)") auto
qed simp

lemma py_join_append:
  "xs \<noteq> [] \<Longrightarrow> ys \<noteq> [] \<Longrightarrow> py_join sep (xs @ ys) = py_join sep xs @ sep @ py_join sep ys"
proof (induction xs)
  case (Cons x xs)
  then show ?case by (cases xs; cases ys) auto
qed simp

lemma labels_suffix_iff:
  "suffix (labels a) (labels host) \<longleftrightarrow> host = a \<or> (\<exists>p. host = p @ 46 # a)"
proof
  assume "suffix (labels a) (labels host)"
  then obtain xs where xs: "labels host = xs @ labels a" by (auto simp: suffix_def)
  show "host = a \<or> (\<exists>p. host = p @ 46 # a)"
  proof (cases "xs = []")
    case True
    then show ?thesis using xs join_labels by (metis append_Nil)
  next
    case False
    then have "py_join [46] (labels host) = py_join [46] xs @ [46] @ a"
      unfolding xs by (subst py_join_append) (simp_all only: join_labels labels_nonempty not_False_eq_True)
    then have "host = py_join [46] xs @ 46 # a" by (simp only: join_labels append_Cons append_Nil)
    then show ?thesis by auto
  qed
next
  assume "host = a \<or> (\<exists>p. host = p @ 46 # a)"
  then show "suffix (labels a) (labels host)" by (auto simp: suffix_def labels_dot)
qed

lemma matches_allowlist_iff:
  "matches_allowlist host allow \<longleftrightarrow> (\<exists>a\<in>set allow. suffix (labels a) (labels host))"
  by (auto simp: matches_allowlist_def labels_suffix_iff list_ex_iff ends_with_iff lit_def)

section \<open>Reading the head\<close>

lemma before_SomeD: "before sep xs = Some h \<Longrightarrow> \<exists>t. xs = h @ sep @ t"
proof (induction xs arbitrary: h)
  case (Cons b bs)
  show ?case
  proof (cases "take (length sep) (b # bs) = sep")
    case True
    with Cons.prems have "h = []" by simp
    moreover have "b # bs = sep @ drop (length sep) (b # bs)"
      using True append_take_drop_id [of "length sep" "b # bs"] by simp
    ultimately show ?thesis by auto
  next
    case False
    with Cons show ?thesis by (auto split: if_splits)
  qed
qed (auto split: if_splits)

lemma before_append: "before sep xs = Some h \<Longrightarrow> before sep (xs @ ys) = Some h"
proof (induction xs arbitrary: h)
  case Nil
  then show ?case by (cases ys) (auto split: if_splits)
next
  case (Cons b bs)
  show ?case
  proof (cases "take (length sep) (b # bs) = sep")
    case True
    with Cons.prems have "h = []" by simp
    moreover have "take (length sep) ((b # bs) @ ys) = sep"
      using True by (metis append_take_drop_id append_assoc append_eq_conv_conj)
    ultimately show ?thesis by simp
  next
    case False
    with Cons.prems obtain z where z: "before sep bs = Some z" "h = b # z" by auto
    then have "length sep \<le> length bs" by (auto dest: before_SomeD)
    then have "take (length sep) (b # bs @ ys) = take (length sep) (b # bs)"
      by (cases "length sep") auto
    with False z Cons.IH show ?thesis by simp
  qed
qed

lemma before_shorter:
  assumes "before sep (xs @ ys) = Some h" "h @ sep = xs @ ys" "ys \<noteq> []"
  shows "before sep xs = None"
proof (rule ccontr)
  assume "before sep xs \<noteq> None"
  then obtain h' where h': "before sep xs = Some h'" by blast
  then have "h' = h" using assms(1) before_append by fastforce
  moreover obtain t where "xs = h' @ sep @ t" using h' before_SomeD by blast
  ultimately show False using assms(2,3) by simp
qed

abbreviation whole :: "byte list list \<Rightarrow> bool" where
  "whole cs \<equiv> list_all (\<lambda>c. c \<noteq> []) cs"

lemma read_head_found: "before CRLF buf \<noteq> None \<Longrightarrow> read_head ins buf = (Some buf, ins)"
  by (cases ins) simp_all

lemma read_head_chunks:
  "whole cs \<Longrightarrow> length (buf @ concat cs) \<le> MAX_HEAD \<Longrightarrow> before CRLF (buf @ concat cs) \<noteq> None \<Longrightarrow>
     \<exists>b cs2. read_head (map Received cs @ rest) buf = (Some b, map Received cs2 @ rest)
       \<and> b @ concat cs2 = buf @ concat cs \<and> before CRLF b \<noteq> None \<and> whole cs2"
proof (induction cs arbitrary: buf)
  case Nil
  then show ?case using read_head_found [of buf rest] by (intro exI [of _ buf] exI [of _ "[]"]) simp
next
  case (Cons c cs)
  show ?case
  proof (cases "before CRLF buf = None")
    case True
    have "read_head (map Received (c # cs) @ rest) buf = read_head (map Received cs @ rest) (buf @ c)"
      using True Cons.prems(1,2) by simp
    moreover have "(buf @ c) @ concat cs = buf @ concat (c # cs)" by simp
    ultimately show ?thesis using Cons.IH [of "buf @ c"] Cons.prems by auto
  next
    case False
    then show ?thesis using Cons.prems(1)
      by (intro exI [of _ buf] exI [of _ "c # cs"]) (simp add: read_head_found)
  qed
qed

lemma drain_head_found: "before (CRLF @ CRLF) buf \<noteq> None \<Longrightarrow> drain_head ins buf = (buf, ins)"
  by (cases ins) simp_all

lemma drain_head_chunks:
  "whole cs \<Longrightarrow> before (CRLF @ CRLF) (buf @ concat cs) = Some h
     \<Longrightarrow> h @ CRLF @ CRLF = buf @ concat cs
     \<Longrightarrow> drain_head (map Received cs @ rest) buf = (buf @ concat cs, rest)"
proof (induction cs arbitrary: buf)
  case Nil
  then show ?case by (simp add: drain_head_found)
next
  case (Cons c cs)
  then have "before (CRLF @ CRLF) buf = None"
    by (intro before_shorter [of _ buf "concat (c # cs)" h]) simp_all
  with Cons show ?case by simp
qed

section \<open>What one connection does\<close>

definition effects :: "conn \<Rightarrow> byte list list \<times> byte list list \<times> dict list \<times> (pystr \<times> int) list" where
  "effects s = (c_out s, u_out s, c_attempts s, c_dials s)"

text \<open>The state a handler starts in: nothing sent, dialled or reported yet.\<close>

definition new_conn :: "recv_result list \<Rightarrow> recv_result list \<Rightarrow> conn" where
  "new_conn cin uin = \<lparr>c_in = cin, c_out = [], c_shut = False, c_closed = False,
     u_in = uin, u_out = [], u_shut = False, u_closed = False, c_attempts = [], c_dials = []\<rparr>"

lemma connect_to_denied:
  assumes "\<not> matches_allowlist host allow"
  shows "\<exists>r t. connect_to N allow host port s = (r, t) \<and> c_dials t = c_dials s \<and> u_out t = u_out s
     \<and> c_attempts t = c_attempts s @ [attempt host port False (lit ''not in allowlist'') 0]"
  using assms by (simp add: connect_to_def seq_def bind_def on_attempt_def send_client_def Let_def
      split: option.split)

lemma connect_to_refused:
  assumes "matches_allowlist host allow" "fst (n_dial N host port) = Inl (OS_Error e)"
  shows "\<exists>r t. connect_to N allow host port s = (r, t) \<and> c_dials t = c_dials s @ [(host, port)]
     \<and> u_out t = u_out s \<and> c_attempts t = c_attempts s @ [attempt host port True
          (lit ''upstream connect failed: '' @ e) (snd (n_dial N host port))]"
  using assms by (simp add: connect_to_def seq_def bind_def on_attempt_def send_client_def Let_def
      dial_def split: option.split)

lemma connect_to_granted:
  assumes "matches_allowlist host allow" "fst (n_dial N host port) = Inr ()"
  shows "\<exists>r t. connect_to N allow host port s = (r, t) \<and> c_dials t = c_dials s @ [(host, port)]
     \<and> (u_out t = u_out s \<or> u_out t = u_out s @ forward (n_to_upstream N) (c_in s))
     \<and> c_attempts t = c_attempts s @ [attempt host port True (lit ''matched allowlist'')
          (snd (n_dial N host port))]"
  using assms by (simp add: connect_to_def seq_def bind_def on_attempt_def send_client_def Let_def
      dial_def pump_def modify_def split: option.split)

lemma connect_to_crashed:
  assumes "matches_allowlist host allow" "fst (n_dial N host port) = Inl e" "\<forall>m. e \<noteq> OS_Error m"
  shows "connect_to N allow host port s = (Inl e, s\<lparr>c_dials := c_dials s @ [(host, port)]\<rparr>)"
  using assms by (cases e) (simp_all add: connect_to_def dial_def)

lemma handle_connect:
  assumes "read_head (c_in s) [] = (Some buf, ins)"
    and "parse_request (the (before CRLF buf)) = Connect host port"
  shows "handle N allow s = connect_to N allow host port (s\<lparr>c_in := snd (drain_head ins buf)\<rparr>)"
  using assms by (simp add: handle_def)

lemma send_client_frame [simp]:
  "c_dials (snd (send_client N b s)) = c_dials s"
  "c_attempts (snd (send_client N b s)) = c_attempts s"
  "u_out (snd (send_client N b s)) = u_out s"
  by (simp_all add: send_client_def split: option.split)

lemma handle_cases:
  obtains (quiet) "c_dials (snd (handle N allow s)) = c_dials s"
      "c_attempts (snd (handle N allow s)) = c_attempts s" "u_out (snd (handle N allow s)) = u_out s"
  | (connect) buf ins host port where "read_head (c_in s) [] = (Some buf, ins)"
      "parse_request (the (before CRLF buf)) = Connect host port"
proof (cases "read_head (c_in s) []")
  case (Pair h ins)
  show thesis
  proof (cases h)
    case None
    then show thesis using quiet Pair by (simp add: handle_def)
  next
    case (Some buf)
    show thesis
    proof (cases "parse_request (the (before CRLF buf))")
      case (Connect host port)
      with Some Pair show thesis by (auto intro: connect)
    qed (use Pair Some quiet in \<open>simp_all add: handle_def\<close>)
  qed
qed

lemma connect_to_safe:
  assumes "c_dials s = []" "c_attempts s = []" "u_out s = []"
    and "t = snd (connect_to N allow host port s)"
  shows "length (c_dials t) \<le> 1 \<and> length (c_attempts t) \<le> 1
    \<and> list_all (\<lambda>(h, p). matches_allowlist h allow) (c_dials t)
    \<and> (u_out t \<noteq> [] \<longrightarrow> (\<exists>h p ms. c_dials t = [(h, p)]
         \<and> c_attempts t = [attempt h p True (lit ''matched allowlist'') ms]))"
proof (cases "matches_allowlist host allow")
  case False
  from connect_to_denied [OF this, of N port s] assms show ?thesis by auto
next
  case True
  show ?thesis
  proof (cases "fst (n_dial N host port)")
    case (Inr u)
    then have "fst (n_dial N host port) = Inr ()" by simp
    from connect_to_granted [OF True this, of s] assms True show ?thesis by auto
  next
    case (Inl e)
    show ?thesis
    proof (cases "\<exists>m. e = OS_Error m")
      case os: True
      then obtain m where "fst (n_dial N host port) = Inl (OS_Error m)" using Inl by auto
      from connect_to_refused [OF True this, of s] assms True show ?thesis by auto
    next
      case False
      with connect_to_crashed [OF True Inl] assms True show ?thesis by simp
    qed
  qed
qed

lemma connect_to_reports:
  assumes "\<And>e. fst (n_dial N host port) = Inl e \<Longrightarrow> \<exists>m. e = OS_Error m"
  shows "\<exists>reason ms. c_attempts (snd (connect_to N allow host port s))
    = c_attempts s @ [attempt host port (matches_allowlist host allow) reason ms]"
proof (cases "matches_allowlist host allow")
  case False
  obtain r t where "connect_to N allow host port s = (r, t)"
    "c_attempts t = c_attempts s @ [attempt host port False (lit ''not in allowlist'') 0]"
    using connect_to_denied [OF False] by blast
  then show ?thesis by (simp only: False snd_conv) blast
next
  case True
  show ?thesis
  proof (cases "fst (n_dial N host port)")
    case (Inr u)
    then have "fst (n_dial N host port) = Inr ()" by simp
    from connect_to_granted [OF True this, of s] obtain r t where
      "connect_to N allow host port s = (r, t)" "c_attempts t = c_attempts s
         @ [attempt host port True (lit ''matched allowlist'') (snd (n_dial N host port))]" by blast
    then show ?thesis by (simp only: True snd_conv) blast
  next
    case (Inl x)
    then obtain m where "fst (n_dial N host port) = Inl (OS_Error m)" using assms by auto
    from connect_to_refused [OF True this, of s] obtain r t where
      "connect_to N allow host port s = (r, t)" "c_attempts t = c_attempts s
         @ [attempt host port True (lit ''upstream connect failed: '' @ m) (snd (n_dial N host port))]"
      by blast
    then show ?thesis by (simp only: True snd_conv) blast
  qed
qed

section \<open>Properties\<close>

text \<open>C20. A host is allowed exactly when the labels of some allowlist entry are its last labels:
  matching never cuts a label, so an entry does not admit a longer name that merely ends in
  the same characters.\<close>

theorem allowlist_by_labels:
  "matches_allowlist host allow \<longleftrightarrow> (\<exists>a\<in>set allow. suffix (labels a) (labels host))"
  by (rule matches_allowlist_iff)


definition demo_net :: net where
  "demo_net = \<lparr>n_dial = (\<lambda>h p. (if h = lit ''a..b'' then Inl Unicode_Error else Inr (), 7)),
     n_reply = (\<lambda>_. None), n_report = (\<lambda>_. None), n_to_upstream = (\<lambda>_. True),
     n_to_client = (\<lambda>_. True)\<rparr>"

definition demo_line :: "byte list" where
  "demo_line = ascii_bytes ''CONNECT x.b:443 H''"

lemma demo_parse: "parse_request demo_line = Connect (lit ''x.b'') 443"
  "parse_request (ascii_bytes ''connect a..b:1'') = Connect (lit ''a..b'') 1"
  by (simp_all add: demo_line_def parse_request_def Let_def ascii_bytes_def ascii_decode_def py_split_def py_space_def
      ascii_upper_def lit_def rsplit_colon_def int_of_ascii_def int_unsigned_def py_strip_def)

lemma demo_before: "before CRLF (demo_line @ CRLF @ CRLF) = Some demo_line"
  "before (CRLF @ CRLF) (demo_line @ CRLF @ CRLF) = Some demo_line"
  by (simp_all add: demo_line_def CRLF_def ascii_bytes_def)

lemma demo_read: "read_head [Received (demo_line @ CRLF @ CRLF), Received [1, 2]] []
    = (Some (demo_line @ CRLF @ CRLF), [Received [1, 2]])"
  using demo_before(1) by (simp add: CRLF_def [symmetric] MAX_HEAD_def) (simp add: CRLF_def demo_line_def ascii_bytes_def)

lemma demo_handle:
  "handle demo_net [lit ''b''] (new_conn [Received (demo_line @ CRLF @ CRLF), Received [1, 2]] [])
   = (Inr (), (new_conn [Received [1, 2]] [])\<lparr>
        c_out := [http_line ''HTTP/1.1 200 Connection Established''], c_shut := True,
        c_closed := True, u_out := [[1, 2]], u_shut := True, u_closed := True,
        c_attempts := [attempt (lit ''x.b'') 443 True (lit ''matched allowlist'') 7],
        c_dials := [(lit ''x.b'', 443)]\<rparr>)"
proof -
  have m: "matches_allowlist (lit ''x.b'') [lit ''b'']"
    by (simp add: matches_allowlist_def ends_with_def lit_def)
  have "handle demo_net [lit ''b''] (new_conn [Received (demo_line @ CRLF @ CRLF), Received [1, 2]] [])
      = connect_to demo_net [lit ''b''] (lit ''x.b'') 443
          ((new_conn [Received (demo_line @ CRLF @ CRLF), Received [1, 2]] [])\<lparr>c_in :=
             snd (drain_head [Received [1, 2]] (demo_line @ CRLF @ CRLF))\<rparr>)"
    by (rule handle_connect) (simp_all only: new_conn_def conn.simps demo_read demo_before demo_parse option.sel)
  also have "drain_head [Received [1, 2]] (demo_line @ CRLF @ CRLF)
      = (demo_line @ CRLF @ CRLF, [Received [1, 2]])"
    by (rule drain_head_found) (simp add: demo_before del: drain_head.simps)
  finally show ?thesis using m
    by (simp add: new_conn_def connect_to_def dial_def
        demo_net_def seq_def bind_def on_attempt_def send_client_def pump_def modify_def Let_def)
qed






lemma send_client_c_in:
  "fst (send_client N b (s\<lparr>c_in := x\<rparr>)) = fst (send_client N b (s\<lparr>c_in := y\<rparr>))"
  "effects (snd (send_client N b (s\<lparr>c_in := x\<rparr>))) = effects (snd (send_client N b (s\<lparr>c_in := y\<rparr>)))"
  by (simp_all add: send_client_def effects_def split: option.split)

lemma handle_of_head:
  assumes "read_head (c_in s) [] = (Some b, ins)" "before CRLF b = Some line"
    and "snd (drain_head ins b) = rest"
  shows "fst (handle N allow s) = fst (case parse_request line of
        Other_method \<Rightarrow> send_client N (http_line ''HTTP/1.1 405 Method Not Allowed'') (s\<lparr>c_in := rest\<rparr>)
      | Bad_target \<Rightarrow> send_client N (http_line ''HTTP/1.1 400 Bad Request'') (s\<lparr>c_in := rest\<rparr>)
      | Connect host port \<Rightarrow> connect_to N allow host port (s\<lparr>c_in := rest\<rparr>))"
    and "effects (snd (handle N allow s)) = effects (snd (case parse_request line of
        Other_method \<Rightarrow> send_client N (http_line ''HTTP/1.1 405 Method Not Allowed'') (s\<lparr>c_in := rest\<rparr>)
      | Bad_target \<Rightarrow> send_client N (http_line ''HTTP/1.1 400 Bad Request'') (s\<lparr>c_in := rest\<rparr>)
      | Connect host port \<Rightarrow> connect_to N allow host port (s\<lparr>c_in := rest\<rparr>)))"
  using assms by (cases "parse_request line"; simp add: handle_def send_client_c_in [of N _ ins s rest])+

lemma read_chunks:
  assumes "whole cs" "concat cs = head @ CRLF @ CRLF" "length (concat cs) \<le> MAX_HEAD"
    and "before (CRLF @ CRLF) (concat cs) = Some head"
  shows "\<exists>b ins. read_head (map Received cs @ rest) [] = (Some b, ins)
    \<and> before CRLF b = before CRLF (concat cs) \<and> before CRLF b \<noteq> None \<and> snd (drain_head ins b) = rest"
proof -
  have "before CRLF (head @ CRLF @ CRLF) \<noteq> None"
    by (induction head) (auto simp: CRLF_def)
  then obtain b cs2 where b: "read_head (map Received cs @ rest) [] = (Some b, map Received cs2 @ rest)"
    "b @ concat cs2 = concat cs" "before CRLF b \<noteq> None" "whole cs2"
    using read_head_chunks [of cs "[]" rest] assms by auto
  obtain h where h: "before CRLF b = Some h" using b(3) by blast
  then have "before CRLF (b @ concat cs2) = Some h" by (rule before_append)
  then have "before CRLF b = before CRLF (concat cs)" by (simp only: b(2) h)
  moreover have "drain_head (map Received cs2 @ rest) b = (concat cs, rest)"
    by (rule drain_head_chunks [of cs2 b head rest, unfolded b(2), OF b(4) assms(4) assms(2) [symmetric]])
  ultimately show ?thesis using b(1,3) by (metis snd_conv)
qed

text \<open>C32. How the network cuts a request into chunks does not matter: any division of the same
  head, up to its blank line, has the outcome, the reply, the dial, the report and the
  forwarded bytes that the head in one piece has.\<close>

theorem chunking_does_not_matter:
  assumes "list_all (\<lambda>c. c \<noteq> []) chunks" "concat chunks = head @ CRLF @ CRLF"
    and "length (concat chunks) \<le> MAX_HEAD" "before (CRLF @ CRLF) (concat chunks) = Some head"
  shows "fst (handle N allow (new_conn (map Received chunks @ rest) uin))
        = fst (handle N allow (new_conn (Received (concat chunks) # rest) uin))
    \<and> effects (snd (handle N allow (new_conn (map Received chunks @ rest) uin)))
        = effects (snd (handle N allow (new_conn (Received (concat chunks) # rest) uin)))"
proof -
  let ?s = "new_conn (map Received chunks @ rest) uin"
  let ?t = "new_conn (Received (concat chunks) # rest) uin"
  obtain b ins where b: "read_head (c_in ?s) [] = (Some b, ins)"
    "before CRLF b = before CRLF (concat chunks)" "before CRLF b \<noteq> None" "snd (drain_head ins b) = rest"
    using read_chunks [OF assms, of rest] unfolding new_conn_def conn.simps by blast
  have ne: "whole [concat chunks]" using assms(2) by (simp add: CRLF_def)
  obtain b' ins' where b': "read_head (c_in ?t) [] = (Some b', ins')"
    "before CRLF b' = before CRLF (concat chunks)" "snd (drain_head ins' b') = rest"
    using read_chunks [OF ne, of head rest] assms(2-4) by (auto simp: new_conn_def)
  obtain line where l: "before CRLF b = Some line" "before CRLF b' = Some line"
    using b(2,3) b'(2) by auto
  have eq: "?s\<lparr>c_in := rest\<rparr> = ?t\<lparr>c_in := rest\<rparr>" by (simp add: new_conn_def)
  show ?thesis
    unfolding handle_of_head [OF b(1) l(1) b(4), of N allow]
      handle_of_head [OF b'(1) l(2) b'(3), of N allow] eq by (intro conjI refl)
qed

theorem chunking_does_not_matter_witness:
  "fst (handle demo_net [] (new_conn (map Received [[71], [13], [10, 13, 10]] @ []) []))
     = fst (handle demo_net [] (new_conn (Received (concat [[71], [13], [10, 13, 10]]) # []) []))
   \<and> effects (snd (handle demo_net [] (new_conn (map Received [[71], [13], [10, 13, 10]] @ []) [])))
     = effects (snd (handle demo_net [] (new_conn (Received (concat [[71], [13], [10, 13, 10]]) # []) [])))"
  by (rule chunking_does_not_matter [where head = "[71]"]) (simp_all add: CRLF_def MAX_HEAD_def)

end
