(* ===== verification/Sandbox.thy ===== *)
theory Sandbox
  imports Trajectory Egress
begin

text \<open>
  \<^verbatim>\<open>sandbox.py\<close>: the life of one task's container. The Docker daemon (and the host's
  sockets, for the egress proxy) answer requests; the answers are a parameter, a function
  of the requests made so far and the request at hand. The state keeps the log of requests
  with their answers, so what was created and what was released can be read off it.
\<close>

section \<open>The daemon's interface\<close>

datatype dcall =
    Connect_daemon
  | Close_client
  | Create_container dict
  | Start_container pystr
  | Stop_container pystr
  | Remove_container pystr
  | Commit_container pystr pystr "pystr list"
  | Remove_image pystr
  | Get_container pystr
  | Exec_run pystr "pystr list" pystr
  | Start_proxy "pystr list"
  | Stop_proxy int

text \<open>
  What a request returns. An execution returns the two output streams, the exit code, the
  time it took and the connection attempts the proxy reported while it ran.
\<close>

record exec_output =
  x_stdout :: "byte list option"
  x_stderr :: "byte list option"
  x_exit_code :: "int option"
  x_duration_ms :: nat
  x_attempts :: "dict list"

datatype dresult = Done | Container pystr | Output exec_output | Port int

type_synonym dlog = "(dcall \<times> (exn + dresult)) list"

record senv = env +
  s_daemon :: "dlog \<Rightarrow> dcall \<Rightarrow> exn + dresult"
  s_uuid :: "nat \<Rightarrow> pystr"
  s_quote :: "pystr \<Rightarrow> pystr"
  s_exn_repr :: "exn \<Rightarrow> pystr"

record proxy =
  px_allowlist :: "pystr list"
  px_port :: int

record sandbox =
  sb_task :: task
  sb_callback :: bool
  sb_client :: bool
  sb_container :: "pystr option"
  sb_proxy :: "proxy option"
  sb_snapshots :: "pystr list"

record sstate = tstate +
  dcalls :: dlog
  uuids :: nat
  sb :: sandbox

section \<open>The code\<close>

definition SNAPSHOT_REPO :: pystr where
  "SNAPSHOT_REPO = lit ''prehnite-snapshot''"

definition snapshot_image :: "pystr \<Rightarrow> pystr" where
  "snapshot_image snap_id = SNAPSHOT_REPO @ lit '':'' @ snap_id"

definition new_sandbox :: "task \<Rightarrow> bool \<Rightarrow> sandbox" where
  "new_sandbox task cb = \<lparr>sb_task = task, sb_callback = cb, sb_client = False,
     sb_container = None, sb_proxy = None, sb_snapshots = []\<rparr>"

definition set_sb :: "(sandbox \<Rightarrow> sandbox) \<Rightarrow> 'z sstate_scheme \<Rightarrow> 'z sstate_scheme" where
  "set_sb f s = s\<lparr>sb := f (sb s)\<rparr>"

definition answered :: "dcall \<Rightarrow> exn + dresult \<Rightarrow> 'z sstate_scheme \<Rightarrow> 'z sstate_scheme" where
  "answered c r s = s\<lparr>dcalls := dcalls s @ [(c, r)]\<rparr>"

definition docker :: "'e senv_scheme \<Rightarrow> dcall \<Rightarrow> ('z sstate_scheme, dresult) py" where
  "docker E c = (\<lambda>s. let r = s_daemon E (dcalls s) c in (r, answered c r s))"

definition docker_do :: "'e senv_scheme \<Rightarrow> dcall \<Rightarrow> ('z sstate_scheme, unit) py" where
  "docker_do E c = bind (docker E c) (\<lambda>_. ret ())"

text \<open>\<^verbatim>\<open>try: m except (APIError, NotFound): pass\<close>.\<close>

definition ignore_api :: "('s, unit) py \<Rightarrow> ('s, unit) py" where
  "ignore_api m = try_except m (\<lambda>e. if is_api_error e then Some (ret ()) else None)"

definition new_uuid :: "'e senv_scheme \<Rightarrow> ('z sstate_scheme, pystr) py" where
  "new_uuid E = (\<lambda>s. (Inr (s_uuid E (uuids s)), s\<lparr>uuids := Suc (uuids s)\<rparr>))"

text \<open>A container the SDK returned, or a type error if the daemon answered something else.\<close>

fun as_container :: "dresult \<Rightarrow> ('s, pystr) py" where
  "as_container (Container c) = ret c"
| "as_container _ = raise Type_Error"

fun as_output :: "dresult \<Rightarrow> ('s, exec_output) py" where
  "as_output (Output x) = ret x"
| "as_output _ = raise Type_Error"

fun as_port :: "dresult \<Rightarrow> ('s, int) py" where
  "as_port (Port p) = ret p"
| "as_port _ = raise Type_Error"

definition from_env :: "'e senv_scheme \<Rightarrow> ('z sstate_scheme, unit) py" where
  "from_env E = seq
     (try_except (docker_do E Connect_daemon)
        (\<lambda>e. if is_docker_exception e
             then Some (raise (Sandbox_Error (lit ''could not reach Docker daemon: '' @ exn_text e)))
             else None))
     (modify (set_sb (\<lambda>b. b\<lparr>sb_client := True\<rparr>)))"

definition teardown_proxy :: "'e senv_scheme \<Rightarrow> ('z sstate_scheme, unit) py" where
  "teardown_proxy E = bind (get (\<lambda>s. sb_proxy (sb s))) (\<lambda>p. case p of
     None \<Rightarrow> ret ()
   | Some px \<Rightarrow>
       seq (try_except (docker_do E (Stop_proxy (px_port px))) (\<lambda>e. Some (ret ())))
         (modify (set_sb (\<lambda>b. b\<lparr>sb_proxy := None\<rparr>))))"

definition proxy_url :: "int \<Rightarrow> pystr" where
  "proxy_url port = lit ''http://host.docker.internal:'' @ py_str_int port"

definition network_kwargs :: "sandbox \<Rightarrow> exn + dict" where
  "network_kwargs b = (case ns_mode (tk_network (sb_task b)) of
     Mode_none \<Rightarrow> Inr [(lit ''network_mode'', JStr (lit ''none''))]
   | Mode_full \<Rightarrow> Inr [(lit ''network_mode'', JStr (lit ''bridge''))]
   | Mode_restricted \<Rightarrow> (case sb_proxy b of
       None \<Rightarrow> Inl (Sandbox_Error (lit ''restricted mode requires the egress proxy to be running''))
     | Some px \<Rightarrow>
         (let url = JStr (proxy_url (px_port px));
              no = JStr (lit ''localhost,127.0.0.1,::1'')
          in Inr [(lit ''network_mode'', JStr (lit ''bridge'')),
                  (lit ''extra_hosts'',
                     JObj [(lit ''host.docker.internal'', JStr (lit ''host-gateway''))]),
                  (lit ''environment'', JObj
                     [(lit ''HTTP_PROXY'', url), (lit ''HTTPS_PROXY'', url),
                      (lit ''http_proxy'', url), (lit ''https_proxy'', url),
                      (lit ''NO_PROXY'', no), (lit ''no_proxy'', no)])])))"

definition make_container_kwargs :: "pystr option \<Rightarrow> sandbox \<Rightarrow> exn + dict" where
  "make_container_kwargs img b = (case network_kwargs b of
     Inl e \<Rightarrow> Inl e
   | Inr extra \<Rightarrow> Inr
      ([(lit ''image'', JStr (case img of
           Some i \<Rightarrow> if i = [] then tk_image (sb_task b) else i
         | None \<Rightarrow> tk_image (sb_task b))),
        (lit ''command'', JList [JStr (lit ''sleep''), JStr (lit ''infinity'')]),
        (lit ''working_dir'', JStr (tk_workdir (sb_task b))),
        (lit ''detach'', JBool True),
        (lit ''tty'', JBool False),
        (lit ''mem_limit'', JStr (lit ''2g'')),
        (lit ''pids_limit'', JInt 512),
        (lit ''auto_remove'', JBool False),
        (lit ''labels'', JObj [(lit ''prehnite'', JStr (lit ''true'')),
           (lit ''prehnite.task_id'', JStr (tk_id (sb_task b)))])] @ extra))"

text \<open>\<^verbatim>\<open>containers.create(**self._make_container_kwargs(image))\<close>.\<close>

definition create_container :: "'e senv_scheme \<Rightarrow> pystr option \<Rightarrow> ('z sstate_scheme, pystr) py" where
  "create_container E img = bind (get sb) (\<lambda>b. case make_container_kwargs img b of
     Inl e \<Rightarrow> raise e
   | Inr kwargs \<Rightarrow> bind (docker E (Create_container kwargs)) as_container)"

definition start_proxy :: "'e senv_scheme \<Rightarrow> ('z sstate_scheme, unit) py" where
  "start_proxy E = bind (get sb) (\<lambda>b.
     if ns_mode (tk_network (sb_task b)) = Mode_restricted
     then if \<not> sb_callback b
          then raise (Sandbox_Error (lit ''restricted network mode requires an egress_callback ''
                 @ lit ''(pass one when constructing Sandbox)''))
          else (let allowlist = DEFAULT_ALLOWLIST @ ns_extra_allow (tk_network (sb_task b)) in
                bind (bind (docker E (Start_proxy allowlist)) as_port) (\<lambda>port.
                  modify (set_sb (\<lambda>b. b\<lparr>sb_proxy :=
                     Some \<lparr>px_allowlist = allowlist, px_port = port\<rparr>\<rparr>))))
     else ret ())"

fun is_image_not_found :: "exn \<Rightarrow> bool" where
  "is_image_not_found (Image_Not_Found m) = True"
| "is_image_not_found _ = False"

fun is_not_found :: "exn \<Rightarrow> bool" where
  "is_not_found (Not_Found m) = True"
| "is_not_found e = is_image_not_found e"

definition start_create :: "'e senv_scheme \<Rightarrow> ('z sstate_scheme, pystr) py" where
  "start_create E = bind (get sb) (\<lambda>b.
     try_except (create_container E None) (\<lambda>e.
       if is_image_not_found e
       then Some (seq (teardown_proxy E) (raise (Sandbox_Error
              (lit ''image '' @ s_quote E (tk_image (sb_task b)) @ lit '' not found locally '' @ [8212]
                 @ lit '' build it first (see docker/base.Dockerfile)''))))
       else if is_api_error e
       then Some (seq (teardown_proxy E)
              (raise (Sandbox_Error (lit ''docker create failed: '' @ exn_text e))))
       else None))"

definition start_run :: "'e senv_scheme \<Rightarrow> pystr \<Rightarrow> ('z sstate_scheme, unit) py" where
  "start_run E c = seq
     (try_except (docker_do E (Start_container c)) (\<lambda>e.
        if is_api_error e
        then Some (seq (docker_do E (Remove_container c)) (seq (teardown_proxy E)
               (raise (Sandbox_Error (lit ''docker start failed: '' @ exn_text e)))))
        else None))
     (modify (set_sb (\<lambda>b. b\<lparr>sb_container := Some c\<rparr>)))"

definition start :: "'e senv_scheme \<Rightarrow> ('z sstate_scheme, unit) py" where
  "start E = bind (get (\<lambda>s. sb_container (sb s))) (\<lambda>c.
     if c \<noteq> None then ret ()
     else seq (from_env E) (seq (start_proxy E) (bind (start_create E) (start_run E))))"

definition label_line :: "pystr \<Rightarrow> pystr \<Rightarrow> pystr" where
  "label_line k v = lit ''LABEL '' @ k @ lit ''='' @ [34] @ filter (\<lambda>c. c \<noteq> 34) v @ [34]"

definition snapshot :: "'e senv_scheme \<Rightarrow> (pystr \<times> pystr) list \<Rightarrow> ('z sstate_scheme, pystr) py" where
  "snapshot E extra_labels = bind (get sb) (\<lambda>b. case sb_container b of
     None \<Rightarrow> raise (Sandbox_Error (lit ''sandbox is not started''))
   | Some c \<Rightarrow>
       if \<not> sb_client b then raise (Sandbox_Error (lit ''sandbox is not started''))
       else bind (new_uuid E) (\<lambda>snap_id.
         seq (try_except
               (docker_do E (Commit_container c (snapshot_image snap_id)
                  (label_line (lit ''prehnite.snapshot'') (lit ''true'')
                     # map (\<lambda>(k, v). label_line k v) extra_labels)))
               (\<lambda>e. if is_api_error e
                    then Some (raise (Sandbox_Error (lit ''docker commit failed: '' @ exn_text e)))
                    else None))
           (seq (modify (set_sb (\<lambda>b. b\<lparr>sb_snapshots := sb_snapshots b @ [snap_id]\<rparr>)))
             (ret snap_id))))"

definition discard :: "'e senv_scheme \<Rightarrow> pystr option \<Rightarrow> ('z sstate_scheme, unit) py" where
  "discard E old = (case old of
     None \<Rightarrow> ret ()
   | Some c \<Rightarrow> seq (ignore_api (docker_do E (Stop_container c)))
                   (ignore_api (docker_do E (Remove_container c))))"

definition revert_run :: "'e senv_scheme \<Rightarrow> pystr \<Rightarrow> ('z sstate_scheme, pystr) py" where
  "revert_run E c = seq
     (try_except (docker_do E (Start_container c)) (\<lambda>e.
        if is_api_error e
        then Some (seq (ignore_api (docker_do E (Remove_container c)))
               (raise (Sandbox_Error (lit ''revert: docker start failed: '' @ exn_text e))))
        else None))
     (seq (modify (set_sb (\<lambda>b. b\<lparr>sb_container := Some c\<rparr>))) (ret c))"

definition revert :: "'e senv_scheme \<Rightarrow> pystr \<Rightarrow> ('z sstate_scheme, pystr) py" where
  "revert E snapshot_id = bind (get sb) (\<lambda>b.
     if snapshot_id \<notin> set (sb_snapshots b)
     then raise (Sandbox_Error (lit ''unknown snapshot id: '' @ snapshot_id))
     else if \<not> sb_client b then raise (Sandbox_Error (lit ''sandbox is not started''))
     else seq (modify (set_sb (\<lambda>b. b\<lparr>sb_container := None\<rparr>)))
       (seq (discard E (sb_container b))
         (bind (try_except (create_container E (Some (snapshot_image snapshot_id))) (\<lambda>e.
                  if is_api_error e
                  then Some (raise (Sandbox_Error (lit ''revert: could not create container from ''
                         @ snapshot_image snapshot_id @ lit '': '' @ exn_text e)))
                  else None))
            (revert_run E))))"

definition delete_snapshots :: "'e senv_scheme \<Rightarrow> ('z sstate_scheme, unit) py" where
  "delete_snapshots E = bind (get sb) (\<lambda>b.
     if \<not> sb_client b \<or> sb_snapshots b = [] then ret ()
     else seq (for_each (sb_snapshots b) (\<lambda>i. ignore_api (docker_do E (Remove_image (snapshot_image i)))))
       (modify (set_sb (\<lambda>b. b\<lparr>sb_snapshots := []\<rparr>))))"

definition attach :: "'e senv_scheme \<Rightarrow> pystr \<Rightarrow> ('z sstate_scheme, unit) py" where
  "attach E container_id = bind (get (\<lambda>s. sb_container (sb s))) (\<lambda>c.
     if c \<noteq> None then raise (Sandbox_Error (lit ''sandbox already attached / started''))
     else seq (from_env E) (bind
       (try_except (bind (docker E (Get_container container_id)) as_container) (\<lambda>e.
          if is_not_found e then Some (raise (Sandbox_Error
             (lit ''container '' @ container_id @ lit '' not found '' @ [8212] @ lit '' cannot resume session'')))
          else if is_api_error e
               then Some (raise (Sandbox_Error (lit ''docker attach failed: '' @ exn_text e)))
               else None))
       (\<lambda>c. modify (set_sb (\<lambda>b. b\<lparr>sb_container := Some c\<rparr>)))))"

definition decode_stream :: "byte list option \<Rightarrow> pystr" where
  "decode_stream b = (case b of None \<Rightarrow> [] | Some bs \<Rightarrow> utf8_decode bs)"

text \<open>
  \<^verbatim>\<open>exec\<close>. An explicit timeout is the text the format \<^verbatim>\<open>:g\<close> gives; the default is the
  task's. While the command runs, the proxy's threads report each attempt through the
  callback \<open>cb\<close>; an exception there ends the proxy's thread, not the command.
\<close>

definition proxied :: "(dict \<Rightarrow> ('s, unit) py) \<Rightarrow> dict list \<Rightarrow> ('s, unit) py" where
  "proxied cb ds = for_each ds (\<lambda>d. try_except (cb d) (\<lambda>e. Some (ret ())))"

definition exec :: "'e senv_scheme \<Rightarrow> (dict \<Rightarrow> ('z sstate_scheme, unit) py) \<Rightarrow> pystr \<Rightarrow> pystr option
    \<Rightarrow> ('z sstate_scheme, command_result) py" where
  "exec E cb cmd timeout_seconds = bind (get sb) (\<lambda>b. case sb_container b of
     None \<Rightarrow> raise (Sandbox_Error (lit ''sandbox is not started''))
   | Some c \<Rightarrow>
       (let effective = (case timeout_seconds of
              Some t \<Rightarrow> t | None \<Rightarrow> py_str_int (tk_exec_timeout_seconds (sb_task b)))
        in bind (try_except
               (bind (docker E (Exec_run c [lit ''timeout'', effective, lit ''sh'', lit ''-c'', cmd]
                                  (tk_workdir (sb_task b)))) as_output)
               (\<lambda>e. if is_api_error e
                    then Some (raise (Sandbox_Error (lit ''exec failed: '' @ exn_text e)))
                    else None))
             (\<lambda>x. seq (if sb_proxy b = None then ret () else proxied cb (x_attempts x))
               (ret \<lparr>cr_cmd = cmd,
                     cr_exit_code = (case x_exit_code x of None \<Rightarrow> 0 | Some n \<Rightarrow> n),
                     cr_stdout = decode_stream (x_stdout x),
                     cr_stderr = decode_stream (x_stderr x),
                     cr_duration_ms = int (x_duration_ms x)\<rparr>))))"

definition stop :: "'e senv_scheme \<Rightarrow> ('z sstate_scheme, unit) py" where
  "stop E = bind (get (\<lambda>s. sb_container (sb s))) (\<lambda>container.
     seq (modify (set_sb (\<lambda>b. b\<lparr>sb_container := None\<rparr>)))
       (seq (discard E container)
         (seq (delete_snapshots E)
           (seq (teardown_proxy E)
             (bind (get (\<lambda>s. sb_client (sb s))) (\<lambda>client.
                if client then seq (docker_do E Close_client)
                                 (modify (set_sb (\<lambda>b. b\<lparr>sb_client := False\<rparr>)))
                else ret ()))))))"

text \<open>The egress callback of the runner and of the server: one event per attempt.\<close>

definition record_egress :: "'e env_scheme \<Rightarrow> dict \<Rightarrow> ('z tstate_scheme, unit) py" where
  "record_egress E d = bind (write_event E Egress_attempt d) (\<lambda>_. ret ())"

section \<open>Frames\<close>

text \<open>The writer does not touch the sandbox or the daemon.\<close>

definition same_sandbox :: "'z sstate_scheme \<Rightarrow> 'z sstate_scheme \<Rightarrow> bool" where
  "same_sandbox s t \<longleftrightarrow> dcalls t = dcalls s \<and> sb t = sb s \<and> uuids t = uuids s
     \<and> sstate.more t = sstate.more s"

lemma same_sandbox_refl [simp]: "reflp same_sandbox"
  and same_sandbox_trans [simp]: "transp same_sandbox"
  by (auto simp: same_sandbox_def reflp_def transp_def)

lemma same_sandbox_writer [simp]: "same_sandbox s (set_wr f s)" "same_sandbox s (append_text p x s)"
  "same_sandbox s (create_text p s)"
  by (simp_all add: same_sandbox_def set_wr_def append_text_def create_text_def)

lemma same_sandbox_blobs: "only_blobs s t \<Longrightarrow> same_sandbox s t"
  by (auto simp: only_blobs_def same_sandbox_def)

lemma write_event_same_sandbox: "keeps same_sandbox (write_event E ty data)"
proof -
  have cap: "keeps same_sandbox (cap_event_data E ty data)" for data
    by (rule keeps_mono [OF cap_event_data_only_blobs same_sandbox_blobs])
  have now: "keeps same_sandbox (now_iso E)"
    by (rule keepsI) (simp add: now_iso_def same_sandbox_def)
  have emit: "keeps same_sandbox (emit_line E ev)" for ev
    by (rule keepsI) (auto simp: emit_line_def same_sandbox_def set_wr_def append_text_def split: sum.split)
  show ?thesis
    unfolding write_event_def make_event_def
    by (auto intro!: keeps_intros cap now emit)
qed

lemma record_egress_same_sandbox: "keeps same_sandbox (record_egress E d)"
  by (auto simp: record_egress_def intro!: keeps_intros write_event_same_sandbox)

lemma proxied_keeps:
  "reflp R \<Longrightarrow> transp R \<Longrightarrow> (\<And>d. keeps R (cb d)) \<Longrightarrow> keeps R (proxied cb ds)"
  by (auto simp: proxied_def intro!: keeps_intros)

section \<open>What was created and what was released\<close>

definition created :: "dlog \<Rightarrow> pystr set" where
  "created log = {c. \<exists>k. (Create_container k, Inr (Container c)) \<in> set log}"

definition removed :: "dlog \<Rightarrow> pystr set" where
  "removed log = {c. \<exists>r. (Remove_container c, r) \<in> set log}"

definition committed :: "dlog \<Rightarrow> pystr set" where
  "committed log = {i. \<exists>c ls x. (Commit_container c i ls, Inr x) \<in> set log}"

definition images_removed :: "dlog \<Rightarrow> pystr set" where
  "images_removed log = {i. \<exists>r. (Remove_image i, r) \<in> set log}"

definition proxies :: "dlog \<Rightarrow> int set" where
  "proxies log = {p. \<exists>al. (Start_proxy al, Inr (Port p)) \<in> set log}"

definition proxies_stopped :: "dlog \<Rightarrow> int set" where
  "proxies_stopped log = {p. \<exists>r. (Stop_proxy p, r) \<in> set log}"

lemmas resources = created_def removed_def committed_def images_removed_def proxies_def proxies_stopped_def

lemma resources_append [simp]:
  "created (xs @ ys) = created xs \<union> created ys"
  "removed (xs @ ys) = removed xs \<union> removed ys"
  "committed (xs @ ys) = committed xs \<union> committed ys"
  "images_removed (xs @ ys) = images_removed xs \<union> images_removed ys"
  "proxies (xs @ ys) = proxies xs \<union> proxies ys"
  "proxies_stopped (xs @ ys) = proxies_stopped xs \<union> proxies_stopped ys"
  by (auto simp: resources)

lemma resources_Nil [simp]:
  "created [] = {}" "removed [] = {}" "committed [] = {}" "images_removed [] = {}" "proxies [] = {}" "proxies_stopped [] = {}"
  by (simp_all add: resources)

lemma resources_Cons [simp]:
  "created ((c, r) # log) =
     (case (c, r) of (Create_container k, Inr (Container i)) \<Rightarrow> {i} | _ \<Rightarrow> {}) \<union> created log"
  "removed ((c, r) # log) = (case c of Remove_container i \<Rightarrow> {i} | _ \<Rightarrow> {}) \<union> removed log"
  "committed ((c, r) # log) =
     (case (c, r) of (Commit_container d i ls, Inr x) \<Rightarrow> {i} | _ \<Rightarrow> {}) \<union> committed log"
  "images_removed ((c, r) # log) = (case c of Remove_image i \<Rightarrow> {i} | _ \<Rightarrow> {}) \<union> images_removed log"
  "proxies ((c, r) # log) =
     (case (c, r) of (Start_proxy al, Inr (Port p)) \<Rightarrow> {p} | _ \<Rightarrow> {}) \<union> proxies log"
  "proxies_stopped ((c, r) # log) = (case c of Stop_proxy p \<Rightarrow> {p} | _ \<Rightarrow> {}) \<union> proxies_stopped log"
  by (auto simp: resources split: dcall.splits sum.splits dresult.splits)

section \<open>Every resource stays tracked\<close>

lemma answered_sel [simp]: "dcalls (answered c r s) = dcalls s @ [(c, r)]" "sb (answered c r s) = sb s"
  "uuids (answered c r s) = uuids s" "wr (answered c r s) = wr s" "texts (answered c r s) = texts s"
  "blobs (answered c r s) = blobs s" "ticks (answered c r s) = ticks s"
  by (simp_all add: answered_def)

lemma set_sb_sel [simp]: "dcalls (set_sb f s) = dcalls s" "sb (set_sb f s) = f (sb s)"
  "uuids (set_sb f s) = uuids s" "wr (set_sb f s) = wr s" "texts (set_sb f s) = texts s"
  "blobs (set_sb f s) = blobs s" "ticks (set_sb f s) = ticks s"
  by (simp_all add: set_sb_def)

lemma wp_docker [wp_simps]:
  "wp (docker E c) Q X s \<longleftrightarrow> (case s_daemon E (dcalls s) c of
     Inr a \<Rightarrow> Q a (answered c (Inr a) s) | Inl e \<Rightarrow> X e (answered c (Inl e) s))"
  by (simp add: wp_def docker_def Let_def split: sum.split)

lemma wp_docker_do [wp_simps]:
  "wp (docker_do E c) Q X s \<longleftrightarrow> (case s_daemon E (dcalls s) c of
     Inr a \<Rightarrow> Q () (answered c (Inr a) s) | Inl e \<Rightarrow> X e (answered c (Inl e) s))"
  by (simp add: docker_do_def wp_simps split: sum.split)

lemma wp_results [wp_simps]:
  "wp (as_container x) Q X s \<longleftrightarrow> (case x of Container c \<Rightarrow> Q c s | _ \<Rightarrow> X Type_Error s)"
  "wp (as_output x) Q' X s \<longleftrightarrow> (case x of Output c \<Rightarrow> Q' c s | _ \<Rightarrow> X Type_Error s)"
  "wp (as_port x) Q'' X s \<longleftrightarrow> (case x of Port c \<Rightarrow> Q'' c s | _ \<Rightarrow> X Type_Error s)"
  by (cases x; simp add: wp_simps)+

lemma wp_ignore_api [wp_simps]:
  "wp (ignore_api m) Q X s \<longleftrightarrow> wp m Q (\<lambda>e t. if is_api_error e then Q () t else X e t) s"
  unfolding ignore_api_def wp_try_except by (intro arg_cong [of _ _ "\<lambda>F. wp m Q F s"]) (auto simp: wp_ret fun_eq_iff)

text \<open>
  Requests on a container or an image fail with an API error, the SDK's class for the
  daemon's refusals, and closing the client does not fail.
\<close>

fun on_container :: "dcall \<Rightarrow> bool" where
  "on_container (Start_container c) = True"
| "on_container (Stop_container c) = True"
| "on_container (Remove_container c) = True"
| "on_container (Remove_image i) = True"
| "on_container _ = False"

definition daemon_ok :: "'e senv_scheme \<Rightarrow> bool" where
  "daemon_ok E \<longleftrightarrow>
     (\<forall>log c e. s_daemon E log c = Inl e \<longrightarrow>
        c \<noteq> Close_client \<and> (on_container c \<longrightarrow> is_api_error e))"

lemma daemon_okD [dest]:
  "daemon_ok E \<Longrightarrow> s_daemon E log (Start_container c) = Inl e \<Longrightarrow> is_api_error e"
  "daemon_ok E \<Longrightarrow> s_daemon E log (Stop_container c) = Inl e \<Longrightarrow> is_api_error e"
  "daemon_ok E \<Longrightarrow> s_daemon E log (Remove_container c) = Inl e \<Longrightarrow> is_api_error e"
  "daemon_ok E \<Longrightarrow> s_daemon E log (Remove_image c) = Inl e \<Longrightarrow> is_api_error e"
  "daemon_ok E \<Longrightarrow> s_daemon E log Close_client = Inl e \<Longrightarrow> False"
  by (auto simp: daemon_ok_def)

text \<open>
  Everything created and not yet asked to be released is what the sandbox still refers to:
  its container, its snapshots, its proxy, beside the containers in \<open>P\<close>, the snapshot images in \<open>I\<close>
  and the proxies in \<open>J\<close>, which the running operation or another sandbox holds. Without a client it refers to no snapshot and no proxy.
\<close>

definition tracked :: "pystr set \<Rightarrow> pystr set \<Rightarrow> int set \<Rightarrow> 'z sstate_scheme \<Rightarrow> bool" where
  "tracked P I J s \<longleftrightarrow>
     created (dcalls s) \<subseteq> removed (dcalls s) \<union> set_option (sb_container (sb s)) \<union> P
     \<and> committed (dcalls s) \<subseteq> images_removed (dcalls s) \<union> snapshot_image ` set (sb_snapshots (sb s)) \<union> I
     \<and> proxies (dcalls s) \<subseteq> proxies_stopped (dcalls s) \<union> px_port ` set_option (sb_proxy (sb s)) \<union> J
     \<and> (\<not> sb_client (sb s) \<longrightarrow> sb_snapshots (sb s) = [] \<and> sb_proxy (sb s) = None)"

lemma teardown_proxy_tracked:
  "tracked P I J s \<Longrightarrow> wp (teardown_proxy E) (\<lambda>_ t. tracked P I J t \<and> sb t = (sb s)\<lparr>sb_proxy := None\<rparr>) X s"
  by (auto simp: teardown_proxy_def wp_simps tracked_def split: option.split sum.split)

lemma from_env_tracked:
  "tracked P I J s \<Longrightarrow> wp (from_env E) (\<lambda>_ t. tracked P I J t \<and> sb t = (sb s)\<lparr>sb_client := True\<rparr>)
     (\<lambda>_ t. tracked P I J t) s"
  by (auto simp: from_env_def wp_simps tracked_def split: option.split sum.split)

lemma start_proxy_tracked:
  "tracked P I J s \<Longrightarrow> sb_client (sb s) \<Longrightarrow> sb_proxy (sb s) = None \<Longrightarrow>
     wp (start_proxy E) (\<lambda>_. tracked P I J) (\<lambda>_. tracked P I J) s"
  by (auto simp: start_proxy_def wp_simps Let_def tracked_def split: option.split sum.split dresult.split)

lemma create_container_tracked:
  "tracked P I J s \<Longrightarrow> wp (create_container E i) (\<lambda>c t. tracked (insert c P) I J t \<and> sb t = sb s)
     (\<lambda>_ t. tracked P I J t \<and> sb t = sb s) s"
  by (auto simp: create_container_def wp_simps tracked_def split: sum.split dresult.split)

lemma start_create_tracked:
  assumes "tracked P I J s"
  shows "wp (start_create E) (\<lambda>c t. tracked (insert c P) I J t \<and> sb t = sb s) (\<lambda>_. tracked P I J) s"
  unfolding start_create_def wp_simps
  by (rule wp_mono [OF create_container_tracked [OF assms]])
    (auto simp: wp_simps intro!: wp_mono [OF teardown_proxy_tracked])

lemma start_run_tracked:
  assumes "tracked (insert c P) I J s" "daemon_ok E" "sb_container (sb s) = None"
  shows "wp (start_run E c) (\<lambda>_. tracked P I J) (\<lambda>_. tracked P I J) s"
proof -
  have rm: "tracked P I J (answered (Remove_container c) r (answered (Start_container c) (Inl e) s))" for r e
    using assms(1) by (auto simp: tracked_def split: sum.split)
  have up: "tracked P I J (set_sb (sb_container_update (\<lambda>_. Some c)) (answered (Start_container c) r s))" for r
    using assms by (auto simp: tracked_def split: sum.split)
  show ?thesis
    by (auto simp: start_run_def wp_simps rm up split: option.split sum.split
        dest: daemon_okD [OF assms(2)] intro!: wp_mono [OF teardown_proxy_tracked [OF rm]])
qed

lemma start_tracked:
  assumes s: "tracked P I J s" and ok: "daemon_ok E" and fresh: "\<not> sb_client (sb s)"
  shows "wp (start E) (\<lambda>_. tracked P I J) (\<lambda>_. tracked P I J) s"
proof (cases "sb_container (sb s)")
  case (Some c)
  with s show ?thesis by (simp add: start_def wp_simps)
next
  case None
  have px: "sb_proxy (sb s) = None" using s fresh by (simp add: tracked_def)
  have p: "wp (start_proxy E) (\<lambda>_ t. tracked P I J t \<and> sb_container (sb t) = None) (\<lambda>_. tracked P I J) t"
    if "tracked P I J t" "sb t = (sb s)\<lparr>sb_client := True\<rparr>" for t
    using that px None
    by (auto simp: start_proxy_def wp_simps Let_def tracked_def split: option.split sum.split dresult.split)
  show ?thesis
    unfolding start_def wp_simps
    by (auto simp: None wp_simps intro!: wp_mono [OF from_env_tracked [OF s]] wp_mono [OF p]
        wp_mono [OF start_create_tracked] start_run_tracked ok)
qed

lemma attach_tracked:
  assumes s: "tracked P I J s"
  shows "wp (attach E i) (\<lambda>_. tracked P I J) (\<lambda>_. tracked P I J) s"
proof (cases "sb_container (sb s)")
  case (Some c)
  with s show ?thesis by (simp add: attach_def wp_simps)
next
  case None
  have a: "tracked P I J (answered (Get_container i) r t)" if "tracked P I J t" for r and t :: "'a sstate_scheme"
    using that by (auto simp: tracked_def split: sum.split)
  have u: "tracked P I J (set_sb (sb_container_update (\<lambda>_. Some c)) (answered (Get_container i) r t))"
    if "tracked P I J t" "sb t = (sb s)\<lparr>sb_client := True\<rparr>" for c r t
    using that None by (auto simp: tracked_def split: sum.split)
  show ?thesis
    unfolding attach_def wp_simps
    by (auto simp: None wp_simps a u split: dresult.split sum.split option.split
        intro!: wp_mono [OF from_env_tracked [OF s]])
qed

lemma snapshot_tracked:
  assumes s: "tracked P I J s"
  shows "wp (snapshot E ls) (\<lambda>_. tracked P I J) (\<lambda>_. tracked P I J) s"
proof -
  have u: "wp (new_uuid E) (\<lambda>_ t. tracked P I J t \<and> sb t = sb s) X s" for X
    using s by (auto simp: wp_def new_uuid_def tracked_def)
  have cm: "tracked P I J (set_sb (\<lambda>b. b\<lparr>sb_snapshots := sb_snapshots b @ [i]\<rparr>)
      (answered (Commit_container d (snapshot_image i) l) r t))"
    if "tracked P I J t" "sb t = sb s" "sb_client (sb s)" for d i l r and t :: "'a sstate_scheme"
    using that by (auto simp: tracked_def split: sum.split)
  have cf: "tracked P I J (answered (Commit_container d i l) (Inl e) t)"
    if "tracked P I J t" for d i l e and t :: "'a sstate_scheme"
    using that by (auto simp: tracked_def)
  show ?thesis
    unfolding snapshot_def wp_simps using s
    by (auto simp: wp_simps cm cf split: option.split sum.split intro!: wp_mono [OF u])
qed

lemma discard_tracked:
  assumes "tracked (set_option old \<union> P) I J s" "daemon_ok E"
  shows "wp (discard E old) (\<lambda>_ t. tracked P I J t \<and> sb t = sb s) X s"
  using assms
  by (auto simp: discard_def wp_simps tracked_def split: option.split sum.split dest: daemon_okD)

lemma revert_run_tracked:
  assumes "tracked (insert c P) I J s" "daemon_ok E" "sb_container (sb s) = None"
  shows "wp (revert_run E c) (\<lambda>_. tracked P I J) (\<lambda>_. tracked P I J) s"
proof -
  have rm: "tracked P I J (answered (Remove_container c) r (answered (Start_container c) (Inl e) s))" for r e
    using assms(1) by (auto simp: tracked_def split: sum.split)
  have up: "tracked P I J (set_sb (sb_container_update (\<lambda>_. Some c)) (answered (Start_container c) r s))" for r
    using assms by (auto simp: tracked_def split: sum.split)
  show ?thesis
    by (auto simp: revert_run_def wp_simps rm up split: option.split sum.split
        dest: daemon_okD [OF assms(2)])
qed

lemma revert_tracked:
  assumes s: "tracked P I J s" and ok: "daemon_ok E"
  shows "wp (revert E i) (\<lambda>_. tracked P I J) (\<lambda>_. tracked P I J) s"
proof -
  let ?s = "set_sb (sb_container_update (\<lambda>_. None)) s"
  have "tracked (set_option (sb_container (sb s)) \<union> P) I J ?s"
    using s by (auto simp: tracked_def)
  note d = wp_mono [OF discard_tracked [OF this ok]]
  show ?thesis
    unfolding revert_def wp_simps using s
    by (auto simp: wp_simps split: option.split if_splits intro!: d wp_mono [OF create_container_tracked]
        revert_run_tracked ok)
qed

lemma remove_images_tracked:
  "daemon_ok E \<Longrightarrow> tracked P I J s \<Longrightarrow> wp (for_each is (\<lambda>i. ignore_api (docker_do E (Remove_image (snapshot_image i)))))
     (\<lambda>_ t. tracked P I J t \<and> sb t = sb s \<and> snapshot_image ` set is \<subseteq> images_removed (dcalls t)
        \<and> images_removed (dcalls s) \<subseteq> images_removed (dcalls t)) X s"
proof (induction "is" arbitrary: s)
  case Nil
  then show ?case by (simp add: wp_simps)
next
  case (Cons i js)
  have a: "tracked P I J (answered (Remove_image (snapshot_image i)) r s)" for r
    using Cons.prems by (auto simp: tracked_def split: sum.split)
  show ?case
    using Cons.prems(1)
    by (auto simp: wp_simps a split: sum.split dest: daemon_okD intro!: wp_mono [OF Cons.IH [OF _ a]])
qed

lemma delete_snapshots_tracked:
  assumes "tracked P I J s" "daemon_ok E"
  shows "wp (delete_snapshots E) (\<lambda>_ t. tracked P I J t \<and> sb_snapshots (sb t) = []
      \<and> sb_container (sb t) = sb_container (sb s)) X s"
proof -
  have "tracked P I J (set_sb (sb_snapshots_update (\<lambda>_. [])) t)"
    if "tracked P I J t" "snapshot_image ` set (sb_snapshots (sb t)) \<subseteq> images_removed (dcalls t)"
    for t :: "'a sstate_scheme"
    using that unfolding tracked_def by (simp, blast)
  then show ?thesis
    unfolding delete_snapshots_def wp_simps
    using assms by (auto simp: wp_simps intro!: wp_mono [OF remove_images_tracked [OF assms(2,1)]])
      (simp add: tracked_def)
qed

lemma stop_tracked:
  assumes s: "tracked P I J s" and ok: "daemon_ok E"
  shows "wp (stop E) (\<lambda>_ t. tracked P I J t \<and> sb_container (sb t) = None \<and> sb_snapshots (sb t) = []
      \<and> sb_proxy (sb t) = None) X s"
proof -
  let ?s = "set_sb (sb_container_update (\<lambda>_. None)) s"
  have "tracked (set_option (sb_container (sb s)) \<union> P) I J ?s"
    using s by (auto simp: tracked_def)
  note d = wp_mono [OF discard_tracked [OF this ok]]
  show ?thesis
    unfolding stop_def wp_simps
    by (auto simp: wp_simps intro!: d wp_mono [OF delete_snapshots_tracked]
        wp_mono [OF teardown_proxy_tracked] split: sum.split dest: daemon_okD [OF ok] intro: ok)
      (auto simp: tracked_def)
qed

lemma exec_tracked:
  assumes s: "tracked P I J s" and cb: "\<And>d. keeps same_sandbox (cb d)"
  shows "wp (exec E cb cmd tmo) (\<lambda>_. tracked P I J) (\<lambda>_. tracked P I J) s"
proof -
  have a: "tracked P I J (answered (Exec_run c l w) r s)" for c l w r
    using s by (auto simp: tracked_def split: sum.split)
  have p: "wp (proxied cb ds) (\<lambda>_. tracked P I J) (\<lambda>_. tracked P I J) t"
    if "tracked P I J t" for ds and t :: "'a sstate_scheme"
  proof (rule wp_mono)
    show "wp (proxied cb ds) (\<lambda>_. same_sandbox t) (\<lambda>_. same_sandbox t) t"
      by (intro wp_keeps proxied_keeps cb) simp_all
  qed (use that in \<open>simp_all add: same_sandbox_def tracked_def\<close>)
  show ?thesis
    unfolding exec_def wp_simps using s
    by (auto simp: wp_simps Let_def a split: option.split sum.split dresult.split if_splits intro!: p
        intro: wp_mono [OF p [OF a]])
qed

section \<open>Every container is confined\<close>

definition allowed_hosts :: "task \<Rightarrow> pystr list" where
  "allowed_hosts task = DEFAULT_ALLOWLIST @ ns_extra_allow (tk_network task)"

text \<open>
  The network of a container: none at all, or the bridge; and under a restricted policy the
  proxy settings point at a proxy that was started with the task's allowlist.
\<close>

definition confined_kwargs :: "task \<Rightarrow> dlog \<Rightarrow> dict \<Rightarrow> bool" where
  "confined_kwargs task log k \<longleftrightarrow>
     map_of k (lit ''network_mode'') = Some (JStr (lit
        (if ns_mode (tk_network task) = Mode_none then ''none'' else ''bridge'')))
     \<and> map_of k (lit ''labels'') = Some (JObj [(lit ''prehnite'', JStr (lit ''true'')),
           (lit ''prehnite.task_id'', JStr (tk_id task))])
     \<and> (ns_mode (tk_network task) = Mode_restricted \<longrightarrow>
          (\<exists>p env. (Start_proxy (allowed_hosts task), Inr (Port p)) \<in> set log
             \<and> map_of k (lit ''environment'') = Some (JObj env)
             \<and> map_of env (lit ''HTTP_PROXY'') = Some (JStr (proxy_url p))
             \<and> map_of env (lit ''HTTPS_PROXY'') = Some (JStr (proxy_url p))))"

definition confined :: "task \<Rightarrow> 'z sstate_scheme \<Rightarrow> bool" where
  "confined task s \<longleftrightarrow> sb_task (sb s) = task
     \<and> (\<forall>px. sb_proxy (sb s) = Some px \<longrightarrow>
          (Start_proxy (allowed_hosts task), Inr (Port (px_port px))) \<in> set (dcalls s))
     \<and> (\<forall>k r. (Create_container k, r) \<in> set (dcalls s) \<longrightarrow> confined_kwargs task (dcalls s) k)"

lemma confined_kwargs_mono:
  "confined_kwargs task log k \<Longrightarrow> set log \<subseteq> set log' \<Longrightarrow> confined_kwargs task log' k"
  unfolding confined_kwargs_def by blast

lemma confined_kwargs_append [intro]: "confined_kwargs task log k \<Longrightarrow> confined_kwargs task (log @ l) k"
  by (rule confined_kwargs_mono) auto

lemma make_container_kwargs_confined:
  assumes "make_container_kwargs i b = Inr k" "sb_task b = task"
    and "\<And>px. sb_proxy b = Some px \<Longrightarrow> (Start_proxy (allowed_hosts task), Inr (Port (px_port px))) \<in> set log"
  shows "confined_kwargs task log k"
  using assms(1) assms(2)
  by (auto simp: make_container_kwargs_def network_kwargs_def confined_kwargs_def Let_def
      split: network_mode.splits option.splits dest: assms(3))

lemma confined_answered:
  "confined task s \<Longrightarrow> (\<And>k. c = Create_container k \<Longrightarrow> confined_kwargs task (dcalls s) k)
     \<Longrightarrow> confined task (answered c r s)"
  unfolding confined_def by auto

lemma docker_confined [keeps_intros]:
  "(\<And>k. c \<noteq> Create_container k) \<Longrightarrow> preserves (confined task) (docker E c)"
  by (rule keepsI) (auto simp: docker_def Let_def intro: confined_answered)

lemma docker_do_confined [keeps_intros]:
  "(\<And>k. c \<noteq> Create_container k) \<Longrightarrow> preserves (confined task) (docker_do E c)"
  by (auto simp: docker_do_def intro!: keeps_intros)

lemma results_keep [keeps_intros]:
  "reflp R \<Longrightarrow> keeps R (as_container x)" "reflp R \<Longrightarrow> keeps R (as_output x)"
  "reflp R \<Longrightarrow> keeps R (as_port x)"
  by (cases x; simp add: keeps_intros)+

lemma ignore_api_keeps [keeps_intros]: "reflp R \<Longrightarrow> transp R \<Longrightarrow> keeps R m \<Longrightarrow> keeps R (ignore_api m)"
  by (auto simp: ignore_api_def intro!: keeps_intros split: if_splits)

lemma set_sb_confined [keeps_intros]:
  "(\<And>b. sb_task (f b) = sb_task b \<and> (sb_proxy (f b) = sb_proxy b \<or> sb_proxy (f b) = None))
     \<Longrightarrow> preserves (confined task) (modify (set_sb f))"
  by (rule keepsI) (fastforce simp: confined_def)

lemma create_container_confined [keeps_intros]: "preserves (confined task) (create_container E i)"
proof (rule keepsI)
  fix s
  have "confined task s \<Longrightarrow> wp (create_container E i) (\<lambda>_. confined task) (\<lambda>_. confined task) s"
    by (auto simp: create_container_def wp_simps split: sum.split dresult.split
        intro!: confined_answered make_container_kwargs_confined) (auto simp: confined_def)
  then show "confined task s \<longrightarrow> confined task (snd (create_container E i s))" by (simp add: wp_snd)
qed

lemma start_proxy_confined [keeps_intros]: "preserves (confined task) (start_proxy E)"
proof (rule keepsI)
  fix s
  have "confined task s \<Longrightarrow> wp (start_proxy E) (\<lambda>_. confined task) (\<lambda>_. confined task) s"
    by (auto simp: start_proxy_def wp_simps Let_def split: sum.split dresult.split)
      (auto simp: confined_def allowed_hosts_def)
  then show "confined task s \<longrightarrow> confined task (snd (start_proxy E s))" by (simp add: wp_snd)
qed

lemma new_uuid_confined [keeps_intros]: "preserves (confined task) (new_uuid E)"
  by (rule keepsI) (simp add: new_uuid_def confined_def)

lemma for_each_confined [keeps_intros]:
  "(\<And>x. preserves (confined task) (f x)) \<Longrightarrow> preserves (confined task) (for_each xs f)"
  by (rule keeps_for_each) simp_all

lemma teardown_proxy_confined [keeps_intros]: "preserves (confined task) (teardown_proxy E)"
  by (auto simp: teardown_proxy_def intro!: keeps_intros split: option.split)

lemma from_env_confined [keeps_intros]: "preserves (confined task) (from_env E)"
  by (auto simp: from_env_def intro!: keeps_intros split: if_splits)

lemma discard_confined [keeps_intros]: "preserves (confined task) (discard E c)"
  by (auto simp: discard_def intro!: keeps_intros split: option.split)

lemma start_confined: "preserves (confined task) (start E)"
  by (auto simp: start_def start_create_def start_run_def intro!: keeps_intros split: if_splits)

lemma attach_confined: "preserves (confined task) (attach E i)"
  by (auto simp: attach_def intro!: keeps_intros split: if_splits)

lemma snapshot_confined: "preserves (confined task) (snapshot E ls)"
  by (auto simp: snapshot_def intro!: keeps_intros split: if_splits option.split)

lemma revert_confined: "preserves (confined task) (revert E i)"
  by (auto simp: revert_def revert_run_def intro!: keeps_intros split: if_splits)

lemma stop_confined: "preserves (confined task) (stop E)"
  by (auto simp: stop_def delete_snapshots_def intro!: keeps_intros split: if_splits)

lemma same_sandbox_confined: "keeps same_sandbox m \<Longrightarrow> preserves (confined task) m"
  by (erule keeps_mono) (simp add: same_sandbox_def confined_def)

lemma exec_confined:
  assumes "\<And>d. keeps same_sandbox (cb d)"
  shows "preserves (confined task) (exec E cb cmd tmo)"
proof -
  have "preserves (confined task) (proxied cb ds)" for ds
    by (intro proxied_keeps same_sandbox_confined assms) simp_all
  then show ?thesis
    by (auto simp: exec_def Let_def intro!: keeps_intros split: if_splits option.split)
qed

section \<open>Runs of a sandbox\<close>

text \<open>
  What its owners do with a sandbox: start it or attach it when it has no client, then run
  commands, take snapshots, revert, and stop it, in any order; the runner and the server
  write to the trajectory in between.
\<close>

datatype sandbox_op =
    Op_start
  | Op_attach pystr
  | Op_exec pystr
  | Op_snapshot "(pystr \<times> pystr) list"
  | Op_revert pystr
  | Op_stop
  | Op_log event_type dict

fun sandbox_step :: "'e senv_scheme \<Rightarrow> sandbox_op \<Rightarrow> 'z sstate_scheme \<Rightarrow> 'z sstate_scheme" where
  "sandbox_step E Op_start s = (if sb_client (sb s) then s else snd (start E s))"
| "sandbox_step E (Op_attach i) s = (if sb_client (sb s) then s else snd (attach E i s))"
| "sandbox_step E (Op_exec cmd) s = snd (exec E (record_egress E) cmd None s)"
| "sandbox_step E (Op_snapshot ls) s = snd (snapshot E ls s)"
| "sandbox_step E (Op_revert i) s = snd (revert E i s)"
| "sandbox_step E Op_stop s = snd (stop E s)"
| "sandbox_step E (Op_log ty d) s = snd (write_event E ty d s)"

definition unstarted :: "'z sstate_scheme \<Rightarrow> bool" where
  "unstarted s \<longleftrightarrow> dcalls s = [] \<and> (\<exists>task cb. sb s = new_sandbox task cb)"

lemma sandbox_step_tracked:
  assumes "daemon_ok E" "tracked P I J s"
  shows "tracked P I J (sandbox_step E op s)"
proof (cases op)
  case (Op_log ty d)
  have "same_sandbox s (snd (write_event E ty d s))"
    using write_event_same_sandbox by (rule keeps_apply)
  with assms(2) show ?thesis by (simp add: Op_log same_sandbox_def tracked_def)
next
  case Op_stop
  have "wp (stop E) (\<lambda>_. tracked P I J) (\<lambda>_. tracked P I J) s"
    by (rule wp_mono [OF stop_tracked [OF assms(2,1)]]) auto
  then show ?thesis by (simp add: Op_stop wp_snd)
qed (use assms in \<open>simp_all add: wp_snd [symmetric] start_tracked attach_tracked snapshot_tracked
  revert_tracked exec_tracked record_egress_same_sandbox\<close>)

lemma sandbox_step_confined: "confined task s \<Longrightarrow> confined task (sandbox_step E op s)"
  by (cases op)
    (simp_all add: keeps_apply [OF start_confined, rule_format] keeps_apply [OF attach_confined, rule_format]
      keeps_apply [OF exec_confined, rule_format] keeps_apply [OF snapshot_confined, rule_format]
      keeps_apply [OF revert_confined, rule_format] keeps_apply [OF stop_confined, rule_format]
      keeps_apply [OF same_sandbox_confined [OF write_event_same_sandbox], rule_format]
      record_egress_same_sandbox)

interpretation sandbox_resources: machine unstarted
  "\<lambda>s t. daemon_ok E \<and> (\<exists>op. t = sandbox_step E op s)" "tracked P I J" for E P I J
proof unfold_locales
  fix s t :: "'a sstate_scheme"
  show "unstarted s \<Longrightarrow> tracked P I J s" by (auto simp: unstarted_def tracked_def new_sandbox_def)
  show "tracked P I J s \<Longrightarrow> daemon_ok E \<and> (\<exists>op. t = sandbox_step E op s) \<Longrightarrow> tracked P I J t"
    by (auto intro: sandbox_step_tracked)
qed

interpretation sandbox_network: machine "\<lambda>s. unstarted s \<and> sb_task (sb s) = task"
  "\<lambda>s t. \<exists>op. t = sandbox_step E op s" "confined task" for E task
proof unfold_locales
  fix s t :: "'a sstate_scheme"
  show "unstarted s \<and> sb_task (sb s) = task \<Longrightarrow> confined task s"
    by (auto simp: unstarted_def confined_def new_sandbox_def)
  show "confined task s \<Longrightarrow> \<exists>op. t = sandbox_step E op s \<Longrightarrow> confined task t"
    by (auto intro: sandbox_step_confined)
qed

section \<open>Reverting\<close>

lemma snapshot_image_nonempty [simp]: "snapshot_image i \<noteq> []"
  by (simp add: snapshot_image_def)

lemma kwargs_image:
  "make_container_kwargs (Some (snapshot_image i)) b = Inr k
     \<Longrightarrow> map_of k (lit ''image'') = Some (JStr (snapshot_image i))"
  by (auto simp: make_container_kwargs_def split: sum.splits)

definition swapped :: "pystr \<Rightarrow> 'z sstate_scheme \<Rightarrow> pystr \<Rightarrow> 'z sstate_scheme \<Rightarrow> bool" where
  "swapped i s c t \<longleftrightarrow> sb t = (sb s)\<lparr>sb_container := Some c\<rparr>
     \<and> (\<forall>old. sb_container (sb s) = Some old \<longrightarrow> old \<in> removed (dcalls t))
     \<and> (\<exists>k r new. dcalls t = dcalls s @ new
          \<and> (Create_container k, Inr (Container c)) \<in> set new
          \<and> map_of k (lit ''image'') = Some (JStr (snapshot_image i))
          \<and> (Start_container c, Inr r) \<in> set new)"

definition broken :: "'z sstate_scheme \<Rightarrow> 'z sstate_scheme \<Rightarrow> bool" where
  "broken s t \<longleftrightarrow> sb t = (sb s)\<lparr>sb_container := None\<rparr>"

lemma discard_effect:
  assumes "daemon_ok E"
  shows "wp (discard E old) (\<lambda>_ t. sb t = sb s \<and> (\<exists>new. dcalls t = dcalls s @ new)
    \<and> set_option old \<subseteq> removed (dcalls t)) X s"
  using assms
  by (auto simp: discard_def wp_simps split: option.split sum.split dest: daemon_okD)

lemma create_container_effect:
  "wp (create_container E (Some (snapshot_image i)))
     (\<lambda>c t. sb t = sb s \<and> (\<exists>k. dcalls t = dcalls s @ [(Create_container k, Inr (Container c))]
        \<and> map_of k (lit ''image'') = Some (JStr (snapshot_image i))))
     (\<lambda>_ t. sb t = sb s) s"
  by (auto simp: create_container_def wp_simps kwargs_image split: sum.split dresult.split)

lemma revert_run_effect:
  assumes "daemon_ok E"
  shows "wp (revert_run E c) (\<lambda>d t. d = c \<and> sb t = (sb s)\<lparr>sb_container := Some c\<rparr>
      \<and> (\<exists>r. dcalls t = dcalls s @ [(Start_container c, Inr r)])) (\<lambda>_ t. sb t = sb s) s"
  using assms
  by (auto simp: revert_run_def wp_simps split: option.split sum.split dest: daemon_okD)

lemma revert_effect:
  assumes ok: "daemon_ok E" and i: "i \<in> set (sb_snapshots (sb s))" and cl: "sb_client (sb s)"
  shows "wp (revert E i) (swapped i s) (\<lambda>_. broken s) s"
proof -
  have d: "wp (discard E (sb_container (sb s)))
      (\<lambda>_ t. sb t = (sb s)\<lparr>sb_container := None\<rparr> \<and> (\<exists>new. dcalls t = dcalls s @ new)
         \<and> set_option (sb_container (sb s)) \<subseteq> removed (dcalls t)) X
      (set_sb (sb_container_update (\<lambda>_. None)) s)" for X
    by (rule wp_mono [OF discard_effect [OF ok]]) auto
  have c: "wp (create_container E (Some (snapshot_image i)))
      (\<lambda>c t'. sb t' = sb t \<and> (\<exists>k. dcalls t' = dcalls t @ [(Create_container k, Inr (Container c))]
        \<and> map_of k (lit ''image'') = Some (JStr (snapshot_image i)))) (\<lambda>_. broken s) t"
    if "sb t = (sb s)\<lparr>sb_container := None\<rparr>" for t
    by (rule wp_mono [OF create_container_effect]) (use that in \<open>auto simp: broken_def\<close>)
  have r: "wp (revert_run E c) (swapped i s) (\<lambda>_. broken s) t"
    if "sb t = (sb s)\<lparr>sb_container := None\<rparr>"
      "\<exists>k new. dcalls t = dcalls s @ new @ [(Create_container k, Inr (Container c))]
         \<and> map_of k (lit ''image'') = Some (JStr (snapshot_image i))
         \<and> set_option (sb_container (sb s)) \<subseteq> removed (dcalls s) \<union> removed new" for t c
  proof -
    from that(2) obtain k new where n: "dcalls t = dcalls s @ new @ [(Create_container k, Inr (Container c))]"
      "map_of k (lit ''image'') = Some (JStr (snapshot_image i))"
      "set_option (sb_container (sb s)) \<subseteq> removed (dcalls s) \<union> removed new" by blast
    show ?thesis
      by (rule wp_mono [OF revert_run_effect [OF ok]])
        (use that(1) n in \<open>auto simp: broken_def swapped_def, blast?\<close>)
  qed
  show ?thesis
    unfolding revert_def wp_simps using i cl
    by (auto simp: wp_simps broken_def split: option.split if_splits intro!: wp_mono [OF d] wp_mono [OF c] r)
qed

section \<open>A small instance\<close>

definition demo_daemon :: "dlog \<Rightarrow> dcall \<Rightarrow> exn + dresult" where
  "demo_daemon log c = (case c of
     Create_container k \<Rightarrow> Inr (Container (if length log \<le> 2 then lit ''c1'' else lit ''c2''))
   | Get_container i \<Rightarrow> Inr (Container i)
   | Exec_run i l w \<Rightarrow> Inr (Output \<lparr>x_stdout = Some [97], x_stderr = None, x_exit_code = Some 0,
        x_duration_ms = 5, x_attempts = []\<rparr>)
   | Start_proxy al \<Rightarrow> Inr (Port 8080)
   | _ \<Rightarrow> Inr Done)"

definition demo_senv :: senv where
  "demo_senv = env.extend demo_env \<lparr>s_daemon = demo_daemon, s_uuid = (\<lambda>_. lit ''u''), s_quote = (\<lambda>s. s),
     s_exn_repr = exn_text\<rparr>"

definition demo_task :: task where
  "demo_task = \<lparr>tk_id = lit ''t'', tk_description = lit ''d'', tk_image = lit ''img'',
     tk_network = \<lparr>ns_mode = Mode_restricted, ns_extra_allow = []\<rparr>, tk_timeout_seconds = 120,
     tk_exec_timeout_seconds = 60, tk_workdir = lit ''/w'', tk_setup = [], tk_verify = [],
     tk_tags = [], tk_difficulty = None\<rparr>"

definition demo_sandbox :: sstate where
  "demo_sandbox = tstate.extend demo_open
     \<lparr>dcalls = [], uuids = 0, sb = new_sandbox demo_task True\<rparr>"

lemma demo_senv_sel [simp]: "s_daemon demo_senv = demo_daemon" "s_uuid demo_senv n = lit ''u''"
  "s_quote demo_senv = (\<lambda>s. s)"
  by (simp_all add: demo_senv_def env.defs demo_env_def)

lemma demo_sandbox_sel [simp]: "dcalls demo_sandbox = []" "sb demo_sandbox = new_sandbox demo_task True"
  by (simp_all add: demo_sandbox_def tstate.defs)

lemma demo_daemon_ok: "daemon_ok demo_senv"
  by (auto simp: daemon_ok_def demo_daemon_def split: dcall.splits)

lemma demo_unstarted: "unstarted demo_sandbox"
  by (auto simp: unstarted_def)

definition demo_started :: sstate where
  "demo_started = sandbox_step demo_senv Op_start demo_sandbox"

definition demo_kwargs :: dict where
  "demo_kwargs = projr (make_container_kwargs None
     ((new_sandbox demo_task True)\<lparr>sb_proxy := Some \<lparr>px_allowlist = DEFAULT_ALLOWLIST, px_port = 8080\<rparr>\<rparr>))"

lemma demo_start: "wp (start demo_senv) (\<lambda>_ t. sb t = (new_sandbox demo_task True)\<lparr>sb_client := True,
      sb_container := Some (lit ''c1''), sb_proxy := Some \<lparr>px_allowlist = DEFAULT_ALLOWLIST, px_port = 8080\<rparr>\<rparr>
    \<and> dcalls t = [(Connect_daemon, Inr Done), (Start_proxy DEFAULT_ALLOWLIST, Inr (Port 8080)),
        (Create_container demo_kwargs, Inr (Container (lit ''c1''))), (Start_container (lit ''c1''), Inr Done)])
    (\<lambda>_ _. False) demo_sandbox"
  by (simp add: start_def from_env_def start_proxy_def start_create_def start_run_def create_container_def
      wp_simps new_sandbox_def demo_task_def demo_daemon_def make_container_kwargs_def network_kwargs_def
      demo_kwargs_def Let_def)

lemma demo_started_sel:
  "sb demo_started = (new_sandbox demo_task True)\<lparr>sb_client := True,
      sb_container := Some (lit ''c1''), sb_proxy := Some \<lparr>px_allowlist = DEFAULT_ALLOWLIST, px_port = 8080\<rparr>\<rparr>"
  "dcalls demo_started = [(Connect_daemon, Inr Done), (Start_proxy DEFAULT_ALLOWLIST, Inr (Port 8080)),
        (Create_container demo_kwargs, Inr (Container (lit ''c1''))), (Start_container (lit ''c1''), Inr Done)]"
proof -
  have "sandbox_step demo_senv Op_start demo_sandbox = snd (start demo_senv demo_sandbox)"
    by (simp add: new_sandbox_def)
  then show "sb demo_started = (new_sandbox demo_task True)\<lparr>sb_client := True,
      sb_container := Some (lit ''c1''), sb_proxy := Some \<lparr>px_allowlist = DEFAULT_ALLOWLIST, px_port = 8080\<rparr>\<rparr>"
    "dcalls demo_started = [(Connect_daemon, Inr Done), (Start_proxy DEFAULT_ALLOWLIST, Inr (Port 8080)),
        (Create_container demo_kwargs, Inr (Container (lit ''c1''))), (Start_container (lit ''c1''), Inr Done)]"
    using wp_return [OF demo_start] by (auto simp: demo_started_def)
qed

lemma demo_sandbox_steps:
  "(\<lambda>s t. \<exists>op. t = sandbox_step demo_senv op s)\<^sup>*\<^sup>* demo_sandbox demo_started"
  unfolding demo_started_def by (rule r_into_rtranclp) blast

section \<open>Properties\<close>

text \<open>C4. Nothing outlives a sandbox: after any sequence of operations on a fresh one, starting, executing,
  snapshotting and reverting in any order and with any failures the daemon reports, stopping it
  returns, and by then the removal of every container and of every snapshot image it ever
  created has been requested, and every proxy it started has been stopped.\<close>

theorem stop_releases_everything:
  assumes "daemon_ok E" "unstarted s0" "(\<lambda>s t. \<exists>op. t = sandbox_step E op s)\<^sup>*\<^sup>* s0 s"
  shows "\<exists>t. stop E s = (Inr (), t) \<and> sb_container (sb t) = None
    \<and> created (dcalls t) \<subseteq> removed (dcalls t)
    \<and> committed (dcalls t) \<subseteq> images_removed (dcalls t)
    \<and> proxies (dcalls t) \<subseteq> proxies_stopped (dcalls t)"
proof -
  have "(\<lambda>s t. daemon_ok E \<and> (\<exists>op. t = sandbox_step E op s))\<^sup>*\<^sup>* s0 s"
    using assms(1,3) by simp
  then have "tracked {} {} {} s" using assms(2) by (rule sandbox_resources.reachable_inv [rotated])
  then have "wp (stop E) (\<lambda>_ t. tracked {} {} {} t \<and> sb_container (sb t) = None \<and> sb_snapshots (sb t) = []
      \<and> sb_proxy (sb t) = None) (\<lambda>_ _. False) s" using assms(1) by (rule stop_tracked)
  from wp_return [OF this] show ?thesis by (auto simp: tracked_def)
qed

theorem stop_releases_everything_witness:
  "\<exists>t. stop demo_senv demo_started = (Inr (), t) \<and> sb_container (sb t) = None
    \<and> created (dcalls t) \<subseteq> removed (dcalls t)
    \<and> committed (dcalls t) \<subseteq> images_removed (dcalls t)
    \<and> proxies (dcalls t) \<subseteq> proxies_stopped (dcalls t)"
  by (rule stop_releases_everything [OF demo_daemon_ok demo_unstarted demo_sandbox_steps])

text \<open>C14. Every container a sandbox ever asks for, the first one and each one a revert creates, has the
  network its task allows: none, or the bridge; under the restricted policy its proxy variables
  point at a proxy that enforces the default allowlist and the task's additions.\<close>

theorem every_container_is_confined:
  assumes "unstarted s0" "sb_task (sb s0) = task"
    and "(\<lambda>s t. \<exists>op. t = sandbox_step E op s)\<^sup>*\<^sup>* s0 s"
    and "(Create_container kwargs, r) \<in> set (dcalls s)"
  shows "confined_kwargs task (dcalls s) kwargs"
proof -
  have "unstarted s0 \<and> sb_task (sb s0) = task" using assms(1,2) by simp
  then have "confined task s" using assms(3) by (rule sandbox_network.reachable_inv)
  with assms(4) show ?thesis by (auto simp: confined_def)
qed

theorem every_container_is_confined_witness:
  "confined_kwargs demo_task (dcalls demo_started) demo_kwargs"
  by (rule every_container_is_confined [OF demo_unstarted _ demo_sandbox_steps,
        where r = "Inr (Container (lit ''c1''))"])
    (simp_all add: demo_started_sel new_sandbox_def)

text \<open>C29. A revert that returns has swapped the container for a new one, created from the image of the
  requested snapshot and started, and has asked for the old one's removal; the proxy, the
  snapshots and everything else of the sandbox are as they were.\<close>

theorem revert_swaps_container:
  assumes "daemon_ok E" "i \<in> set (sb_snapshots (sb s))" "sb_client (sb s)"
    and "revert E i s = (Inr c, t)"
  shows "sb t = (sb s)\<lparr>sb_container := Some c\<rparr>
    \<and> (\<forall>old. sb_container (sb s) = Some old \<longrightarrow> old \<in> removed (dcalls t))
    \<and> (\<exists>k r new. dcalls t = dcalls s @ new
         \<and> (Create_container k, Inr (Container c)) \<in> set new
         \<and> map_of k (lit ''image'') = Some (JStr (snapshot_image i))
         \<and> (Start_container c, Inr r) \<in> set new)"
  using wp_Inr [OF revert_effect [OF assms(1-3)] assms(4)] unfolding swapped_def .

definition demo_forked :: sstate where
  "demo_forked = set_sb (\<lambda>b. b\<lparr>sb_snapshots := [lit ''u'']\<rparr>) demo_started"

lemma demo_forked_sel: "lit ''u'' \<in> set (sb_snapshots (sb demo_forked))" "sb_client (sb demo_forked)"
  by (simp_all add: demo_forked_def demo_started_sel)

lemma demo_revert: "wp (revert demo_senv (lit ''u'')) (\<lambda>c t. c = lit ''c2'') (\<lambda>_ _. False) demo_forked"
  by (simp add: demo_forked_def revert_def discard_def revert_run_def create_container_def wp_simps
      demo_started_sel new_sandbox_def demo_task_def demo_daemon_def make_container_kwargs_def
      network_kwargs_def Let_def)

theorem revert_swaps_container_witness:
  "\<exists>t :: sstate. sb t = (sb demo_forked)\<lparr>sb_container := Some (lit ''c2'')\<rparr>
    \<and> lit ''c1'' \<in> removed (dcalls t)
    \<and> (\<exists>k r new. dcalls t = dcalls demo_forked @ new
         \<and> (Create_container k, Inr (Container (lit ''c2''))) \<in> set new
         \<and> map_of k (lit ''image'') = Some (JStr (snapshot_image (lit ''u'')))
         \<and> (Start_container (lit ''c2''), Inr r) \<in> set new)"
proof -
  obtain t where t: "revert demo_senv (lit ''u'') demo_forked = (Inr (lit ''c2''), t)"
    using wp_return [OF demo_revert] by auto
  have old: "sb_container (sb demo_forked) = Some (lit ''c1'')"
    by (simp add: demo_forked_def demo_started_sel)
  show ?thesis
    using revert_swaps_container [OF demo_daemon_ok demo_forked_sel t] old
    by (intro exI [of _ t] conjI) blast+
qed


definition demo_refusing :: senv where
  "demo_refusing = demo_senv\<lparr>s_daemon := (\<lambda>log c. case c of
     Create_container k \<Rightarrow> Inl (Api_Error []) | _ \<Rightarrow> Inr Done)\<rparr>"

lemma demo_failing_revert:
  "revert demo_refusing (lit ''u'') demo_forked
     = (Inl (Sandbox_Error (lit ''revert: could not create container from '' @ snapshot_image (lit ''u'')
          @ lit '': '')), snd (revert demo_refusing (lit ''u'') demo_forked))"
proof -
  have "wp (revert demo_refusing (lit ''u'')) (\<lambda>_ _. False) (\<lambda>e _. e = Sandbox_Error
      (lit ''revert: could not create container from '' @ snapshot_image (lit ''u'') @ lit '': '')) demo_forked"
    by (simp add: demo_forked_def revert_def discard_def create_container_def wp_simps demo_refusing_def
        demo_started_sel new_sandbox_def demo_task_def make_container_kwargs_def network_kwargs_def Let_def)
  then show ?thesis
    by (cases "revert demo_refusing (lit ''u'') demo_forked") (auto simp: wp_def split: sum.splits)
qed


end
