(* ===== verification/Json.thy ===== *)
theory Json
  imports Trajectory
begin

text \<open>
  A JSON printer and parser, compact as the event serialiser prints and tolerant of white
  space as the standard parser reads. It shows that the contract asked of the serialiser,
  \<open>codec_ok\<close>, is met by JSON itself, and it instantiates the parameters in the small
  instances at which the properties of the runner and the server are applied.
\<close>

section \<open>Printing\<close>

definition hexd :: "nat \<Rightarrow> codepoint" where
  "hexd n = (if n < 10 then 48 + n else 87 + n)"

definition esc :: "codepoint \<Rightarrow> pystr" where
  "esc c =
     (if c = 34 then [92, 34] else if c = 92 then [92, 92]
      else if c = 8 then [92, 98] else if c = 9 then [92, 116] else if c = 10 then [92, 110]
      else if c = 12 then [92, 102] else if c = 13 then [92, 114]
      else if c < 32 then [92, 117, 48, 48, hexd (c div 16), hexd (c mod 16)]
      else [c])"

definition jstr :: "pystr \<Rightarrow> pystr" where
  "jstr s = 34 # concat (map esc s) @ [34]"

fun jdump :: "jval \<Rightarrow> pystr" where
  "jdump JNull = lit ''null''"
| "jdump (JBool b) = lit (if b then ''true'' else ''false'')"
| "jdump (JInt i) = py_str_int i"
| "jdump (JFloat f) = f"
| "jdump (JStr s) = jstr s"
| "jdump (JList xs) = 91 # py_join [44] (map jdump xs) @ [93]"
| "jdump (JObj d) = 123 # py_join [44] (map (\<lambda>kv. jstr (fst kv) @ 58 # jdump (snd kv)) d) @ [125]"

text \<open>The standard library's \<^verbatim>\<open>json.dumps\<close>: ASCII only, and indented by two.\<close>

definition hex4 :: "nat \<Rightarrow> pystr" where
  "hex4 n = [92, 117, hexd (n div 4096 mod 16), hexd (n div 256 mod 16), hexd (n div 16 mod 16), hexd (n mod 16)]"

definition ascii_esc :: "codepoint \<Rightarrow> pystr" where
  "ascii_esc c =
     (if c = 34 then [92, 34] else if c = 92 then [92, 92]
      else if c = 8 then [92, 98] else if c = 9 then [92, 116] else if c = 10 then [92, 110]
      else if c = 12 then [92, 102] else if c = 13 then [92, 114]
      else if 32 \<le> c \<and> c \<le> 126 then [c]
      else if c < 65536 then hex4 c
      else hex4 (55296 + (c - 65536) div 1024) @ hex4 (56320 + (c - 65536) mod 1024))"

definition ascii_str :: "pystr \<Rightarrow> pystr" where
  "ascii_str s = 34 # concat (map ascii_esc s) @ [34]"

definition newline :: "nat \<Rightarrow> pystr" where
  "newline depth = 10 # replicate (2 * depth) 32"

text \<open>\<^verbatim>\<open>json.dumps(v, indent=2)\<close>.\<close>

fun json_dumps :: "nat \<Rightarrow> jval \<Rightarrow> pystr" where
  "json_dumps n JNull = lit ''null''"
| "json_dumps n (JBool b) = lit (if b then ''true'' else ''false'')"
| "json_dumps n (JInt i) = py_str_int i"
| "json_dumps n (JFloat f) = f"
| "json_dumps n (JStr s) = ascii_str s"
| "json_dumps n (JList xs) = (if xs = [] then lit ''[]'' else
     lit ''['' @ newline (Suc n) @ py_join (lit '','' @ newline (Suc n)) (map (json_dumps (Suc n)) xs)
       @ newline n @ lit '']'')"
| "json_dumps n (JObj d) = (if d = [] then lit ''{}'' else
     lit ''{'' @ newline (Suc n)
       @ py_join (lit '','' @ newline (Suc n))
           (map (\<lambda>kv. ascii_str (fst kv) @ lit '': '' @ json_dumps (Suc n) (snd kv)) d)
       @ newline n @ lit ''}'')"

declare json_dumps.simps [simp del]

text \<open>What can be printed: encodable strings, number literals that are not integers, dictionaries.\<close>

definition number_char :: "codepoint \<Rightarrow> bool" where
  "number_char c \<longleftrightarrow> (48 \<le> c \<and> c \<le> 57) \<or> c \<in> {43, 45, 46, 69, 101}"

definition digit :: "codepoint \<Rightarrow> bool" where
  "digit c \<longleftrightarrow> 48 \<le> c \<and> c \<le> 57"

definition int_literal :: "pystr \<Rightarrow> bool" where
  "int_literal s = (case s of [] \<Rightarrow> False
     | c # t \<Rightarrow> list_all digit t \<and> (digit c \<or> c = 45 \<and> t \<noteq> []))"

definition float_literal :: "pystr \<Rightarrow> bool" where
  "float_literal f \<longleftrightarrow> f \<noteq> [] \<and> list_all number_char f \<and> \<not> int_literal f"

fun dumpable :: "jval \<Rightarrow> bool" where
  "dumpable (JFloat f) = float_literal f"
| "dumpable (JStr s) = list_all is_scalar s"
| "dumpable (JList xs) = list_all dumpable xs"
| "dumpable (JObj d) = (distinct (map fst d) \<and> list_all (list_all is_scalar) (map fst d)
     \<and> list_all (\<lambda>kv. dumpable (snd kv)) d)"
| "dumpable v = True"

section \<open>Parsing\<close>

definition ws :: "codepoint \<Rightarrow> bool" where
  "ws c \<longleftrightarrow> c \<in> {32, 9, 10, 13}"

definition skip_ws :: "pystr \<Rightarrow> pystr" where
  "skip_ws s = dropWhile ws s"

definition unhex :: "codepoint \<Rightarrow> nat option" where
  "unhex c = (if 48 \<le> c \<and> c \<le> 57 then Some (c - 48)
     else if 97 \<le> c \<and> c \<le> 102 then Some (c - 87)
     else if 65 \<le> c \<and> c \<le> 70 then Some (c - 55) else None)"

definition unesc :: "codepoint \<Rightarrow> codepoint option" where
  "unesc c = map_of [(34, 34), (92, 92), (47, 47), (98, 8), (116, 9), (110, 10), (102, 12), (114, 13)] c"

text \<open>
  The four hexadecimal digits of an escape; the escape of a high surrogate takes the one of a low
  surrogate after it for the same character.
\<close>

fun hex_unit :: "pystr \<Rightarrow> (nat \<times> pystr) option" where
  "hex_unit (h1 # h2 # h3 # h4 # s) = (case (unhex h1, unhex h2, unhex h3, unhex h4) of
     (Some a, Some b, Some g, Some d) \<Rightarrow> Some (4096 * a + 256 * b + 16 * g + d, s)
   | _ \<Rightarrow> None)"
| "hex_unit s = None"

definition low_half :: "pystr \<Rightarrow> (nat \<times> pystr) option" where
  "low_half s = (if take 2 s = [92, 117]
     then (case hex_unit (drop 2 s) of
       Some (v, r) \<Rightarrow> if 56320 \<le> v \<and> v \<le> 57343 then Some (v, r) else None
     | None \<Rightarrow> None)
     else None)"

definition code_unit :: "pystr \<Rightarrow> (codepoint \<times> pystr) option" where
  "code_unit s = (case hex_unit s of
     None \<Rightarrow> None
   | Some (u, r) \<Rightarrow>
       (case (if 55296 \<le> u \<and> u \<le> 56319 then low_half r else None) of
          Some (v, r') \<Rightarrow> Some (65536 + (u - 55296) * 1024 + (v - 56320), r')
        | None \<Rightarrow> Some (u, r)))"

lemma hex_unit_shorter: "hex_unit s = Some (u, r) \<Longrightarrow> length r < length s"
  by (induction s rule: hex_unit.induct) (auto split: option.splits)

lemma code_unit_shorter: "code_unit s = Some (u, r) \<Longrightarrow> length r < length s"
  by (auto simp: code_unit_def low_half_def split: option.splits if_splits prod.splits dest!: hex_unit_shorter)

function parse_str :: "pystr \<Rightarrow> (pystr \<times> pystr) option" where
  "parse_str [] = None"
| "parse_str (c # s) =
     (if c = 34 then Some ([], s)
      else if c < 32 then None
      else if c = 92 then
        (case s of
           [] \<Rightarrow> None
         | e # s1 \<Rightarrow>
             (case unesc e of
                Some d \<Rightarrow> map_option (\<lambda>(t, r). (d # t, r)) (parse_str s1)
              | None \<Rightarrow>
                  if e \<noteq> 117 then None
                  else (case code_unit s1 of
                     None \<Rightarrow> None
                   | Some (u, s2) \<Rightarrow> map_option (\<lambda>(t, r). (u # t, r)) (parse_str s2))))
      else map_option (\<lambda>(t, r). (c # t, r)) (parse_str s))"
  by pat_completeness auto

termination
  by (relation "measure length") (auto dest: code_unit_shorter)

definition digits_value :: "pystr \<Rightarrow> nat" where
  "digits_value s = foldl (\<lambda>n c. 10 * n + (c - 48)) 0 s"

definition parse_number :: "pystr \<Rightarrow> (jval \<times> pystr) option" where
  "parse_number s = (let t = takeWhile number_char s; r = dropWhile number_char s in
     if t = [] then None
     else if int_literal t
     then Some (JInt (if hd t = 45 then - int (digits_value (tl t)) else int (digits_value t)), r)
     else Some (JFloat t, r))"

definition expect :: "codepoint \<Rightarrow> pystr \<Rightarrow> pystr option" where
  "expect c s = (case skip_ws s of [] \<Rightarrow> None | d # r \<Rightarrow> if d = c then Some r else None)"

definition strip_lit :: "string \<Rightarrow> pystr \<Rightarrow> pystr option" where
  "strip_lit w s = (if take (length w) s = lit w then Some (drop (length w) s) else None)"

fun parse_val :: "nat \<Rightarrow> pystr \<Rightarrow> (jval \<times> pystr) option"
  and parse_elems :: "nat \<Rightarrow> pystr \<Rightarrow> (jval list \<times> pystr) option"
  and parse_items :: "nat \<Rightarrow> pystr \<Rightarrow> (dict \<times> pystr) option" where
  "parse_val 0 s = None"
| "parse_val (Suc n) s = (case skip_ws s of
     [] \<Rightarrow> None
   | c # r \<Rightarrow>
       if c = 34 then map_option (\<lambda>(t, r). (JStr t, r)) (parse_str r)
       else if c = 91 then
         (case expect 93 r of
            Some r' \<Rightarrow> Some (JList [], r')
          | None \<Rightarrow> map_option (\<lambda>(xs, r). (JList xs, r)) (parse_elems n r))
       else if c = 123 then
         (case expect 125 r of
            Some r' \<Rightarrow> Some (JObj [], r')
          | None \<Rightarrow> map_option (\<lambda>(d, r). (JObj (fold (\<lambda>(k, v). AList.update k v) d []), r))
              (parse_items n r))
       else (case strip_lit ''null'' (c # r) of
         Some r' \<Rightarrow> Some (JNull, r')
       | None \<Rightarrow> (case strip_lit ''true'' (c # r) of
           Some r' \<Rightarrow> Some (JBool True, r')
         | None \<Rightarrow> (case strip_lit ''false'' (c # r) of
             Some r' \<Rightarrow> Some (JBool False, r')
           | None \<Rightarrow> parse_number (c # r)))))"
| "parse_elems 0 s = None"
| "parse_elems (Suc n) s = (case parse_val n s of
     None \<Rightarrow> None
   | Some (v, r) \<Rightarrow> (case expect 44 r of
       Some r' \<Rightarrow> map_option (\<lambda>(vs, r). (v # vs, r)) (parse_elems n r')
     | None \<Rightarrow> map_option (\<lambda>r. ([v], r)) (expect 93 r)))"
| "parse_items 0 s = None"
| "parse_items (Suc n) s =
     Option.bind (expect 34 s) (\<lambda>r0. Option.bind (parse_str r0) (\<lambda>(k, r1).
     Option.bind (expect 58 r1) (\<lambda>r2. Option.bind (parse_val n r2) (\<lambda>(v, r3).
       (case expect 44 r3 of
          Some r4 \<Rightarrow> map_option (\<lambda>(d, r). ((k, v) # d, r)) (parse_items n r4)
        | None \<Rightarrow> map_option (\<lambda>r. ([(k, v)], r)) (expect 125 r3))))))"

definition json_loads :: "pystr \<Rightarrow> jval option" where
  "json_loads s = (case parse_val (Suc (length s)) s of
     Some (v, r) \<Rightarrow> if skip_ws r = [] then Some v else None
   | None \<Rightarrow> None)"

section \<open>Reading back what was printed\<close>

lemma unhex_hexd: "n < 16 \<Longrightarrow> unhex (hexd n) = Some n"
  by (simp add: unhex_def hexd_def)

lemma parse_str_esc: "parse_str (esc c @ s) = map_option (\<lambda>(t, r). (c # t, r)) (parse_str s)"
proof -
  have d: "c = 16 * (c div 16) + c mod 16" by simp
  consider "c \<in> {34, 92, 8, 9, 10, 12, 13}" | "c \<notin> {34, 92, 8, 9, 10, 12, 13}" "c < 32" | "\<not> c < 32" "c \<notin> {34, 92}"
    by blast
  then show ?thesis
  proof cases
    case 1
    then show ?thesis by (elim insertE) (auto simp: esc_def unesc_def)
  next
    case 2
    then have e: "esc c = [92, 117, 48, 48, hexd (c div 16), hexd (c mod 16)]" by (simp add: esc_def)
    have "unhex (hexd (c div 16)) = Some (c div 16)" "unhex (hexd (c mod 16)) = Some (c mod 16)"
      using 2 by (auto intro!: unhex_hexd)
    moreover have "unhex 48 = Some 0" by (simp add: unhex_def)
    moreover have "unesc 117 = None" by (simp add: unesc_def)
    ultimately show ?thesis unfolding e using d 2 by (simp add: code_unit_def)
  next
    case 3
    then show ?thesis by (simp add: esc_def)
  qed
qed

lemma parse_str_escaped: "parse_str (concat (map esc s) @ 34 # rest) = Some (s, rest)"
  by (induction s) (simp_all add: parse_str_esc)

lemma dec_digits_digit: "list_all digit (dec_digits n)"
  by (simp add: list_all_iff digit_def dec_digits_range)

lemma digits_value_dec: "digits_value (dec_digits n) = n"
proof (induction n rule: dec_digits.induct)
  case (1 n)
  show ?case
  proof (cases "n < 10")
    case True
    then show ?thesis by (subst dec_digits.simps) (simp add: digits_value_def)
  next
    case False
    with 1 show ?thesis by (subst dec_digits.simps) (simp add: digits_value_def)
  qed
qed

definition delim :: "pystr \<Rightarrow> bool" where
  "delim s \<longleftrightarrow> s = [] \<or> \<not> number_char (hd s)"

lemma number_prefix:
  "list_all number_char t \<Longrightarrow> delim rest \<Longrightarrow>
     takeWhile number_char (t @ rest) = t \<and> dropWhile number_char (t @ rest) = rest"
  by (induction t) (cases rest; auto simp: delim_def)+

lemma digit_number: "list_all digit t \<Longrightarrow> list_all number_char t"
  by (induction t) (auto simp: digit_def number_char_def)

lemma parse_number_int:
  assumes "delim rest"
  shows "parse_number (py_str_int i @ rest) = Some (JInt i, rest)"
proof -
  let ?t = "py_str_int i"
  have d: "list_all digit (dec_digits n)" "dec_digits n \<noteq> []" for n
    by (simp_all add: dec_digits_digit dec_digits_nonempty)
  have t: "list_all number_char ?t" "?t \<noteq> []"
    using d digit_number by (auto simp: py_str_int_def number_char_def)
  have h: "hd (dec_digits n) \<noteq> 45" for n
    using d [of n] by (cases "dec_digits n") (auto simp: digit_def)
  have i: "int_literal ?t"
    using d by (auto simp: int_literal_def py_str_int_def split: list.split)
      (metis list.pred_inject(2))+
  show ?thesis
    using number_prefix [OF t(1) assms] t(2) i h
    by (auto simp: parse_number_def Let_def py_str_int_def digits_value_dec)
qed

lemma parse_number_float:
  "float_literal f \<Longrightarrow> delim rest \<Longrightarrow> parse_number (f @ rest) = Some (JFloat f, rest)"
  using number_prefix [of f rest] by (auto simp: parse_number_def float_literal_def Let_def)

lemma skip_ws_Cons [simp]: "\<not> ws c \<Longrightarrow> skip_ws (c # s) = c # s"
  by (simp add: skip_ws_def)

lemma expect_Cons: "\<not> ws c \<Longrightarrow> expect d (c # s) = (if c = d then Some s else None)"
  by (simp add: expect_def)

lemma number_char_not: "number_char c \<Longrightarrow> \<not> ws c \<and> c \<notin> {34, 91, 123, 110, 116, 102, 93, 44}"
  by (auto simp: number_char_def ws_def)

lemma parse_val_number:
  "number_char c \<Longrightarrow> parse_val (Suc n) (c # s) = parse_number (c # s)"
  using number_char_not [of c]
  by (auto simp: strip_lit_def lit_def)

lemma number_Cons:
  "t \<noteq> [] \<Longrightarrow> list_all number_char t \<Longrightarrow> \<exists>c u. t = c # u \<and> number_char c"
  by (cases t) auto

lemma int_number: "list_all number_char (py_str_int i)" "py_str_int i \<noteq> []"
  using digit_number [OF dec_digits_digit] dec_digits_nonempty
  by (auto simp: py_str_int_def number_char_def)

lemma jdump_head:
  "dumpable v \<Longrightarrow> \<exists>c t. jdump v = c # t \<and> \<not> ws c \<and> c \<noteq> 93"
proof (cases v)
  case (JInt i)
  then show ?thesis
    using number_Cons [OF int_number(2,1)] number_char_not by fastforce
next
  case (JFloat f)
  moreover assume "dumpable v"
  ultimately show ?thesis
    using number_Cons [of f] number_char_not by (fastforce simp: float_literal_def)
qed (auto simp: lit_def ws_def jstr_def)

definition reads_back :: "jval \<Rightarrow> bool" where
  "reads_back v \<longleftrightarrow> (\<forall>n rest. length (jdump v) < n \<longrightarrow> delim rest \<longrightarrow>
     parse_val n (jdump v @ rest) = Some (v, rest))"

lemma reads_backD:
  "reads_back v \<Longrightarrow> length (jdump v) < n \<Longrightarrow> delim rest \<Longrightarrow> parse_val n (jdump v @ rest) = Some (v, rest)"
  by (simp add: reads_back_def)

lemma delim_sep [simp]: "delim (44 # s)" "delim (93 # s)" "delim (125 # s)" "delim []"
  by (simp_all add: delim_def number_char_def)

lemma expect_sep [simp]: "expect 44 (44 # s) = Some s" "expect 44 (93 # s) = None"
  "expect 44 (125 # s) = None" "expect 93 (93 # s) = Some s" "expect 125 (125 # s) = Some s"
  "expect 58 (58 # s) = Some s" "expect 34 (34 # s) = Some s"
  by (simp_all add: expect_Cons ws_def)

lemma py_join_Cons: "xs \<noteq> [] \<Longrightarrow> py_join sep (x # xs) = x @ sep @ py_join sep xs"
  by (cases xs) simp_all

lemma parse_elems_dump:
  "xs \<noteq> [] \<Longrightarrow> (\<And>x. x \<in> set xs \<Longrightarrow> reads_back x) \<Longrightarrow> length (py_join [44] (map jdump xs)) + 1 < n \<Longrightarrow>
     parse_elems n (py_join [44] (map jdump xs) @ 93 # rest) = Some (xs, rest)"
proof (induction xs arbitrary: n)
  case (Cons x xs)
  obtain m where n: "n = Suc m" using Cons.prems(3) by (cases n) auto
  show ?case
  proof (cases "xs = []")
    case True
    then show ?thesis using Cons.prems n reads_backD [of x m "93 # rest"] by simp
  next
    case False
    then have "map jdump xs \<noteq> []" by simp
    note j = py_join_Cons [OF this, of "[44]" "jdump x"]
    have "parse_val m (jdump x @ 44 # py_join [44] (map jdump xs) @ 93 # rest)
        = Some (x, 44 # py_join [44] (map jdump xs) @ 93 # rest)"
      using Cons.prems n j by (intro reads_backD) simp_all
    moreover have "parse_elems m (py_join [44] (map jdump xs) @ 93 # rest) = Some (xs, rest)"
      using Cons False n j by simp
    ultimately show ?thesis by (simp add: n j)
  qed
qed simp

definition jitem :: "pystr \<times> jval \<Rightarrow> pystr" where
  "jitem kv = jstr (fst kv) @ 58 # jdump (snd kv)"

lemma parse_items_dump:
  "d \<noteq> [] \<Longrightarrow> (\<And>kv. kv \<in> set d \<Longrightarrow> reads_back (snd kv)) \<Longrightarrow> length (py_join [44] (map jitem d)) + 1 < n \<Longrightarrow>
     parse_items n (py_join [44] (map jitem d) @ 125 # rest) = Some (d, rest)"
proof (induction d arbitrary: n)
  case (Cons kv d)
  obtain k v where kv: "kv = (k, v)" by (cases kv)
  obtain m where n: "n = Suc m" using Cons.prems(3) by (cases n) auto
  have i: "jitem (k, v) @ s = 34 # concat (map esc k) @ 34 # 58 # jdump v @ s" for s
    by (simp add: jitem_def jstr_def)
  show ?case
  proof (cases "d = []")
    case True
    have "parse_val m (jdump v @ 125 # rest) = Some (v, 125 # rest)"
      using Cons.prems n kv by (intro reads_backD) (auto simp: True jitem_def)
    then show ?thesis by (simp add: True n i parse_str_escaped kv)
  next
    case False
    then have "map jitem d \<noteq> []" by simp
    note j = py_join_Cons [OF this, of "[44]" "jitem kv"]
    have l: "length (jdump v) + 2 + length (py_join [44] (map jitem d)) < m"
    proof -
      have "length (jdump v) + 2 \<le> length (jitem (k, v))" by (simp add: jitem_def jstr_def)
      with Cons.prems(3) n j show ?thesis by (simp add: kv)
    qed
    have "parse_val m (jdump v @ 44 # py_join [44] (map jitem d) @ 125 # rest)
        = Some (v, 44 # py_join [44] (map jitem d) @ 125 # rest)"
      using Cons.prems(2) [of kv] kv l by (intro reads_backD) simp_all
    moreover have "parse_items m (py_join [44] (map jitem d) @ 125 # rest) = Some (d, rest)"
      using Cons False l by simp
    ultimately show ?thesis by (simp add: n j [unfolded kv] i parse_str_escaped kv)
  qed
qed simp

lemma fold_update_distinct:
  "distinct (map fst (acc @ d)) \<Longrightarrow> fold (\<lambda>(k, v). AList.update k v) d acc = acc @ d"
proof (induction d arbitrary: acc)
  case (Cons kv d)
  obtain k v where "kv = (k, v)" by (cases kv)
  moreover from this Cons.prems have "k \<notin> fst ` set acc" by auto
  then have "AList.update k v acc = acc @ [(k, v)]" by (induction acc) auto
  ultimately show ?case using Cons.IH [of "acc @ [(k, v)]"] Cons.prems by auto
qed simp

lemma jdump_obj: "jdump (JObj d) = 123 # py_join [44] (map jitem d) @ [125]"
  by (simp add: jitem_def [abs_def])

lemma not_sep [simp]: "\<not> ws 91" "\<not> ws 123" "\<not> ws 34" "\<not> ws 110" "\<not> ws 116" "\<not> ws 102" "\<not> ws 93" "\<not> ws 125"
  by (simp_all add: ws_def)

lemma py_join_head: "xs \<noteq> [] \<Longrightarrow> hd xs = c # t \<Longrightarrow> \<exists>u. py_join sep xs = c # u"
  by (cases xs; cases "tl xs") auto

lemma reads_back_list:
  assumes "\<And>x. x \<in> set xs \<Longrightarrow> dumpable x" "\<And>x. x \<in> set xs \<Longrightarrow> reads_back x"
  shows "reads_back (JList xs)"
  unfolding reads_back_def
proof (intro allI impI)
  fix n rest assume n: "length (jdump (JList xs)) < n"
  then obtain m where m: "n = Suc m" by (cases n) auto
  show "parse_val n (jdump (JList xs) @ rest) = Some (JList xs, rest)"
  proof (cases "xs = []")
    case True
    then show ?thesis by (simp add: m)
  next
    case False
    then have "dumpable (hd xs)" using assms(1) by simp
    then obtain c t where c: "jdump (hd xs) = c # t" "\<not> ws c" "c \<noteq> 93" using jdump_head by blast
    then obtain u where u: "py_join [44] (map jdump xs) = c # u"
      using False py_join_head [of "map jdump xs" c t] by (auto simp: hd_map)
    have "expect 93 (py_join [44] (map jdump xs) @ 93 # rest) = None"
      using c(2,3) by (simp add: u expect_Cons)
    moreover have "parse_elems m (py_join [44] (map jdump xs) @ 93 # rest) = Some (xs, rest)"
      using False assms(2) n m by (intro parse_elems_dump) simp_all
    ultimately show ?thesis by (simp add: m)
  qed
qed

lemma reads_back_obj:
  assumes "distinct (map fst d)" "\<And>kv. kv \<in> set d \<Longrightarrow> reads_back (snd kv)"
  shows "reads_back (JObj d)"
  unfolding reads_back_def jdump_obj
proof (intro allI impI)
  fix n rest assume n: "length (123 # py_join [44] (map jitem d) @ [125]) < n"
  then obtain m where m: "n = Suc m" by (cases n) auto
  show "parse_val n ((123 # py_join [44] (map jitem d) @ [125]) @ rest) = Some (JObj d, rest)"
  proof (cases "d = []")
    case True
    then show ?thesis by (simp add: m)
  next
    case False
    then obtain u where u: "py_join [44] (map jitem d) = 34 # u"
      using py_join_head [of "map jitem d" 34] by (auto simp: hd_map jitem_def jstr_def)
    have "expect 125 (py_join [44] (map jitem d) @ 125 # rest) = None"
      by (simp add: u expect_Cons)
    moreover have "parse_items m (py_join [44] (map jitem d) @ 125 # rest) = Some (d, rest)"
      using False assms(2) n m by (intro parse_items_dump) simp_all
    ultimately show ?thesis using fold_update_distinct [of "[]" d] assms(1) by (simp add: m)
  qed
qed

lemma reads_back_number:
  assumes "list_all number_char t" "t \<noteq> []" "jdump v = t"
    and "\<And>rest. delim rest \<Longrightarrow> parse_number (t @ rest) = Some (v, rest)"
  shows "reads_back v"
  unfolding reads_back_def
proof (intro allI impI)
  fix n rest assume n: "length (jdump v) < n" and d: "delim rest"
  obtain c u where c: "t = c # u" "number_char c" using number_Cons assms(1,2) by blast
  obtain m where "n = Suc m" using n by (cases n) auto
  then show "parse_val n (jdump v @ rest) = Some (v, rest)"
    using parse_val_number [OF c(2), of m "u @ rest"] assms(4) [OF d]
    by (simp del: parse_val.simps add: assms(3) c(1))
qed

lemma reads_back_simple: "reads_back JNull" "reads_back (JBool b)" "reads_back (JStr s)"
proof -
  show "reads_back JNull" "reads_back (JBool b)"
    by (auto simp: reads_back_def strip_lit_def lit_def elim!: less_natE)
  show "reads_back (JStr s)"
    unfolding reads_back_def
  proof (intro allI impI)
    fix n rest assume "length (jdump (JStr s)) < n"
    then obtain m where "n = Suc m" by (cases n) auto
    then show "parse_val n (jdump (JStr s) @ rest) = Some (JStr s, rest)"
      by (simp add: jstr_def parse_str_escaped)
  qed
qed

lemma dump_reads_back: "dumpable v \<Longrightarrow> reads_back v"
proof (induction v)
  case (JInt i)
  then show ?case using reads_back_number [OF int_number(1,2)] parse_number_int by simp
next
  case (JFloat f)
  then show ?case
    by (intro reads_back_number [of f] parse_number_float) (auto simp: float_literal_def)
next
  case (JList xs)
  then show ?case by (intro reads_back_list) (auto simp: list_all_iff)
next
  case (JObj d)
  then show ?case by (intro reads_back_obj) (auto simp: list_all_iff)
qed (rule reads_back_simple)+

lemma json_loads_dump: "dumpable v \<Longrightarrow> json_loads (jdump v) = Some v"
  using reads_backD [OF dump_reads_back, of v "Suc (length (jdump v))" "[]"]
  by (simp add: json_loads_def skip_ws_def)

section \<open>JSON meets the serialiser's contract\<close>

lemma esc_visible: "c \<in> set (esc d) \<Longrightarrow> 32 \<le> c"
  by (auto simp: esc_def hexd_def split: if_splits)

lemma jstr_visible: "c \<in> set (jstr s) \<Longrightarrow> 32 \<le> c"
  by (auto simp: jstr_def dest: esc_visible)

lemma number_visible: "list_all number_char t \<Longrightarrow> c \<in> set t \<Longrightarrow> 32 \<le> c"
  by (auto simp: list_all_iff number_char_def)

lemma py_join_set: "c \<in> set (py_join sep xs) \<Longrightarrow> c \<in> set sep \<or> (\<exists>x\<in>set xs. c \<in> set x)"
  by (induction sep xs rule: py_join.induct) auto

lemma jdump_visible: "dumpable v \<Longrightarrow> c \<in> set (jdump v) \<Longrightarrow> 32 \<le> c"
proof (induction v)
  case (JInt i)
  then show ?case using number_visible [OF int_number(1)] by simp
next
  case (JFloat f)
  then show ?case using number_visible [of f c] by (simp add: float_literal_def)
next
  case (JStr s)
  then show ?case using jstr_visible by simp
next
  case (JList xs)
  then show ?case by (auto simp: list_all_iff dest!: py_join_set)
next
  case (JObj d)
  have "32 \<le> c" if "(a, b) \<in> set d" "c \<in> set (jdump b)" for a b
    using JObj.IH [of "(a, b)" b] that JObj.prems by (auto simp: list_all_iff)
  moreover have "32 \<le> c \<or> (\<exists>a b. (a, b) \<in> set d \<and> (c \<in> set (jstr a) \<or> c \<in> set (jdump b)))"
    using JObj.prems(2) by (auto dest!: py_join_set)
  ultimately show ?case using jstr_visible by blast
qed (auto simp: lit_def split: if_splits)

definition json_line :: "trajectory_event \<Rightarrow> exn + pystr" where
  "json_line ev = (if dumpable (dump_event ev) then Inr (jdump (dump_event ev)) else Inl Unicode_Error)"

definition json_env :: "(nat \<Rightarrow> utc_time) \<Rightarrow> digest \<Rightarrow> env" where
  "json_env clock sha = \<lparr>e_sha = sha, e_clock = clock, e_dump = json_line, e_loads = json_loads,
     e_lax_int = (\<lambda>v. case v of JInt n \<Rightarrow> Some n | _ \<Rightarrow> None),
     e_int_of_str = (\<lambda>_. None), e_int_of_float = (\<lambda>_. None)\<rparr>"

lemma json_line_good: "json_line ev = Inr l \<Longrightarrow> good_line l"
proof -
  assume "json_line ev = Inr l"
  then have d: "dumpable (dump_event ev)" "l = jdump (dump_event ev)"
    by (auto simp: json_line_def split: if_splits)
  then have "10 \<notin> set l" "13 \<notin> set l" using jdump_visible by fastforce+
  moreover have "l \<noteq> []" "hd l = 123" "last l = 125"
    by (simp_all add: d(2) dump_event_def)
  ultimately show ?thesis by (simp add: good_line_def py_space_def)
qed

interpretation compact: codec jdump json_loads dumpable
  by unfold_locales (rule json_loads_dump)

interpretation json_lines: line_codec json_line json_loads dump_event "\<lambda>ev. True"
proof
  fix ev l assume l: "json_line ev = Inr l"
  then show "good_line l" by (rule json_line_good)
  show "json_loads l = Some (dump_event ev)"
    using l by (auto simp: json_line_def compact.dec_enc split: if_splits)
qed

text \<open>An event as the line it is printed as: different events are different lines.\<close>

interpretation event_text: codec_chain dump_event
  "\<lambda>v. case validate_event (\<lambda>w. case w of JInt n \<Rightarrow> Some n | _ \<Rightarrow> None) v of Inl e \<Rightarrow> None | Inr ev \<Rightarrow> Some ev"
  "\<lambda>ev. 0 \<le> ev_seq ev \<and> dumpable (dump_event ev)" jdump json_loads dumpable
  by unfold_locales (simp_all add: validate_dump_event)

lemma json_codec: "e_dump E = json_line \<Longrightarrow> e_loads E = json_loads
    \<Longrightarrow> (\<And>n. e_lax_int E (JInt n) = Some n) \<Longrightarrow> codec_ok E"
  using json_lines.emit_good json_lines.parse_emit by (auto simp: codec_ok_def)

lemma json_env_codec: "codec_ok (json_env clock sha)"
  by (rule json_codec) (simp_all add: json_env_def)

end
