(* ===== verification/Runner.thy ===== *)
theory Runner
  imports Sandbox Json
begin

text \<open>
  \<^verbatim>\<open>runner.py\<close>: one task from start to finish. A run opens the trajectory, starts the
  sandbox, runs the setup commands, the agent and the verify commands, records each as an
  event, and ends with one run_finished event and the sandbox stopped, whatever happens. An
  agent is a strategy that calls \<^verbatim>\<open>exec\<close>, sees each outcome (an exception included) and
  decides how to go on; it returns or raises after finitely many calls.
\<close>

section \<open>The code\<close>

type_synonym root = path

definition trajectories_dir :: "root \<Rightarrow> path" where
  "trajectories_dir root = root @ [lit ''trajectories'']"

definition overflow_dir :: "root \<Rightarrow> path" where
  "overflow_dir root = root @ [lit ''overflow'']"

definition stamp_path :: "task \<Rightarrow> root \<Rightarrow> pystr \<Rightarrow> path" where
  "stamp_path task root now = trajectories_dir root
     @ [tk_id task, filter (\<lambda>c. c \<noteq> 58 \<and> c \<noteq> 45) now @ lit ''.jsonl'']"

definition trajectory_path :: "'e env_scheme \<Rightarrow> task \<Rightarrow> root \<Rightarrow> ('z tstate_scheme, path) py" where
  "trajectory_path E task root = bind (now_iso E) (\<lambda>now. ret (stamp_path task root now))"

datatype agent =
    Agent_done
  | Agent_raise exn
  | Agent_exec pystr "exn + command_result \<Rightarrow> agent"

definition exec_and_record :: "'e senv_scheme \<Rightarrow> event_type \<Rightarrow> pystr
    \<Rightarrow> ('z sstate_scheme, command_result) py" where
  "exec_and_record E ty cmd = bind (exec E (record_egress E) cmd None) (\<lambda>result.
     bind (write_event E ty (dump_command result)) (\<lambda>_. ret result))"

text \<open>\<^verbatim>\<open>agent(ctx)\<close>, returning the command count: only a call that returns is counted.\<close>

primrec run_agent :: "'e senv_scheme \<Rightarrow> agent \<Rightarrow> nat \<Rightarrow> ('z sstate_scheme, nat) py" where
  "run_agent E Agent_done n = ret n"
| "run_agent E (Agent_raise e) n = raise e"
| "run_agent E (Agent_exec cmd k) n = (\<lambda>s. case exec_and_record E Agent_command cmd s of
     (Inl e, t) \<Rightarrow> run_agent E (k (Inl e)) n t
   | (Inr r, t) \<Rightarrow> run_agent E (k (Inr r)) (Suc n) t)"

fun run_commands :: "'e senv_scheme \<Rightarrow> pystr list \<Rightarrow> nat \<Rightarrow> ('z sstate_scheme, nat) py" where
  "run_commands E [] n = ret n"
| "run_commands E (cmd # cmds) n =
     bind (exec_and_record E Agent_command cmd) (\<lambda>_. run_commands E cmds (Suc n))"

definition log_event :: "'e env_scheme \<Rightarrow> event_type \<Rightarrow> dict \<Rightarrow> ('z tstate_scheme, unit) py" where
  "log_event E ty data = bind (write_event E ty data) (\<lambda>_. ret ())"

definition finished :: "run_status \<Rightarrow> pystr \<Rightarrow> dict" where
  "finished status reason =
     [(lit ''result'', JStr (lit (status_str status))), (lit ''reason'', JStr reason)]"

definition setup_reason :: "int \<Rightarrow> pystr \<Rightarrow> pystr" where
  "setup_reason code cmd =
     lit ''setup command failed (exit '' @ py_str_int code @ lit ''): '' @ cmd"

text \<open>The setup loop: the reason of the first command that fails.\<close>

fun run_setup :: "'e senv_scheme \<Rightarrow> pystr list \<Rightarrow> ('z sstate_scheme, pystr option) py" where
  "run_setup E [] = ret None"
| "run_setup E (cmd # cmds) = bind (exec_and_record E Setup_command cmd) (\<lambda>r.
     if cr_exit_code r \<noteq> 0 then ret (Some (setup_reason (cr_exit_code r) cmd))
     else run_setup E cmds)"

text \<open>The verify loop: the commands that failed, all of them having run.\<close>

fun run_verify :: "'e senv_scheme \<Rightarrow> pystr list \<Rightarrow> pystr list \<Rightarrow> ('z sstate_scheme, pystr list) py" where
  "run_verify E [] failures = ret failures"
| "run_verify E (cmd # cmds) failures = bind (exec_and_record E Verify_command cmd) (\<lambda>r.
     run_verify E cmds (if cr_exit_code r \<noteq> 0 then failures @ [cmd] else failures))"

definition verdict :: "(pystr \<Rightarrow> pystr) \<Rightarrow> pystr list \<Rightarrow> nat \<Rightarrow> run_status \<times> pystr" where
  "verdict quote failures agent_command_count =
     (if failures = [] then (PASSED, lit ''all verify checks passed'')
      else if agent_command_count = 0
      then (FAILED, lit ''no agent activity (verify ran on untouched workspace)'')
      else (FAILED, lit ''verify failed: '' @ py_repr quote (JList (map JStr failures))))"

definition started_data :: "task \<Rightarrow> pystr option \<Rightarrow> dict" where
  "started_data task cid =
     [(lit ''task_id'', JStr (tk_id task)), (lit ''image'', JStr (tk_image task)),
      (lit ''container_id'', opt_str cid), (lit ''network'', dump_network (tk_network task))]"

definition result_of :: "task \<Rightarrow> run_status \<Rightarrow> pystr \<Rightarrow> path \<Rightarrow> pystr option \<Rightarrow> run_result" where
  "result_of task status reason p cid = \<lparr>rr_task_id = tk_id task, rr_status = status,
     rr_reason = reason, rr_trajectory_path = p, rr_container_id = cid\<rparr>"

definition run_phases :: "'e senv_scheme \<Rightarrow> task \<Rightarrow> agent option \<Rightarrow> pystr list option \<Rightarrow> path
    \<Rightarrow> pystr option \<Rightarrow> ('z sstate_scheme, run_result) py" where
  "run_phases E task ag cmds p cid =
     seq (log_event E Run_started (started_data task cid))
       (bind (run_setup E (tk_setup task)) (\<lambda>failed. case failed of
          Some reason \<Rightarrow>
            seq (log_event E Run_finished (finished ERROR reason))
              (ret (result_of task ERROR reason p cid))
        | None \<Rightarrow>
            bind (case ag of
                    Some a \<Rightarrow> run_agent E a 0
                  | None \<Rightarrow> (case cmds of Some cs \<Rightarrow> run_commands E cs 0 | None \<Rightarrow> ret 0)) (\<lambda>count.
            bind (run_verify E (tk_verify task) []) (\<lambda>failures.
              case verdict (s_quote E) failures count of (status, reason) \<Rightarrow>
                seq (log_event E Run_finished (finished status reason))
                  (ret (result_of task status reason p cid))))))"

definition run_body :: "'e senv_scheme \<Rightarrow> task \<Rightarrow> agent option \<Rightarrow> pystr list option \<Rightarrow> path
    \<Rightarrow> ('z sstate_scheme, run_result) py" where
  "run_body E task ag cmds p =
     bind (try_except (seq (start E) (ret None))
             (\<lambda>e. if is_sandbox_error e then Some (ret (Some e)) else None))
       (\<lambda>failure. case failure of
          Some e \<Rightarrow>
            seq (log_event E Run_finished (finished ERROR (lit ''sandbox start: '' @ exn_text e)))
              (ret (result_of task ERROR (exn_text e) p None))
        | None \<Rightarrow> bind (get (\<lambda>s. sb_container (sb s))) (run_phases E task ag cmds p))"

definition run :: "'e senv_scheme \<Rightarrow> task \<Rightarrow> root \<Rightarrow> agent option \<Rightarrow> pystr list option
    \<Rightarrow> ('z sstate_scheme, run_result) py" where
  "run E task root ag cmds =
     (if ag \<noteq> None \<and> cmds \<noteq> None
      then raise (Value_Error (lit ''pass agent OR agent_commands, not both''))
      else bind (trajectory_path E task root) (\<lambda>p.
        seq (modify (\<lambda>s. s\<lparr>wr := new_writer p (Some (overflow_dir root)) DEFAULT_MAX_BYTES\<rparr>))
          (seq (open_writer E)
            (seq (modify (\<lambda>s. s\<lparr>sb := new_sandbox task True\<rparr>))
              (try_finally
                (try_except (run_body E task ag cmds p) (\<lambda>e. Some
                   (seq (log_event E Run_finished (finished ERROR (lit ''unhandled: '' @ s_exn_repr E e)))
                     (raise e))))
                (seq (stop E) close_writer))))))"

section \<open>What a run leaves in the file\<close>

text \<open>The file at \<open>p\<close>, which the open writer appends to, holds exactly these events.\<close>

definition events_of :: "'e env_scheme \<Rightarrow> path \<Rightarrow> trajectory_event list \<Rightarrow> 'z tstate_scheme \<Rightarrow> bool" where
  "events_of E p evs s \<longleftrightarrow> w_path (wr s) = p \<and> w_fh (wr s) \<and> \<not> w_closed (wr s)
     \<and> 0 \<le> w_max_stream_bytes (wr s) \<and> w_seq (wr s) = int (length evs) \<and> numbered evs
     \<and> (\<exists>c. texts s p = Some c \<and> renders E evs c)"

definition same_files :: "'z tstate_scheme \<Rightarrow> 'z tstate_scheme \<Rightarrow> bool" where
  "same_files s t \<longleftrightarrow> texts t = texts s \<and> wr t = wr s"

lemma same_files_refl [simp]: "reflp same_files"
  and same_files_trans [simp]: "transp same_files"
  by (auto simp: same_files_def reflp_def transp_def)

lemma same_files_events: "same_files s t \<Longrightarrow> events_of E p evs s \<Longrightarrow> events_of E p evs t"
  by (simp add: same_files_def events_of_def)

text \<open>What the recorded data of one event is, given the data the caller passed.\<close>

definition recorded :: "event_type \<Rightarrow> dict \<Rightarrow> dict \<Rightarrow> bool" where
  "recorded ty d d' \<longleftrightarrow> (ty \<notin> CAPPED_EVENT_TYPES \<longrightarrow> d' = d)
     \<and> map_of d' (lit ''cmd'') = map_of d (lit ''cmd'')
     \<and> map_of d' (lit ''exit_code'') = map_of d (lit ''exit_code'')"

lemma cap_event_data_recorded:
  assumes "cap_event_data E ty d s = (Inr d', t)" "0 \<le> w_max_stream_bytes (wr s)"
  shows "recorded ty d d'"
proof -
  have m: "lit ''cmd'' \<notin> set META_KEYS" "lit ''exit_code'' \<notin> set META_KEYS"
    by (simp_all add: META_KEYS_def)
  show ?thesis using assms
    by (auto simp: cap_event_data_def recorded_def split: option.splits if_splits
        dest: cap_command_data_lookup [OF _ _ m(1)] cap_command_data_lookup [OF _ _ m(2)])
qed

lemma write_event_events:
  assumes "events_of E p evs s"
  shows "wp (write_event E ty d)
    (\<lambda>ev t. events_of E p (evs @ [ev]) t \<and> ev_type ev = ty \<and> recorded ty d (ev_data ev))
    (\<lambda>_ t. events_of E p evs t) s"
proof (cases "write_event E ty d s")
  case (Pair r t)
  show ?thesis
  proof (cases r)
    case (Inl e)
    with Pair have w: "write_event E ty d s = (Inl e, t)" by simp
    from write_event_Inl [OF w] have "same_files s t" by (simp add: same_files_def)
    with Pair Inl assms show ?thesis by (simp add: wp_def same_files_events)
  next
    case (Inr ev)
    with Pair have w: "write_event E ty d s = (Inr ev, t)" by simp
    from assms obtain c where c: "texts s (w_path (wr s)) = Some c" "renders E evs c" "numbered evs"
      "w_seq (wr s) = int (length evs)" by (auto simp: events_of_def)
    have t: "wr t = (wr s)\<lparr>w_seq := w_seq (wr s) + 1\<rparr>" using write_event_wr [OF w] by simp
    obtain d' u where "cap_event_data E ty d s = (Inr d', u)" "ev_data ev = d'" "ev_type ev = ty"
      using w by (elim write_event_Inr) auto
    with cap_event_data_recorded assms have "recorded ty d (ev_data ev)" "ev_type ev = ty"
      by (auto simp: events_of_def)
    with write_event_extends [OF w c] assms t Pair Inr show ?thesis
      by (auto simp: wp_def events_of_def)
  qed
qed

section \<open>Phases\<close>

fun rank :: "event_type \<Rightarrow> nat" where
  "rank Run_started = 0"
| "rank Setup_command = 1"
| "rank Verify_command = 3"
| "rank Run_finished = 4"
| "rank _ = 2"

text \<open>
  The events other than the proxy's are in the order of the phases, none beyond phase \<open>k\<close>:
  started, setup, agent, verify, finished.
\<close>

definition in_phase :: "nat \<Rightarrow> trajectory_event list \<Rightarrow> bool" where
  "in_phase k evs \<longleftrightarrow>
     (let ranks = map (\<lambda>e. rank (ev_type e)) (filter (\<lambda>e. ev_type e \<noteq> Egress_attempt) evs)
      in sorted ranks \<and> list_all (\<lambda>n. n \<le> k) ranks)"

lemma in_phase_mono: "in_phase k evs \<Longrightarrow> k \<le> k' \<Longrightarrow> in_phase k' evs"
  by (auto simp: in_phase_def Let_def list_all_iff)

lemma in_phase_snoc:
  "in_phase k evs \<Longrightarrow> ev_type ev = Egress_attempt \<or> rank (ev_type ev) = k \<Longrightarrow> in_phase k (evs @ [ev])"
  by (auto simp: in_phase_def Let_def list_all_iff sorted_append)

definition stage :: "'e env_scheme \<Rightarrow> path \<Rightarrow> nat \<Rightarrow> 'z tstate_scheme \<Rightarrow> bool" where
  "stage E p k s \<longleftrightarrow> (\<exists>evs. events_of E p evs s \<and> in_phase k evs)"

lemma stage_mono: "stage E p k s \<Longrightarrow> k \<le> k' \<Longrightarrow> stage E p k' s"
  by (auto simp: stage_def intro: in_phase_mono)

lemma write_event_stage:
  assumes "ty = Egress_attempt \<or> rank ty = k"
  shows "preserves (stage E p k) (write_event E ty d)"
proof (rule keepsI, rule impI)
  fix s assume "stage E p k s"
  then obtain evs where e: "events_of E p evs s" "in_phase k evs" by (auto simp: stage_def)
  have "wp (write_event E ty d) (\<lambda>_. stage E p k) (\<lambda>_. stage E p k) s"
    by (rule wp_mono [OF write_event_events [OF e(1)]]) (use e(2) assms in \<open>auto simp: stage_def intro: in_phase_snoc\<close>)
  then show "stage E p k (snd (write_event E ty d s))" by (simp add: wp_snd)
qed

lemma log_event_stage [keeps_intros]:
  "ty = Egress_attempt \<or> rank ty = k \<Longrightarrow> preserves (stage E p k) (log_event E ty d)"
  by (auto simp: log_event_def intro!: keeps_intros write_event_stage)

lemma record_egress_stage: "preserves (stage E p k) (record_egress E d)"
  by (auto simp: record_egress_def intro!: keeps_intros write_event_stage)

lemma same_files_stage: "keeps same_files m \<Longrightarrow> preserves (stage E p k) m"
  by (erule keeps_mono) (auto simp: stage_def dest: same_files_events)

lemma same_files_sandbox [simp]: "same_files s (answered c r s)" "same_files s (set_sb f s)"
  by (simp_all add: same_files_def)

lemma docker_same_files [keeps_intros]: "keeps same_files (docker E c)"
  by (rule keepsI) (simp add: docker_def Let_def)

lemma docker_do_same_files [keeps_intros]: "keeps same_files (docker_do E c)"
  by (auto simp: docker_do_def intro!: keeps_intros)

lemma set_sb_same_files [keeps_intros]: "keeps same_files (modify (set_sb f))"
  by (rule keeps_modify) simp

lemma from_env_same_files [keeps_intros]: "keeps same_files (from_env E)"
  by (auto simp: from_env_def intro!: keeps_intros split: if_splits)

lemma teardown_proxy_same_files [keeps_intros]: "keeps same_files (teardown_proxy E)"
  by (auto simp: teardown_proxy_def intro!: keeps_intros split: option.split)

lemma create_container_same_files [keeps_intros]: "keeps same_files (create_container E i)"
  by (auto simp: create_container_def intro!: keeps_intros split: sum.split)

lemma start_proxy_same_files [keeps_intros]: "keeps same_files (start_proxy E)"
  by (auto simp: start_proxy_def Let_def intro!: keeps_intros)

lemma discard_same_files [keeps_intros]: "keeps same_files (discard E c)"
  by (auto simp: discard_def intro!: keeps_intros split: option.split)

lemma start_same_files: "keeps same_files (start E)"
  by (auto simp: start_def start_create_def start_run_def intro!: keeps_intros split: if_splits)

lemma stop_same_files: "keeps same_files (stop E)"
  by (auto simp: stop_def delete_snapshots_def intro!: keeps_intros)

lemma exec_stage: "preserves (stage E p k) (exec E (record_egress E) cmd tmo)"
proof -
  have "preserves (stage E p k) (proxied (record_egress E) ds)" for ds
    by (intro proxied_keeps record_egress_stage) simp_all
  moreover have "preserves (stage E p k) (docker E c)" for c
    by (intro same_files_stage docker_same_files)
  ultimately show ?thesis
    by (auto simp: exec_def Let_def intro!: keeps_intros split: if_splits option.split)
qed

lemma exec_and_record_stage: "rank ty = k \<Longrightarrow> preserves (stage E p k) (exec_and_record E ty cmd)"
  by (auto simp: exec_and_record_def intro!: keeps_intros exec_stage write_event_stage)

lemma run_setup_stage: "preserves (stage E p 1) (run_setup E cmds)"
  by (induction cmds) (auto intro!: keeps_intros exec_and_record_stage)

lemma run_commands_stage: "preserves (stage E p 2) (run_commands E cmds n)"
  by (induction cmds arbitrary: n) (auto intro!: keeps_intros exec_and_record_stage)

lemma run_agent_stage: "preserves (stage E p 2) (run_agent E ag n :: ('z sstate_scheme, nat) py)"
proof (induction ag arbitrary: n)
  case (Agent_exec cmd k)
  show ?case
  proof (rule keepsI, rule impI)
    fix s :: "'z sstate_scheme" assume s: "stage E p 2 s"
    obtain r t where rt: "exec_and_record E Agent_command cmd s = (r, t)" by (cases "exec_and_record E Agent_command cmd s")
    have "stage E p 2 t" using keepsD [OF exec_and_record_stage rt] s by simp
    moreover have "stage E p 2 t \<longrightarrow> stage E p 2 (snd (run_agent E (k r) m t))" for m
      using Agent_exec.IH [OF rangeI, of r m] by (simp add: keeps_def)
    ultimately show "stage E p 2 (snd (run_agent E (Agent_exec cmd k) n s))"
      using rt by (cases r) simp_all
  qed
qed (auto intro!: keeps_intros)

lemma run_verify_stage: "preserves (stage E p 3) (run_verify E cmds fs)"
  by (induction cmds arbitrary: fs) (auto intro!: keeps_intros exec_and_record_stage)

section \<open>A run seals its trajectory\<close>

definition sealed :: "'e env_scheme \<Rightarrow> path \<Rightarrow> dict \<Rightarrow> 'z tstate_scheme \<Rightarrow> bool" where
  "sealed E p d s \<longleftrightarrow> (\<exists>evs ev c. texts s p = Some c \<and> renders E (evs @ [ev]) c
     \<and> numbered (evs @ [ev]) \<and> in_phase 3 evs \<and> ev_type ev = Run_finished \<and> ev_data ev = d)"

lemma finish_wp:
  assumes "stage E p 3 s"
  shows "wp (log_event E Run_finished d) (\<lambda>_. sealed E p d) (\<lambda>_. stage E p 3) s"
proof -
  obtain evs where e: "events_of E p evs s" "in_phase 3 evs" using assms by (auto simp: stage_def)
  show ?thesis
    unfolding log_event_def wp_simps
    by (rule wp_mono [OF write_event_events [OF e(1)]])
      (use e(2) in \<open>auto simp: sealed_def stage_def events_of_def recorded_def CAPPED_EVENT_TYPES_def\<close>)
qed

definition ended :: "'e env_scheme \<Rightarrow> path \<Rightarrow> run_status \<Rightarrow> 'z tstate_scheme \<Rightarrow> bool" where
  "ended E p status s \<longleftrightarrow> (\<exists>reason. sealed E p (finished status reason) s)"

lemma phases_wp:
  assumes "stage E p 0 s"
  shows "wp (run_phases E task ag cmds p cid)
    (\<lambda>res. ended E p (rr_status res)) (\<lambda>_. stage E p 3) s"
proof -
  have start: "wp (log_event E Run_started d) (\<lambda>_. stage E p 0) (\<lambda>_. stage E p 3) s" for d
    by (rule wp_mono [OF wp_preserves [OF log_event_stage assms]]) (auto intro: stage_mono)
  have su: "wp (run_setup E cs) (\<lambda>_. stage E p 1) (\<lambda>_. stage E p 3) t" if "stage E p 0 t" for cs t
    by (rule wp_mono [OF wp_preserves [OF run_setup_stage stage_mono [OF that]]]) (auto intro: stage_mono)
  have ag: "wp (run_agent E a n) (\<lambda>_. stage E p 2) (\<lambda>_. stage E p 3) t" if "stage E p 1 t" for a n t
    by (rule wp_mono [OF wp_preserves [OF run_agent_stage stage_mono [OF that]]]) (auto intro: stage_mono)
  have co: "wp (run_commands E cs n) (\<lambda>_. stage E p 2) (\<lambda>_. stage E p 3) t" if "stage E p 1 t" for cs n t
    by (rule wp_mono [OF wp_preserves [OF run_commands_stage stage_mono [OF that]]]) (auto intro: stage_mono)
  have ve: "wp (run_verify E cs fs) (\<lambda>_. stage E p 3) (\<lambda>_. stage E p 3) t" if "stage E p 2 t" for cs fs t
    by (rule wp_mono [OF wp_preserves [OF run_verify_stage stage_mono [OF that]]]) auto
  have fi: "wp (log_event E Run_finished (finished st reason))
      (\<lambda>_. ended E p st) (\<lambda>_. stage E p 3) t"
    if "stage E p 3 t" for st reason t
    by (rule wp_mono [OF finish_wp [OF that]]) (auto simp: ended_def)
  have mid: "stage E p 1 t \<Longrightarrow> stage E p 3 t" "stage E p 1 t \<Longrightarrow> stage E p 2 t" for t
    by (auto intro: stage_mono)
  show ?thesis
    unfolding run_phases_def wp_simps
    by (rule wp_mono [OF start], rule wp_mono [OF su], assumption)
      (auto simp: wp_simps result_of_def split: option.split prod.split
        intro!: wp_mono [OF ag] wp_mono [OF co] wp_mono [OF ve] wp_mono [OF fi] intro: mid)
qed

lemma body_wp:
  assumes "stage E p 0 s"
  shows "wp (run_body E task ag cmds p) (\<lambda>res. ended E p (rr_status res)) (\<lambda>_. stage E p 3) s"
proof -
  have st: "wp (start E) (\<lambda>_. stage E p 0) (\<lambda>_. stage E p 0) s"
    by (rule wp_preserves [OF same_files_stage [OF start_same_files] assms])
  have fi: "wp (log_event E Run_finished (finished ERROR reason))
      (\<lambda>_. ended E p ERROR) (\<lambda>_. stage E p 3) t" if "stage E p 0 t" for reason t
    by (rule wp_mono [OF finish_wp [OF stage_mono [OF that]]]) (auto simp: ended_def)
  show ?thesis
    unfolding run_body_def wp_simps
    by (rule wp_mono [OF st])
      (auto simp: wp_simps result_of_def split: option.split if_splits
        intro!: wp_mono [OF fi] phases_wp intro: stage_mono)
qed

text \<open>The representation of an exception can be serialised, so the last resort event is written.\<close>

definition repr_dumps :: "'e senv_scheme \<Rightarrow> bool" where
  "repr_dumps E \<longleftrightarrow> (\<forall>n k e. 0 \<le> n \<longrightarrow> (\<exists>l. e_dump E \<lparr>ev_seq = n,
     ev_ts = utcnow_iso (e_clock E k), ev_type = Run_finished,
     ev_data = finished ERROR (lit ''unhandled: '' @ s_exn_repr E e)\<rparr> = Inr l))"

lemma last_resort_wp:
  assumes "stage E p 3 s" "repr_dumps E"
  shows "wp (log_event E Run_finished (finished ERROR (lit ''unhandled: '' @ s_exn_repr E e)))
    (\<lambda>_. ended E p ERROR) (\<lambda>_ _. False) s"
proof -
  let ?d = "finished ERROR (lit ''unhandled: '' @ s_exn_repr E e)"
  have w: "w_fh (wr s)" "\<not> w_closed (wr s)" "0 \<le> w_seq (wr s)"
    using assms(1) by (auto simp: stage_def events_of_def)
  obtain l where "e_dump E \<lparr>ev_seq = w_seq (wr s), ev_ts = utcnow_iso (e_clock E (ticks s)),
      ev_type = Run_finished, ev_data = ?d\<rparr> = Inr l" using w(3) assms(2) unfolding repr_dumps_def by blast
  then have "\<not> isl (fst (write_event E Run_finished ?d s))"
    using w by (auto simp: write_event_def bind_def cap_event_data_def CAPPED_EVENT_TYPES_def
        now_iso_def make_event_def emit_line_def split: option.splits)
  then obtain ev t where w: "write_event E Run_finished ?d s = (Inr ev, t)"
    by (cases "write_event E Run_finished ?d s"; cases "fst (write_event E Run_finished ?d s)") auto
  then have "log_event E Run_finished ?d s = (Inr (), t)" by (simp add: log_event_def bind_def)
  with finish_wp [OF assms(1), of ?d] show ?thesis by (auto simp: wp_def ended_def)
qed

lemma same_files_ended: "same_files s t \<Longrightarrow> ended E p st s \<Longrightarrow> ended E p st t"
  by (simp add: same_files_def ended_def sealed_def)

lemma cleanup_ended: "ended E p st s \<Longrightarrow> wp (seq (stop E) close_writer) (\<lambda>_. ended E p st) (\<lambda>_. ended E p st) s"
proof -
  assume e: "ended E p st s"
  have "wp (stop E) (\<lambda>_. ended E p st) (\<lambda>_. ended E p st) s"
    by (rule wp_mono [OF wp_keeps [OF stop_same_files]]) (auto intro: same_files_ended [OF _ e])
  then show ?thesis
    by (simp add: wp_simps) (erule wp_mono; simp add: close_writer_def wp_simps ended_def sealed_def)
qed

lemma open_new_file:
  assumes "texts s p = None"
  shows "wp (open_writer E) (\<lambda>_. stage E p 0) (\<lambda>_ _. False)
    (s\<lparr>wr := new_writer p (Some d) DEFAULT_MAX_BYTES\<rparr>)"
  using assms by (simp add: wp_def open_writer_new_file new_writer_def stage_def events_of_def
      create_text_def in_phase_def DEFAULT_MAX_BYTES_def set_wr_def)

definition run_path :: "'e env_scheme \<Rightarrow> task \<Rightarrow> root \<Rightarrow> 'z tstate_scheme \<Rightarrow> path" where
  "run_path E task root s = stamp_path task root (utcnow_iso (e_clock E (ticks s)))"

lemma run_wp:
  assumes "repr_dumps E" "texts s (run_path E task root s) = None" "ag = None \<or> cmds = None"
  shows "wp (run E task root ag cmds) (\<lambda>res. ended E (run_path E task root s) (rr_status res))
    (\<lambda>_ t. \<exists>st. ended E (run_path E task root s) st t) s"
proof -
  let ?p = "run_path E task root s"
  let ?u = "s\<lparr>ticks := Suc (ticks s)\<rparr>"
  have o: "wp (open_writer E) (\<lambda>_. stage E ?p 0) (\<lambda>_ _. False)
      (?u\<lparr>wr := new_writer ?p (Some (overflow_dir root)) DEFAULT_MAX_BYTES\<rparr>)"
    by (rule open_new_file) (use assms(2) in simp)
  have b: "wp (run_body E task ag cmds ?p) (\<lambda>res. ended E ?p (rr_status res)) (\<lambda>_. stage E ?p 3)
      (t\<lparr>sb := new_sandbox task True\<rparr>)" if "stage E ?p 0 t" for t
    by (rule body_wp) (use that in \<open>simp add: stage_def events_of_def\<close>)
  have c: "wp (seq (stop E) close_writer) (\<lambda>_. ended E ?p st) (\<lambda>_ t. \<exists>st. ended E ?p st t) t"
    if "ended E ?p st t" for st t
    by (rule wp_mono [OF cleanup_ended [OF that]]) auto
  have f: "wp (seq (stop E) close_writer) (\<lambda>_ t. \<exists>st. ended E ?p st t) (\<lambda>_ t. \<exists>st. ended E ?p st t) t"
    if "ended E ?p st t" for st t
    by (rule wp_mono [OF cleanup_ended [OF that]]) auto
  have l: "wp (seq (log_event E Run_finished (finished ERROR (lit ''unhandled: '' @ s_exn_repr E e)))
      (raise e)) (\<lambda>_ _. False) (\<lambda>_. ended E ?p ERROR) t" if "stage E ?p 3 t" for e t
    unfolding wp_simps by (rule wp_mono [OF last_resort_wp [OF that assms(1)]]) auto
  let ?h = "\<lambda>e. Some (seq (log_event E Run_finished
      (finished ERROR (lit ''unhandled: '' @ s_exn_repr E e))) (raise e))"
  have te: "wp (try_except (run_body E task ag cmds ?p) ?h) (\<lambda>res. ended E ?p (rr_status res))
      (\<lambda>_. ended E ?p ERROR) (t\<lparr>sb := new_sandbox task True\<rparr>)" if "stage E ?p 0 t" for t
    unfolding wp_try_except option.case
    by (rule wp_mono [OF b [OF that]], assumption) (rule wp_mono [OF l]; simp)
  have tf: "wp (try_finally (try_except (run_body E task ag cmds ?p) ?h) (seq (stop E) close_writer))
      (\<lambda>res. ended E ?p (rr_status res)) (\<lambda>_ t. \<exists>st. ended E ?p st t)
      (t\<lparr>sb := new_sandbox task True\<rparr>)" if "stage E ?p 0 t" for t
    unfolding wp_try_finally by (rule wp_mono [OF te [OF that]], erule c, erule f)
  have t: "trajectory_path E task root s = (Inr ?p, ?u)"
    by (simp add: trajectory_path_def bind_def now_iso_def run_path_def)
  have g: "\<not> (ag \<noteq> None \<and> cmds \<noteq> None)" using assms(3) by blast
  show ?thesis
    unfolding run_def if_not_P [OF g] wp_bind wp_def [of "trajectory_path E task root"] t prod.case sum.case
      wp_seq wp_modify
    by (rule wp_mono [OF o], rule tf [unfolded wp_seq]) simp_all
qed

section \<open>The verdict\<close>

text \<open>What the verify events of a trajectory say: each command with its exit code.\<close>

definition verify_outcomes :: "trajectory_event list \<Rightarrow> (jval option \<times> jval option) list" where
  "verify_outcomes evs =
     map (\<lambda>e. (map_of (ev_data e) (lit ''cmd''), map_of (ev_data e) (lit ''exit_code'')))
       (filter (\<lambda>e. ev_type e = Verify_command) evs)"

definition outcomes :: "pystr list \<Rightarrow> int list \<Rightarrow> (jval option \<times> jval option) list" where
  "outcomes cmds codes = map2 (\<lambda>c n. (Some (JStr c), Some (JInt n))) cmds codes"

definition failures_of :: "pystr list \<Rightarrow> int list \<Rightarrow> pystr list" where
  "failures_of cmds codes = map fst (filter (\<lambda>(c, n). n \<noteq> 0) (zip cmds codes))"

definition verified :: "'e env_scheme \<Rightarrow> path \<Rightarrow> pystr list \<Rightarrow> pystr list \<Rightarrow> 'z tstate_scheme \<Rightarrow> bool" where
  "verified E p cmds fs s \<longleftrightarrow> (\<exists>evs codes. events_of E p evs s \<and> length codes = length cmds
     \<and> verify_outcomes evs = outcomes cmds codes \<and> fs = failures_of cmds codes)"

lemma verified_start: "stage E p 2 s \<Longrightarrow> verified E p [] [] s"
proof -
  assume "stage E p 2 s"
  then obtain evs where e: "events_of E p evs s" "in_phase 2 evs" by (auto simp: stage_def)
  then have "filter (\<lambda>e. ev_type e = Verify_command) evs = []"
    by (auto simp: in_phase_def Let_def list_all_iff filter_empty_conv)
  with e(1) show ?thesis
    by (auto simp: verified_def verify_outcomes_def outcomes_def failures_of_def)
qed

lemma write_other_verified:
  "ty \<noteq> Verify_command \<Longrightarrow> preserves (verified E p cmds fs) (write_event E ty d)"
proof (rule keepsI, rule impI)
  fix s assume ty: "ty \<noteq> Verify_command" and "verified E p cmds fs s"
  then obtain evs codes where v: "events_of E p evs s" "length codes = length cmds"
    "verify_outcomes evs = outcomes cmds codes" "fs = failures_of cmds codes"
    by (auto simp: verified_def)
  have "verified E p cmds fs t" if "events_of E p (evs @ [ev]) t" "ev_type ev = ty" for ev t
    unfolding verified_def by (rule exI [of _ "evs @ [ev]"], rule exI [of _ codes])
      (use v ty that in \<open>simp add: verify_outcomes_def\<close>)
  moreover have "verified E p cmds fs t" if "events_of E p evs t" for t
    using v that by (auto simp: verified_def)
  ultimately have "wp (write_event E ty d) (\<lambda>_. verified E p cmds fs) (\<lambda>_. verified E p cmds fs) s"
    by (intro wp_mono [OF write_event_events [OF v(1)]]) auto
  then show "verified E p cmds fs (snd (write_event E ty d s))" by (simp add: wp_snd)
qed

lemma same_files_verified: "keeps same_files m \<Longrightarrow> preserves (verified E p cmds fs) m"
  by (erule keeps_mono) (auto simp: verified_def dest: same_files_events)

lemma wp_any: "wp m (\<lambda>_ _. True) (\<lambda>_ _. True) s"
  by (simp add: wp_def split: prod.split sum.split)

lemma exec_cmd: "wp (exec E cb cmd tmo) (\<lambda>r _. cr_cmd r = cmd) (\<lambda>_ _. True) s"
proof -
  have q: "wp m (\<lambda>_. wp (ret r) (\<lambda>r _. cr_cmd r = cmd) (\<lambda>_ _. True)) (\<lambda>_ _. True) t"
    if "cr_cmd r = cmd" for m :: "('z sstate_scheme, 'c) py" and t r
    by (rule wp_mono [OF wp_any]) (simp_all add: wp_ret that)
  show ?thesis
    by (auto simp: exec_def wp_simps Let_def split: option.split sum.split dresult.split intro!: q)
qed

lemma wp_conj: "wp m Q X s \<Longrightarrow> wp m Q' X' s \<Longrightarrow> wp m (\<lambda>a t. Q a t \<and> Q' a t) (\<lambda>e t. X e t \<and> X' e t) s"
  by (auto simp: wp_def split: prod.splits sum.splits)

lemma exec_verified: "preserves (verified E p cmds fs) (exec E (record_egress E) cmd tmo)"
proof -
  have "preserves (verified E p cmds fs) (record_egress E d)" for d
    by (auto simp: record_egress_def intro!: keeps_intros write_other_verified)
  then have "preserves (verified E p cmds fs) (proxied (record_egress E) ds)" for ds
    by (intro proxied_keeps) simp_all
  moreover have "preserves (verified E p cmds fs) (docker E c)" for c
    by (intro same_files_verified docker_same_files)
  ultimately show ?thesis
    by (auto simp: exec_def Let_def intro!: keeps_intros split: if_splits option.split)
qed

lemma write_verify_verified:
  assumes "verified E p cmds fs s"
  shows "wp (write_event E Verify_command (dump_command r))
    (\<lambda>_. verified E p (cmds @ [cr_cmd r]) (if cr_exit_code r \<noteq> 0 then fs @ [cr_cmd r] else fs)) (\<lambda>_ _. True) s"
proof -
  obtain evs codes where v: "events_of E p evs s" "length codes = length cmds"
    "verify_outcomes evs = outcomes cmds codes" "fs = failures_of cmds codes"
    using assms by (auto simp: verified_def)
  have l: "outcomes (cmds @ [c]) (codes @ [n]) = outcomes cmds codes @ [(Some (JStr c), Some (JInt n))]"
    "failures_of (cmds @ [c]) (codes @ [n]) = failures_of cmds codes @ (if n \<noteq> 0 then [c] else [])" for c n
    using v(2) by (simp_all add: outcomes_def failures_of_def)
  have "verified E p (cmds @ [cr_cmd r]) (if cr_exit_code r \<noteq> 0 then fs @ [cr_cmd r] else fs) t"
    if "events_of E p (evs @ [ev]) t" "ev_type ev = Verify_command"
      "recorded Verify_command (dump_command r) (ev_data ev)" for ev t
    unfolding verified_def
    by (rule exI [of _ "evs @ [ev]"], rule exI [of _ "codes @ [cr_exit_code r]"])
      (use that v in \<open>simp add: l, simp add: verify_outcomes_def recorded_def dump_command_def\<close>)
  then show ?thesis by (intro wp_mono [OF write_event_events [OF v(1)]]) auto
qed

lemma run_verify_verified:
  "verified E p cmds fs s \<Longrightarrow>
     wp (run_verify E rest fs) (verified E p (cmds @ rest)) (\<lambda>_ _. True) s"
proof (induction rest arbitrary: cmds fs s)
  case Nil
  then show ?case by (simp add: wp_simps)
next
  case (Cons cmd rest)
  have "wp (exec E (record_egress E) cmd None) (\<lambda>r t. cr_cmd r = cmd \<and> verified E p cmds fs t)
      (\<lambda>_ _. True) s"
    by (rule wp_mono [OF wp_conj [OF exec_cmd wp_preserves [OF exec_verified Cons.prems]]]) auto
  then have "wp (exec_and_record E Verify_command cmd)
      (\<lambda>r. verified E p (cmds @ [cmd]) (if cr_exit_code r \<noteq> 0 then fs @ [cmd] else fs)) (\<lambda>_ _. True) s"
    unfolding exec_and_record_def wp_bind
    by (rule wp_mono) (auto simp: wp_ret intro!: wp_mono [OF write_verify_verified])
  then show ?case
    unfolding run_verify.simps wp_bind
    by (rule wp_mono) (use Cons.IH [of "cmds @ [cmd]"] in auto)
qed


text \<open>A verdict agrees with the verify events of the trajectory.\<close>

definition judged :: "task \<Rightarrow> run_status \<Rightarrow> trajectory_event list \<Rightarrow> bool" where
  "judged task status evs \<longleftrightarrow> (case status of
     ERROR \<Rightarrow> verify_outcomes evs = []
   | PASSED \<Rightarrow> verify_outcomes evs = map (\<lambda>c. (Some (JStr c), Some (JInt 0))) (tk_verify task)
   | FAILED \<Rightarrow> (\<exists>codes. length codes = length (tk_verify task) \<and> \<not> list_all (\<lambda>n. n = 0) codes
       \<and> verify_outcomes evs = outcomes (tk_verify task) codes))"

definition concluded :: "'e env_scheme \<Rightarrow> path \<Rightarrow> task \<Rightarrow> run_status \<Rightarrow> 'z tstate_scheme \<Rightarrow> bool" where
  "concluded E p task status s \<longleftrightarrow> (\<exists>evs c. texts s p = Some c \<and> renders E evs c \<and> numbered evs
     \<and> judged task status evs)"

lemma failures_of_Nil: "length codes = length cmds \<Longrightarrow> failures_of cmds codes = []
    \<Longrightarrow> outcomes cmds codes = map (\<lambda>c. (Some (JStr c), Some (JInt 0))) cmds"
  by (induction codes cmds rule: list_induct2)
    (auto simp: failures_of_def outcomes_def split: if_splits)

lemma failures_of_Cons: "failures_of cmds codes \<noteq> [] \<Longrightarrow> \<not> list_all (\<lambda>n. n = 0) codes"
  by (auto simp: failures_of_def filter_empty_conv list_all_iff dest: set_zip_rightD)

lemma judged_finished:
  "ev_type ev = Run_finished \<Longrightarrow> judged task st (evs @ [ev]) = judged task st evs"
  by (simp add: judged_def verify_outcomes_def split: run_status.split)

lemma log_finished_concluded:
  assumes "events_of E p evs s" "judged task st evs"
  shows "wp (log_event E Run_finished d) (\<lambda>_. concluded E p task st) (\<lambda>_ _. True) s"
proof -
  have "concluded E p task st t" if "events_of E p (evs @ [ev]) t" "ev_type ev = Run_finished" for ev t
    unfolding concluded_def by (rule exI [of _ "evs @ [ev]"])
      (use that assms(2) in \<open>auto simp: events_of_def judged_finished\<close>)
  then show ?thesis
    unfolding log_event_def wp_simps
    by (intro wp_mono [OF write_event_events [OF assms(1)]]) auto
qed

lemma finish_error:
  assumes "stage E p k s" "k < 3"
  shows "wp (log_event E Run_finished d) (\<lambda>_. concluded E p task ERROR) (\<lambda>_ _. True) s"
proof -
  obtain evs where e: "events_of E p evs s" "in_phase k evs" using assms(1) by (auto simp: stage_def)
  have "verify_outcomes evs = []" using e(2) assms(2)
    by (fastforce simp: in_phase_def Let_def list_all_iff verify_outcomes_def filter_empty_conv)
  with e(1) show ?thesis by (intro log_finished_concluded) (auto simp: judged_def)
qed

lemma finish_verdict:
  assumes "verified E p (tk_verify task) fs s" "verdict q fs n = (st, reason)"
  shows "wp (log_event E Run_finished d) (\<lambda>_. concluded E p task st) (\<lambda>_ _. True) s"
proof -
  obtain evs codes where v: "events_of E p evs s" "length codes = length (tk_verify task)"
    "verify_outcomes evs = outcomes (tk_verify task) codes" "fs = failures_of (tk_verify task) codes"
    using assms(1) by (auto simp: verified_def)
  have "judged task st evs"
    using v assms(2) failures_of_Nil [OF v(2)] failures_of_Cons [of "tk_verify task" codes]
    by (auto simp: judged_def verdict_def split: if_splits)
  with v(1) show ?thesis by (rule log_finished_concluded)
qed

lemma phases_verdict:
  assumes "stage E p 0 s"
  shows "wp (run_phases E task ag cmds p cid)
    (\<lambda>res. concluded E p task (rr_status res)) (\<lambda>_ _. True) s"
proof -
  have start: "wp (log_event E Run_started d) (\<lambda>_. stage E p 0) (\<lambda>_ _. True) s" for d
    by (rule wp_mono [OF wp_preserves [OF log_event_stage assms]]) auto
  have su: "wp (run_setup E cs) (\<lambda>_. stage E p 1) (\<lambda>_ _. True) t" if "stage E p 0 t" for cs t
    by (rule wp_mono [OF wp_preserves [OF run_setup_stage stage_mono [OF that]]]) auto
  have ag: "wp (run_agent E a n) (\<lambda>_. stage E p 2) (\<lambda>_ _. True) t" if "stage E p 1 t" for a n t
    by (rule wp_mono [OF wp_preserves [OF run_agent_stage stage_mono [OF that]]]) auto
  have co: "wp (run_commands E cs n) (\<lambda>_. stage E p 2) (\<lambda>_ _. True) t" if "stage E p 1 t" for cs n t
    by (rule wp_mono [OF wp_preserves [OF run_commands_stage stage_mono [OF that]]]) auto
  have ve: "wp (run_verify E cs []) (\<lambda>fs. verified E p cs fs) (\<lambda>_ _. True) t"
    if "stage E p 2 t" for cs t
    using run_verify_verified [OF verified_start [OF that], of cs] by simp
  have fe: "wp (log_event E Run_finished (finished ERROR d)) (\<lambda>_. concluded E p task ERROR) (\<lambda>_ _. True) t"
    if "stage E p 1 t" for d t
    by (rule finish_error [OF that]) simp
  have mid: "stage E p 1 t \<Longrightarrow> stage E p 2 t" for t by (auto intro: stage_mono)
  show ?thesis
    unfolding run_phases_def wp_simps
    by (rule wp_mono [OF start], rule wp_mono [OF su], assumption)
      (auto simp: wp_simps result_of_def split: option.split prod.split
        intro!: wp_mono [OF ag] wp_mono [OF co] wp_mono [OF ve] wp_mono [OF fe]
          wp_mono [OF finish_verdict] intro: mid)
qed

lemma body_verdict:
  assumes "stage E p 0 s"
  shows "wp (run_body E task ag cmds p) (\<lambda>res. concluded E p task (rr_status res)) (\<lambda>_ _. True) s"
proof -
  have st: "wp (start E) (\<lambda>_. stage E p 0) (\<lambda>_. stage E p 0) s"
    by (rule wp_preserves [OF same_files_stage [OF start_same_files] assms])
  have fe: "wp (log_event E Run_finished (finished ERROR d)) (\<lambda>_. concluded E p task ERROR) (\<lambda>_ _. True) t"
    if "stage E p 0 t" for d t
    by (rule finish_error [OF that]) simp
  show ?thesis
    unfolding run_body_def wp_simps
    by (rule wp_mono [OF st])
      (auto simp: wp_simps result_of_def split: option.split if_splits
        intro!: wp_mono [OF fe] phases_verdict)
qed


lemma cleanup_concluded: "concluded E p task st s
    \<Longrightarrow> wp (seq (stop E) close_writer) (\<lambda>_. concluded E p task st) (\<lambda>_ _. True) s"
proof -
  assume e: "concluded E p task st s"
  have "wp (stop E) (\<lambda>_. concluded E p task st) (\<lambda>_ _. True) s"
    by (rule wp_mono [OF wp_keeps [OF stop_same_files]])
      (use e in \<open>auto simp: same_files_def concluded_def\<close>)
  then show ?thesis
    by (simp add: wp_simps) (erule wp_mono; simp add: close_writer_def wp_simps concluded_def)
qed

lemma run_verdict:
  assumes "texts s (run_path E task root s) = None"
  shows "wp (run E task root ag cmds)
    (\<lambda>res. concluded E (run_path E task root s) task (rr_status res)) (\<lambda>_ _. True) s"
proof (cases "ag = None \<or> cmds = None")
  case True
  let ?p = "run_path E task root s"
  let ?u = "s\<lparr>ticks := Suc (ticks s)\<rparr>"
  let ?h = "\<lambda>e. Some (seq (log_event E Run_finished
      (finished ERROR (lit ''unhandled: '' @ s_exn_repr E e))) (raise e))"
  have o: "wp (open_writer E) (\<lambda>_. stage E ?p 0) (\<lambda>_ _. True)
      (?u\<lparr>wr := new_writer ?p (Some (overflow_dir root)) DEFAULT_MAX_BYTES\<rparr>)"
    by (rule wp_mono [OF open_new_file]) (use assms in auto)
  have h: "wp (seq (log_event E Run_finished d) (raise e)) Q (\<lambda>_ _. True) t" for d e Q t
    unfolding wp_seq by (rule wp_mono [OF wp_any]) (simp_all add: wp_raise)
  have te: "wp (try_except (run_body E task ag cmds ?p) ?h)
      (\<lambda>res. concluded E ?p task (rr_status res)) (\<lambda>_ _. True)
      (t\<lparr>sb := new_sandbox task True\<rparr>)" if "stage E ?p 0 t" for t
    unfolding wp_try_except option.case
    by (rule wp_mono [OF body_verdict]) (use that h in \<open>simp_all add: stage_def events_of_def\<close>)
  have tf: "wp (try_finally (try_except (run_body E task ag cmds ?p) ?h) (seq (stop E) close_writer))
      (\<lambda>res. concluded E ?p task (rr_status res)) (\<lambda>_ _. True)
      (t\<lparr>sb := new_sandbox task True\<rparr>)" if "stage E ?p 0 t" for t
    unfolding wp_try_finally
    by (rule wp_mono [OF te [OF that]], erule cleanup_concluded) (rule wp_any)
  have t: "trajectory_path E task root s = (Inr ?p, ?u)"
    by (simp add: trajectory_path_def bind_def now_iso_def run_path_def)
  have g: "\<not> (ag \<noteq> None \<and> cmds \<noteq> None)" using True by blast
  show ?thesis
    unfolding run_def if_not_P [OF g] wp_bind wp_def [of "trajectory_path E task root"] t prod.case sum.case
      wp_seq wp_modify
    by (rule wp_mono [OF o], rule tf [unfolded wp_seq]) simp_all
qed (simp add: run_def wp_simps)

end
