(* ===== verification/Cli_Stats.thy ===== *)
theory Cli_Stats
  imports Loader Runner "HOL-Library.Multiset"
begin

text \<open>
  \<^verbatim>\<open>cli.py\<close>, the \<^verbatim>\<open>stats\<close> subcommand: every trajectory below a directory becomes one
  summary, and the summaries become a table by task and overall numbers, printed or as JSON.
  Durations are kept in microseconds and medians doubled, so that they stay integers; the
  rounding of the printed floats is a parameter, like the parser of ISO dates.
\<close>

section \<open>The code\<close>

subsection \<open>Text\<close>

definition pad_left :: "nat \<Rightarrow> pystr \<Rightarrow> pystr" where
  "pad_left w s = replicate (w - length s) 32 @ s"

definition pad_right :: "nat \<Rightarrow> pystr \<Rightarrow> pystr" where
  "pad_right w s = s @ replicate (w - length s) 32"

definition nat_text :: "nat \<Rightarrow> pystr" where
  "nat_text n = py_str_int (int n)"

definition clip :: "pystr \<Rightarrow> int \<Rightarrow> pystr" where
  "clip s n = (if int (length s) \<le> n then s
     else (if 3 \<le> n then take (nat (n - 3)) s else take (nat (int (length s) + (n - 3))) s) @ lit ''...'')"

subsection \<open>One trajectory\<close>

text \<open>
  \<open>c_fromiso\<close> is the date parser: whether the result carries an offset, and its microseconds;
  \<open>c_round1\<close> prints \<^verbatim>\<open>round(x, 1)\<close>, given twice x in microseconds.
\<close>

record cenv = env +
  c_quote :: "pystr \<Rightarrow> pystr"
  c_ftrue :: "pystr \<Rightarrow> bool"
  c_fromiso :: "pystr \<Rightarrow> (bool \<times> int) option"
  c_round1 :: "int \<Rightarrow> pystr"

record run_summary =
  rs_path :: path
  rs_task_id :: "pystr option"
  rs_outcome :: pystr
  rs_reason :: pystr
  rs_egress :: "(pystr \<times> int \<times> bool) list"
  rs_cmds :: nat
  rs_thoughts :: nat
  rs_duration :: "int option"

definition parse_ts :: "cenv \<Rightarrow> pystr \<Rightarrow> (bool \<times> int) option" where
  "parse_ts C ts = c_fromiso C (if ends_with ts (lit ''Z'') then butlast ts @ lit ''+00:00'' else ts)"

text \<open>What the loop of \<^verbatim>\<open>_summarize\<close> carries: the summary so far and the two time stamps.\<close>

type_synonym progress = "run_summary \<times> pystr option \<times> pystr option"

definition port_of :: "cenv \<Rightarrow> jval \<Rightarrow> exn + int" where
  "port_of C v = (case v of JNull \<Rightarrow> Inr 0 | JList xs \<Rightarrow> Inr 0 | JObj d \<Rightarrow> Inr 0 | _ \<Rightarrow> py_int C v)"

definition summarize_event :: "cenv \<Rightarrow> trajectory_event \<Rightarrow> progress \<Rightarrow> exn + progress" where
  "summarize_event C e p = (case p of (r, start_ts, end_ts) \<Rightarrow>
     (case ev_type e of
        Run_started \<Rightarrow> Inr ((case map_of (ev_data e) (lit ''task_id'') of
             Some (JStr t) \<Rightarrow> r\<lparr>rs_task_id := Some t\<rparr> | _ \<Rightarrow> r), Some (ev_ts e), end_ts)
      | Agent_command \<Rightarrow> Inr (r\<lparr>rs_cmds := Suc (rs_cmds r)\<rparr>, start_ts, end_ts)
      | Agent_thought \<Rightarrow> Inr (r\<lparr>rs_thoughts := Suc (rs_thoughts r)\<rparr>, start_ts, end_ts)
      | Egress_attempt \<Rightarrow>
          (case port_of C (dict_get (ev_data e) ''port'' (JInt 0)) of
             Inl x \<Rightarrow> Inl x
           | Inr port \<Rightarrow> Inr (r\<lparr>rs_egress := rs_egress r @
                [(py_str (c_quote C) (dict_get (ev_data e) ''host'' (JStr [])), port,
                  truthy (c_ftrue C) (dict_get (ev_data e) ''allowed'' (JBool False)))]\<rparr>, start_ts, end_ts))
      | Run_finished \<Rightarrow> Inr (r\<lparr>rs_outcome := py_str (c_quote C) (dict_get (ev_data e) ''result'' (JStr (lit ''incomplete''))),
             rs_reason := py_str (c_quote C) (dict_get (ev_data e) ''reason'' (JStr []))\<rparr>, start_ts, Some (ev_ts e))
      | _ \<Rightarrow> Inr p))"

fun summarize_events :: "cenv \<Rightarrow> trajectory_event list \<Rightarrow> progress \<Rightarrow> exn + progress" where
  "summarize_events C [] p = Inr p"
| "summarize_events C (e # es) p = (case summarize_event C e p of
     Inl x \<Rightarrow> Inl x | Inr q \<Rightarrow> summarize_events C es q)"

text \<open>Subtracting an aware and a naive date is a TypeError.\<close>

definition duration :: "cenv \<Rightarrow> pystr option \<Rightarrow> pystr option \<Rightarrow> exn + int option" where
  "duration C start_ts end_ts = (case (start_ts, end_ts) of
     (Some a, Some b) \<Rightarrow> (case (parse_ts C a, parse_ts C b) of
        (Some (za, ta), Some (zb, tb)) \<Rightarrow> if za = zb then Inr (Some (tb - ta)) else Inl Type_Error
      | _ \<Rightarrow> Inr None)
   | _ \<Rightarrow> Inr None)"

definition blank_summary :: "path \<Rightarrow> run_summary" where
  "blank_summary p = \<lparr>rs_path = p, rs_task_id = None, rs_outcome = lit ''incomplete'', rs_reason = [],
     rs_egress = [], rs_cmds = 0, rs_thoughts = 0, rs_duration = None\<rparr>"

definition summarize :: "cenv \<Rightarrow> path \<Rightarrow> trajectory_event list \<Rightarrow> exn + run_summary" where
  "summarize C p events = (case summarize_events C events (blank_summary p, None, None) of
     Inl x \<Rightarrow> Inl x
   | Inr (r, start_ts, end_ts) \<Rightarrow> (case duration C start_ts end_ts of
       Inl x \<Rightarrow> Inl x | Inr d \<Rightarrow> Inr (r\<lparr>rs_duration := d\<rparr>)))"

subsection \<open>Aggregates\<close>

definition count_if :: "('a \<Rightarrow> bool) \<Rightarrow> 'a list \<Rightarrow> nat" where
  "count_if P xs = length (filter P xs)"

text \<open>Twice the median.\<close>

definition median2 :: "int list \<Rightarrow> int" where
  "median2 xs = (let s = sort xs; n = length xs in
     if n = 0 then 0 else if odd n then 2 * s ! (n div 2) else s ! (n div 2 - 1) + s ! (n div 2))"

definition percent :: "nat \<Rightarrow> nat \<Rightarrow> nat" where
  "percent part n = (if n = 0 then 0 else part * 100 div n)"

record row =
  ro_task :: pystr
  ro_runs :: nat
  ro_pass :: nat
  ro_fail :: nat
  ro_error :: nat
  ro_rate :: nat
  ro_cmds2 :: int
  ro_dur2 :: int
  ro_thoughts :: nat

definition outcome_is :: "string \<Rightarrow> run_summary \<Rightarrow> bool" where
  "outcome_is name r \<longleftrightarrow> rs_outcome r = lit name"

definition task_key :: "run_summary \<Rightarrow> pystr" where
  "task_key r = (case rs_task_id r of
     Some t \<Rightarrow> if t = [] then lit ''(unknown)'' else t | None \<Rightarrow> lit ''(unknown)'')"

text \<open>\<^verbatim>\<open>by_task.setdefault(key, []).append(r)\<close>.\<close>

fun group_by_task :: "run_summary list \<Rightarrow> (pystr \<times> run_summary list) list \<Rightarrow> (pystr \<times> run_summary list) list" where
  "group_by_task [] grp = grp"
| "group_by_task (r # rs) grp = group_by_task rs (AList.update (task_key r)
     ((case map_of grp (task_key r) of None \<Rightarrow> [] | Some xs \<Rightarrow> xs) @ [r]) grp)"

definition task_row :: "pystr \<Rightarrow> run_summary list \<Rightarrow> row" where
  "task_row tid rs = \<lparr>ro_task = tid, ro_runs = length rs,
     ro_pass = count_if (outcome_is ''passed'') rs, ro_fail = count_if (outcome_is ''failed'') rs,
     ro_error = count_if (outcome_is ''error'') rs,
     ro_rate = percent (count_if (outcome_is ''passed'') rs) (length rs),
     ro_cmds2 = median2 (map (\<lambda>r. int (rs_cmds r)) rs),
     ro_dur2 = median2 (List.map_filter rs_duration rs),
     ro_thoughts = percent (count_if (\<lambda>r. 0 < rs_thoughts r) rs) (length rs)\<rparr>"

definition per_task_rows :: "run_summary list \<Rightarrow> row list" where
  "per_task_rows runs = map (\<lambda>(tid, rs). task_row tid rs) (sort_key fst (group_by_task runs []))"

record metrics =
  me_runs :: nat
  me_passed :: nat
  me_rate :: nat
  me_thoughts :: nat
  me_with_thoughts :: nat
  me_thoughts_pct :: nat
  me_egress :: nat
  me_allowed :: nat
  me_denied :: int

definition overall_metrics :: "run_summary list \<Rightarrow> metrics" where
  "overall_metrics runs =
     (let n = length runs; passed = count_if (outcome_is ''passed'') runs;
          with_thoughts = count_if (\<lambda>r. 0 < rs_thoughts r) runs;
          egress = sum_list (map (\<lambda>r. length (rs_egress r)) runs);
          allowed = sum_list (map (\<lambda>r. count_if (\<lambda>(h, p, a). a) (rs_egress r)) runs)
      in \<lparr>me_runs = n, me_passed = passed, me_rate = percent passed n,
          me_thoughts = sum_list (map rs_thoughts runs), me_with_thoughts = with_thoughts,
          me_thoughts_pct = percent with_thoughts n, me_egress = egress, me_allowed = allowed,
          me_denied = int egress - int allowed\<rparr>)"

text \<open>\<^verbatim>\<open>Counter\<close>, in the order of first occurrence, and its \<^verbatim>\<open>most_common\<close>.\<close>

fun counter :: "pystr list \<Rightarrow> (pystr \<times> nat) list \<Rightarrow> (pystr \<times> nat) list" where
  "counter [] c = c"
| "counter (x # xs) c = counter xs (AList.update x (Suc (case map_of c x of None \<Rightarrow> 0 | Some n \<Rightarrow> n)) c)"

definition most_common :: "nat \<Rightarrow> (pystr \<times> nat) list \<Rightarrow> (pystr \<times> nat) list" where
  "most_common n c = take n (sort_key (\<lambda>kv. - int (snd kv)) c)"

definition failure_reasons :: "run_summary list \<Rightarrow> pystr list" where
  "failure_reasons runs = map rs_reason (filter (\<lambda>r. \<not> outcome_is ''passed'' r \<and> rs_reason r \<noteq> []) runs)"

definition top_failure_reasons :: "run_summary list \<Rightarrow> nat \<Rightarrow> (pystr \<times> nat) list" where
  "top_failure_reasons runs n = most_common n (counter (failure_reasons runs) [])"


subsection \<open>Output\<close>

definition nat_json :: "nat \<Rightarrow> jval" where
  "nat_json n = JInt (int n)"

definition half_text :: "int \<Rightarrow> pystr" where
  "half_text n = py_str_int (n div 2) @ (if n mod 2 = 0 then lit ''.0'' else lit ''.5'')"

definition row_dict :: "cenv \<Rightarrow> row \<Rightarrow> dict" where
  "row_dict C r =
     [(lit ''task_id'', JStr (ro_task r)), (lit ''runs'', nat_json (ro_runs r)),
      (lit ''pass'', nat_json (ro_pass r)), (lit ''fail'', nat_json (ro_fail r)),
      (lit ''error'', nat_json (ro_error r)), (lit ''pass_rate'', nat_json (ro_rate r)),
      (lit ''median_agent_cmds'', JFloat (half_text (ro_cmds2 r))),
      (lit ''median_duration_s'', JFloat (c_round1 C (ro_dur2 r))),
      (lit ''thoughts_pct'', nat_json (ro_thoughts r))]"

definition metrics_dict :: "metrics \<Rightarrow> dict" where
  "metrics_dict m =
     [(lit ''total_runs'', nat_json (me_runs m)), (lit ''total_passed'', nat_json (me_passed m)),
      (lit ''pass_rate'', nat_json (me_rate m)), (lit ''total_thoughts'', nat_json (me_thoughts m)),
      (lit ''runs_with_thoughts'', nat_json (me_with_thoughts m)),
      (lit ''thoughts_pct'', nat_json (me_thoughts_pct m)), (lit ''total_egress'', nat_json (me_egress m)),
      (lit ''egress_allowed'', nat_json (me_allowed m)), (lit ''egress_denied'', JInt (me_denied m))]"

definition reason_dict :: "pystr \<times> nat \<Rightarrow> jval" where
  "reason_dict rc = JObj [(lit ''reason'', JStr (fst rc)), (lit ''count'', nat_json (snd rc))]"

definition empty_stats_payload :: dict where
  "empty_stats_payload =
     [(lit ''total_runs'', JInt 0), (lit ''total_passed'', JInt 0), (lit ''pass_rate'', JInt 0),
      (lit ''total_thoughts'', JInt 0), (lit ''runs_with_thoughts'', JInt 0), (lit ''thoughts_pct'', JInt 0),
      (lit ''total_egress'', JInt 0), (lit ''egress_allowed'', JInt 0), (lit ''egress_denied'', JInt 0),
      (lit ''top_failure_reasons'', JList []), (lit ''by_task'', JList [])]"

definition stats_payload :: "cenv \<Rightarrow> run_summary list \<Rightarrow> dict" where
  "stats_payload C runs = metrics_dict (overall_metrics runs)
     @ [(lit ''top_failure_reasons'', JList (map reason_dict (top_failure_reasons runs 5))),
        (lit ''by_task'', JList (map (\<lambda>r. JObj (row_dict C r)) (per_task_rows runs)))]"

definition outcome_lines :: "run_summary list \<Rightarrow> pystr list" where
  "outcome_lines runs = List.map_filter (\<lambda>name.
     let n = count_if (outcome_is name) runs in
     if n \<noteq> 0 \<or> name = ''passed'' \<or> name = ''failed''
     then Some (lit ''  '' @ pad_right 11 (lit name) @ lit '' '' @ pad_left 4 (nat_text n)) else None)
     [''passed'', ''failed'', ''error'', ''incomplete'']"

definition row_line :: "cenv \<Rightarrow> nat \<Rightarrow> row \<Rightarrow> pystr" where
  "row_line C w r = lit ''  '' @ pad_right w (ro_task r) @ lit ''  '' @ pad_left 4 (nat_text (ro_runs r))
     @ lit ''  '' @ pad_left 4 (nat_text (ro_pass r)) @ lit ''  '' @ pad_left 4 (nat_text (ro_fail r))
     @ lit ''  '' @ pad_left 3 (nat_text (ro_error r)) @ lit ''  '' @ pad_left 9 (nat_text (ro_rate r) @ lit ''%'')
     @ lit ''  '' @ pad_left 8 (half_text (ro_cmds2 r))
     @ lit ''  '' @ pad_left 8 (c_round1 C (ro_dur2 r) @ lit ''s'')
     @ lit ''  '' @ pad_left 9 (nat_text (ro_thoughts r) @ lit ''%'')"

definition header_line :: "nat \<Rightarrow> pystr" where
  "header_line w = lit ''  '' @ pad_right w (lit ''task'') @ lit ''  '' @ pad_left 4 (lit ''runs'')
     @ lit ''  '' @ pad_left 4 (lit ''pass'') @ lit ''  '' @ pad_left 4 (lit ''fail'')
     @ lit ''  '' @ pad_left 3 (lit ''err'') @ lit ''  '' @ pad_left 9 (lit ''pass-rate'')
     @ lit ''  '' @ pad_left 8 (lit ''med-cmds'') @ lit ''  '' @ pad_left 8 (lit ''med-dur'')
     @ lit ''  '' @ pad_left 9 (lit ''thoughts%'')"

definition overall_lines :: "metrics \<Rightarrow> pystr list" where
  "overall_lines m =
     [lit ''Overall:'',
      lit ''  '' @ nat_text (me_runs m) @ lit '' trajectories, '' @ nat_text (me_passed m)
        @ lit '' passed ('' @ nat_text (me_rate m) @ lit ''%)'',
      lit ''  '' @ nat_text (me_thoughts m) @ lit '' agent_thought events across ''
        @ nat_text (me_with_thoughts m) @ lit '' runs ('' @ nat_text (me_thoughts_pct m)
        @ lit ''% of runs had at least one thought)'']
     @ (if me_egress m = 0 then [] else
        [lit ''  '' @ nat_text (me_egress m) @ lit '' egress_attempt events ('' @ nat_text (me_allowed m)
          @ lit '' allowed, '' @ py_str_int (me_denied m) @ lit '' denied)''])
     @ [[]]"

definition print_stats :: "cenv \<Rightarrow> run_summary list \<Rightarrow> pystr list" where
  "print_stats C runs =
     (let rows = per_task_rows runs; tasks = remdups (List.map_filter rs_task_id runs);
          w = foldl max 4 (map (\<lambda>r. length (ro_task r)) rows); failures = top_failure_reasons runs 5
      in [nat_text (length runs) @ lit '' trajectories across '' @ nat_text (length tasks) @ lit '' tasks'', [],
          lit ''By outcome:''] @ outcome_lines runs @ [[], lit ''By task:'', header_line w]
         @ map (row_line C w) rows @ [[]] @ overall_lines (overall_metrics runs)
         @ (if failures = [] then [] else lit ''Top failure reasons:''
              # map (\<lambda>(reason, n). lit ''  '' @ pad_left 2 (nat_text n) @ lit ''  '' @ clip reason 100) failures))"

text \<open>
  The directory the subcommand reads: whether it exists and is one, and the files the walk
  for \<^verbatim>\<open>*.jsonl\<close> yields, with what reading each gives.
\<close>

record corpus =
  co_path :: path
  co_exists :: bool
  co_is_dir :: bool
  co_files :: "(path \<times> (exn + pystr)) list"

definition read_events :: "cenv \<Rightarrow> exn + pystr \<Rightarrow> exn + trajectory_event list" where
  "read_events C content = (case content of Inl e \<Rightarrow> Inl e | Inr c \<Rightarrow> read_trajectory C c)"

text \<open>A file that cannot be read is skipped; a summary that cannot be made is an error.\<close>

fun collect :: "cenv \<Rightarrow> pystr option \<Rightarrow> (path \<times> (exn + pystr)) list \<Rightarrow> exn + run_summary list" where
  "collect C only [] = Inr []"
| "collect C only ((p, content) # fs) = (case read_events C content of
     Inl e \<Rightarrow> collect C only fs
   | Inr events \<Rightarrow> (case summarize C p events of
       Inl x \<Rightarrow> Inl x
     | Inr r \<Rightarrow> (case collect C only fs of
         Inl x \<Rightarrow> Inl x
       | Inr rs \<Rightarrow> Inr (if only \<noteq> None \<and> only \<noteq> Some [] \<and> rs_task_id r \<noteq> only then rs else r # rs))))"

definition cmd_stats :: "cenv \<Rightarrow> corpus \<Rightarrow> pystr option \<Rightarrow> bool \<Rightarrow> exn + int \<times> pystr list" where
  "cmd_stats C d only json =
     (if \<not> co_exists d \<or> \<not> co_is_dir d then Inr (2, [])
      else if co_files d = [] then Inr (0, if json then [json_dumps 0 (JObj empty_stats_payload)]
             else [lit ''no .jsonl files found under '' @ path_str (co_path d)])
      else (case collect C only (sort_key fst (co_files d)) of
        Inl x \<Rightarrow> Inl x
      | Inr runs \<Rightarrow> Inr (0,
          if runs = [] then (if json then [json_dumps 0 (JObj empty_stats_payload)] else [lit ''no trajectories matched.''])
          else if json then [json_dumps 0 (JObj (stats_payload C runs))] else print_stats C runs)))"


section \<open>The rows\<close>

lemma map_of_group:
  "map_of (group_by_task rs grp) k =
     (let ys = filter (\<lambda>r. task_key r = k) rs in
      case map_of grp k of None \<Rightarrow> if ys = [] then None else Some ys | Some xs \<Rightarrow> Some (xs @ ys))"
  by (induction rs grp rule: group_by_task.induct)
    (auto simp: Let_def update_conv' split: option.split)

lemma distinct_group: "distinct (map fst grp) \<Longrightarrow> distinct (map fst (group_by_task rs grp))"
  by (induction rs grp rule: group_by_task.induct) (simp_all add: distinct_update)

definition runs_of :: "run_summary list \<Rightarrow> pystr \<Rightarrow> run_summary list" where
  "runs_of runs t = filter (\<lambda>r. task_key r = t) runs"

lemma group_all:
  "group_by_task runs [] = map (\<lambda>t. (t, runs_of runs t)) (map fst (group_by_task runs []))"
proof -
  have d: "distinct (map fst (group_by_task runs []))" by (rule distinct_group) simp
  have "xs = runs_of runs t" if "(t, xs) \<in> set (group_by_task runs [])" for t xs
  proof -
    have "map_of (group_by_task runs []) t = Some xs" using d that by simp
    then show ?thesis by (simp add: map_of_group Let_def runs_of_def split: if_splits)
  qed
  then show ?thesis by (auto simp: comp_def intro!: map_idI [symmetric])
qed

lemma group_keys: "set (map fst (group_by_task runs [])) = set (map task_key runs)"
proof -
  have "k \<in> set (map fst (group_by_task runs [])) \<longleftrightarrow> k \<in> set (map task_key runs)" for k
  proof -
    have "k \<in> set (map fst (group_by_task runs [])) \<longleftrightarrow> map_of (group_by_task runs []) k \<noteq> None"
      by (simp add: map_of_eq_None_iff)
    then show ?thesis by (auto simp: map_of_group Let_def filter_empty_conv)
  qed
  then show ?thesis by blast
qed

lemma sort_key_map: "sort_key f (map g xs) = map g (sort_key (\<lambda>x. f (g x)) xs)"
proof -
  have "insort_key f (g x) (map g ys) = map g (insort_key (\<lambda>x. f (g x)) x ys)" for x ys
    by (induction ys) auto
  then show ?thesis by (induction xs) auto
qed

lemma per_task_rows_spec:
  "per_task_rows runs = map (\<lambda>t. task_row t (runs_of runs t)) (sort (remdups (map task_key runs)))"
proof -
  let ?ks = "map fst (group_by_task runs [])"
  have d: "distinct ?ks" by (rule distinct_group) simp
  have "sort ?ks = sort (remdups (map task_key runs))"
    using sorted_list_of_set_sort_remdups [of ?ks] sorted_list_of_set_sort_remdups [of "map task_key runs"]
      group_keys [of runs] d by (simp add: distinct_remdups_id)
  moreover have "sort_key fst (group_by_task runs []) = map (\<lambda>t. (t, runs_of runs t)) (sort ?ks)"
    by (subst group_all) (simp only: sort_key_map fst_conv)
  ultimately show ?thesis by (simp add: per_task_rows_def)
qed

lemma count_by_task:
  "sum_list (map (\<lambda>t. count_if P (runs_of runs t)) (sort (remdups (map task_key runs)))) = count_if P runs"
proof -
  let ?T = "set (map task_key runs)"
  have "(\<Sum>t\<in>S. length (filter P (runs_of rs t))) = length (filter P rs)"
    if "finite S" "set (map task_key rs) \<subseteq> S" for S rs
    using that
  proof (induction rs)
    case (Cons r rs)
    have "(\<Sum>t\<in>S. length (filter P (runs_of (r # rs) t)))
        = (\<Sum>t\<in>S. (if task_key r = t then (if P r then 1 else 0) else 0) + length (filter P (runs_of rs t)))"
      by (intro sum.cong) (auto simp: runs_of_def)
    also have "\<dots> = (if P r then 1 else 0) + length (filter P rs)"
      using Cons by (simp add: sum.distrib)
    finally show ?case by simp
  qed (simp add: runs_of_def)
  from this [of ?T runs] show ?thesis
    by (simp add: count_if_def sum_list_distinct_conv_sum_set distinct_sort)
qed

lemma percent_le: "part \<le> n \<Longrightarrow> percent part n \<le> 100"
proof (cases "n = 0")
  case False
  assume "part \<le> n"
  then have "part * 100 div n \<le> 100 * n div n" by (intro div_le_mono) simp
  with False show ?thesis by (simp add: percent_def)
qed (simp add: percent_def)

lemma count_if_le: "count_if P xs \<le> length xs"
  by (simp add: count_if_def)

section \<open>The most frequent reasons\<close>

lemma map_of_counter:
  "map_of (counter xs c) x = (case map_of c x of
     None \<Rightarrow> if x \<in> set xs then Some (count_list xs x) else None | Some n \<Rightarrow> Some (n + count_list xs x))"
  by (induction xs c rule: counter.induct) (auto simp: update_conv' split: option.split)

lemma distinct_counter: "distinct (map fst c) \<Longrightarrow> distinct (map fst (counter xs c))"
  by (induction xs c rule: counter.induct) (simp_all add: distinct_update)

lemma counter_entry: "(x, n) \<in> set (counter xs []) \<longleftrightarrow> x \<in> set xs \<and> n = count_list xs x"
proof -
  have "(x, n) \<in> set (counter xs []) \<longleftrightarrow> map_of (counter xs []) x = Some n"
    using distinct_counter [of "[]" xs] by simp
  also have "\<dots> \<longleftrightarrow> x \<in> set xs \<and> n = count_list xs x" by (auto simp: map_of_counter)
  finally show ?thesis .
qed

lemma most_common_spec:
  fixes xs n
  defines "best \<equiv> most_common n (counter xs [])"
  shows "distinct (map fst best)" "sorted (rev (map snd best))" "length best \<le> n"
    and "\<And>x c. (x, c) \<in> set best \<Longrightarrow> x \<in> set xs \<and> c = count_list xs x"
    and "\<And>x c y. (x, c) \<in> set best \<Longrightarrow> y \<in> set xs \<Longrightarrow> y \<notin> fst ` set best \<Longrightarrow> count_list xs y \<le> c"
proof -
  let ?s = "sort_key (\<lambda>kv. - int (snd kv)) (counter xs [])"
  have t: "best = take n ?s" by (simp add: best_def most_common_def)
  have d: "distinct (map fst ?s)"
  proof -
    have "mset (map fst ?s) = mset (map fst (counter xs []))" by simp
    then show ?thesis using distinct_counter [of "[]" xs] by (metis distinct.simps(1) list.simps(8) mset_eq_imp_distinct_iff)
  qed
  then show "distinct (map fst best)" by (simp add: t take_map [symmetric] distinct_take)
  have so: "sorted (map (\<lambda>kv. - int (snd kv)) ?s)" by (rule sorted_sort_key)
  then have "sorted (map (\<lambda>kv. - int (snd kv)) best)" by (simp add: t take_map [symmetric] sorted_wrt_take)
  then show "sorted (rev (map snd best))"
    by (auto simp: sorted_iff_nth_mono rev_nth)
  show "length best \<le> n" by (simp add: t)
  show "x \<in> set xs \<and> c = count_list xs x" if "(x, c) \<in> set best" for x c
    using that counter_entry [of x c xs] by (auto simp: t dest: in_set_takeD)
  fix x c y assume x: "(x, c) \<in> set best" and y: "y \<in> set xs" "y \<notin> fst ` set best"
  have "(y, count_list xs y) \<in> set ?s" using y(1) counter_entry [of y "count_list xs y" xs] by simp
  then have "(y, count_list xs y) \<in> set (drop n ?s)"
    using y(2) by (metis Un_iff append_take_drop_id fst_conv image_eqI set_append t)
  moreover have "sorted (map (\<lambda>kv. - int (snd kv)) (take n ?s @ drop n ?s))" using so by simp
  ultimately show "count_list xs y \<le> c"
    using x unfolding t map_append sorted_append by fastforce
qed


lemma count_if_disjoint:
  "(\<And>x. \<not> (P x \<and> Q x)) \<Longrightarrow> count_if P xs + count_if Q xs = count_if (\<lambda>x. P x \<or> Q x) xs"
  unfolding count_if_def by (induction xs) auto

lemma outcomes_bounded:
  "count_if (outcome_is ''passed'') rs + count_if (outcome_is ''failed'') rs
     + count_if (outcome_is ''error'') rs \<le> length rs"
proof -
  have a: "count_if (outcome_is ''passed'') rs + count_if (outcome_is ''failed'') rs
      = count_if (\<lambda>r. outcome_is ''passed'' r \<or> outcome_is ''failed'' r) rs"
    by (rule count_if_disjoint) (simp add: outcome_is_def)
  have b: "count_if (\<lambda>r. outcome_is ''passed'' r \<or> outcome_is ''failed'' r) rs + count_if (outcome_is ''error'') rs
      = count_if (\<lambda>r. (outcome_is ''passed'' r \<or> outcome_is ''failed'' r) \<or> outcome_is ''error'' r) rs"
    by (rule count_if_disjoint) (auto simp: outcome_is_def)
  show ?thesis unfolding a b by (rule count_if_le)
qed

lemma row_bounded:
  "0 < length rs \<Longrightarrow> (let r = task_row t rs in 0 < ro_runs r \<and> ro_pass r + ro_fail r + ro_error r \<le> ro_runs r
     \<and> ro_rate r \<le> 100 \<and> ro_thoughts r \<le> 100)"
  by (simp add: task_row_def outcomes_bounded percent_le [OF count_if_le])

lemma allowed_le: "sum_list (map (\<lambda>r. count_if P (rs_egress r)) runs) \<le> sum_list (map (\<lambda>r. length (rs_egress r)) runs)"
  by (induction runs) (auto intro: add_mono count_if_le)

section \<open>Properties\<close>

text \<open>C28. The table has one row for each task that has a trajectory, in the order of the task names, and
  the row of a task is computed from exactly its runs, in the order they were read; runs
  without a task name are together under one name.\<close>

theorem stats_rows_by_task:
  "per_task_rows runs = map (\<lambda>t. task_row t (filter (\<lambda>r. task_key r = t) runs))
     (sort (remdups (map task_key runs)))"
  using per_task_rows_spec by (simp add: runs_of_def)

text \<open>C27. The table and the overall numbers agree: the runs and the passes of the rows add up to the
  totals, no row counts more outcomes than it has runs, every rate is between 0 and 100, and
  the allowed and the denied connection attempts add up to all of them.\<close>

theorem stats_totals_agree:
  "sum_list (map ro_runs (per_task_rows runs)) = me_runs (overall_metrics runs)
   \<and> sum_list (map ro_pass (per_task_rows runs)) = me_passed (overall_metrics runs)
   \<and> list_all (\<lambda>r. 0 < ro_runs r \<and> ro_pass r + ro_fail r + ro_error r \<le> ro_runs r
        \<and> ro_rate r \<le> 100 \<and> ro_thoughts r \<le> 100) (per_task_rows runs)
   \<and> me_rate (overall_metrics runs) \<le> 100 \<and> me_thoughts_pct (overall_metrics runs) \<le> 100
   \<and> 0 \<le> me_denied (overall_metrics runs)
   \<and> int (me_allowed (overall_metrics runs)) + me_denied (overall_metrics runs) = int (me_egress (overall_metrics runs))"
proof -
  let ?ts = "sort (remdups (map task_key runs))"
  have "sum_list (map ro_runs (per_task_rows runs)) = sum_list (map (\<lambda>t. count_if (\<lambda>_. True) (runs_of runs t)) ?ts)"
    by (simp add: per_task_rows_spec comp_def task_row_def count_if_def)
  moreover have "sum_list (map ro_pass (per_task_rows runs))
      = sum_list (map (\<lambda>t. count_if (outcome_is ''passed'') (runs_of runs t)) ?ts)"
    by (simp add: per_task_rows_spec comp_def task_row_def)
  moreover have "0 < length (runs_of runs t)" if "t \<in> set ?ts" for t
    using that by (auto simp: runs_of_def filter_empty_conv)
  then have "list_all (\<lambda>r. 0 < ro_runs r \<and> ro_pass r + ro_fail r + ro_error r \<le> ro_runs r
        \<and> ro_rate r \<le> 100 \<and> ro_thoughts r \<le> 100) (per_task_rows runs)"
    using row_bounded unfolding per_task_rows_spec list_all_iff Let_def by fastforce
  ultimately show ?thesis
    using count_by_task [of "\<lambda>_. True" runs] count_by_task [of "outcome_is ''passed''" runs] allowed_le [of _ runs]
    by (auto simp: overall_metrics_def Let_def count_if_def intro: percent_le)
qed

text \<open>The failure reasons shown are the most frequent ones: at most n different reasons of runs that
  did not pass, each with the number of such runs, in falling order of that number, and no
  reason left out is more frequent than one that is shown.\<close>

theorem stats_top_reasons:
  "(let reasons = failure_reasons runs; best = top_failure_reasons runs n in
     distinct (map fst best) \<and> length best \<le> n \<and> sorted (rev (map snd best))
     \<and> list_all (\<lambda>(reason, c). reason \<in> set reasons \<and> c = count_list reasons reason
         \<and> list_all (\<lambda>other. other \<in> fst ` set best \<or> count_list reasons other \<le> c) reasons) best)"
  using most_common_spec [where xs = "failure_reasons runs" and n = n]
  by (fastforce simp: top_failure_reasons_def Let_def list_all_iff)

end
