(* ===== verification/Cli_Batch.thy ===== *)
theory Cli_Batch
  imports Cli_Stats
begin

text \<open>
  \<^verbatim>\<open>cli.py\<close>, the \<^verbatim>\<open>batch\<close> subcommand: the agent is run once for every selected task, and
  what it left in the trajectories directory decides the status. The agent is a program of its
  own, so it is a parameter: what it does to the files and how it ends. Times are microseconds.
\<close>

section \<open>The code\<close>

record bfile =
  bf_path :: path
  bf_mtime :: int
  bf_content :: "exn + pystr"

datatype agent_end = Ended | Timed_out | Failed exn

record bstate =
  b_files :: "bfile list"
  b_logs :: "path list"
  b_ticks :: nat
  b_stdout :: "pystr list"
  b_stderr :: "pystr list"

text \<open>
  \<open>b_agent\<close> gets the shell command, its time limit, the moment and the files; \<open>b_wall\<close> and
  \<open>b_mono\<close> are the two clocks, \<open>b_stamp\<close> prints local time, and \<open>b_open_log\<close> says which log
  file cannot be opened.
\<close>

record batch_env =
  b_cli :: cenv
  b_root :: path
  b_wall :: "nat \<Rightarrow> int"
  b_mono :: "nat \<Rightarrow> int"
  b_stamp :: "int \<Rightarrow> pystr"
  b_round0 :: "int \<Rightarrow> pystr"
  b_open_log :: "path \<Rightarrow> exn option"
  b_agent :: "pystr \<Rightarrow> int \<Rightarrow> nat \<Rightarrow> bfile list \<Rightarrow> agent_end \<times> bfile list"

record batch_args =
  ba_tasks :: taskdir
  ba_tasks_dir :: path
  ba_is_dir :: bool
  ba_filter_tag :: "pystr option"
  ba_filter_difficulty :: "pystr option"
  ba_agent :: pystr
  ba_timeout :: int
  ba_skip_window :: int
  ba_json :: bool

record batch_result =
  br_task :: pystr
  br_status :: pystr
  br_duration :: int
  br_trajectory :: "path option"

definition TIMEOUT :: pystr where "TIMEOUT = lit ''timeout''"

definition NO_TRAJECTORY :: pystr where "NO_TRAJECTORY = lit ''no-trajectory''"

definition SKIPPED :: pystr where "SKIPPED = lit ''skipped''"

definition MCP_TOOL_NAMES :: "string list" where
  "MCP_TOOL_NAMES = [''list_tasks'', ''describe_task'', ''start_task'', ''exec'', ''note'',
     ''read_trajectory'', ''fork'', ''revert'', ''finish_task'', ''abort_task'']"

definition print_line :: "pystr \<Rightarrow> (bstate, unit) py" where
  "print_line l = modify (\<lambda>s. s\<lparr>b_stdout := b_stdout s @ [l]\<rparr>)"

definition print_err :: "pystr \<Rightarrow> (bstate, unit) py" where
  "print_err l = modify (\<lambda>s. s\<lparr>b_stderr := b_stderr s @ [l]\<rparr>)"

definition tick :: "(nat \<Rightarrow> int) \<Rightarrow> (bstate, int) py" where
  "tick clock = bind (get b_ticks) (\<lambda>n. seq (modify (\<lambda>s. s\<lparr>b_ticks := Suc n\<rparr>)) (ret (clock n)))"

text \<open>\<^verbatim>\<open>str.replace\<close> for a pattern that is not empty, and \<^verbatim>\<open>str.rstrip\<close>.\<close>

fun replace_all :: "pystr \<Rightarrow> pystr \<Rightarrow> pystr \<Rightarrow> pystr" where
  "replace_all pat new [] = []"
| "replace_all pat new (c # s) = (if take (length pat) (c # s) = pat
     then new @ replace_all pat new (drop (length pat - 1) s) else c # replace_all pat new s)"

definition py_rstrip :: "pystr \<Rightarrow> pystr" where
  "py_rstrip s = rev (dropWhile py_space (rev s))"

subsection \<open>Looking at the trajectories\<close>

definition task_dir :: "batch_env \<Rightarrow> pystr \<Rightarrow> path" where
  "task_dir B task_id = b_root B @ [lit ''trajectories'', task_id]"

definition jsonl_in :: "path \<Rightarrow> bfile list \<Rightarrow> bfile list" where
  "jsonl_in d fs = filter (\<lambda>f. butlast (bf_path f) = d \<and> named ''.jsonl'' (bf_path f)) fs"

fun newest :: "bfile \<Rightarrow> bfile list \<Rightarrow> bfile" where
  "newest f [] = f"
| "newest f (g # gs) = newest (if bf_mtime f < bf_mtime g then g else f) gs"

definition latest_new_trajectory :: "batch_env \<Rightarrow> pystr \<Rightarrow> int \<Rightarrow> bfile list \<Rightarrow> bfile option" where
  "latest_new_trajectory B task_id since fs =
     (case filter (\<lambda>f. since - 1000000 \<le> bf_mtime f) (jsonl_in (task_dir B task_id) fs) of
        [] \<Rightarrow> None | f # gs \<Rightarrow> Some (newest f gs))"

definition passed_file :: "batch_env \<Rightarrow> bfile \<Rightarrow> bool" where
  "passed_file B f = (case read_events (b_cli B) (bf_content f) of
     Inl e \<Rightarrow> False
   | Inr events \<Rightarrow> events \<noteq> [] \<and> ev_type (last events) = Run_finished
       \<and> map_of (ev_data (last events)) (lit ''result'') = Some (JStr (lit ''passed'')))"

definition recent_passed_trajectory :: "batch_env \<Rightarrow> pystr \<Rightarrow> int \<Rightarrow> (bstate, path option) py" where
  "recent_passed_trajectory B task_id window =
     (if window \<le> 0 then ret None
      else bind (get (\<lambda>s. sort_key (\<lambda>f. - bf_mtime f) (jsonl_in (task_dir B task_id) (b_files s)))) (\<lambda>files.
        case files of
          [] \<Rightarrow> ret None
        | f # _ \<Rightarrow> bind (tick (b_wall B)) (\<lambda>now.
            if window < now - bf_mtime f then ret None
            else ret (if passed_file B f then Some (bf_path f) else None))))"

definition outcome_from_trajectory :: "batch_env \<Rightarrow> bfile \<Rightarrow> pystr" where
  "outcome_from_trajectory B f = (case read_events (b_cli B) (bf_content f) of
     Inl e \<Rightarrow> lit ''incomplete''
   | Inr events \<Rightarrow> if events \<noteq> [] \<and> ev_type (last events) = Run_finished
       then py_str (c_quote (b_cli B)) (dict_get (ev_data (last events)) ''result'' (JStr (lit ''incomplete'')))
       else lit ''incomplete'')"

subsection \<open>One task\<close>

definition open_batch_log :: "batch_env \<Rightarrow> pystr \<Rightarrow> int \<Rightarrow> (bstate, unit) py" where
  "open_batch_log B task_id started_at =
     (let p = b_root B @ [lit ''batch-logs'', task_id @ lit ''-'' @ b_stamp B started_at @ lit ''.log''] in
      case b_open_log B p of
        Some e \<Rightarrow> raise e
      | None \<Rightarrow> modify (\<lambda>s. s\<lparr>b_logs := List.insert p (b_logs s)\<rparr>))"

definition spawn :: "batch_env \<Rightarrow> pystr \<Rightarrow> int \<Rightarrow> (bstate, agent_end) py" where
  "spawn B cmd timeout = (\<lambda>s. case b_agent B cmd timeout (b_ticks s) (b_files s) of
     (r, fs) \<Rightarrow> (Inr r, s\<lparr>b_files := fs\<rparr>))"

definition agent_outcome :: "batch_env \<Rightarrow> pystr \<Rightarrow> int \<Rightarrow> agent_end \<Rightarrow> (bstate, pystr \<times> path option) py" where
  "agent_outcome B task_id started_at r = (case r of
     Timed_out \<Rightarrow> bind (get (\<lambda>s. latest_new_trajectory B task_id started_at (b_files s)))
       (\<lambda>traj. ret (TIMEOUT, map_option bf_path traj))
   | Failed (File_Not_Found m) \<Rightarrow>
       seq (print_err ([10] @ lit ''  error: could not start agent: '' @ m)) (ret (TIMEOUT, None))
   | Failed e \<Rightarrow> raise e
   | Ended \<Rightarrow> bind (get (\<lambda>s. latest_new_trajectory B task_id started_at (b_files s)))
       (\<lambda>traj. ret (case traj of None \<Rightarrow> (NO_TRAJECTORY, None)
         | Some f \<Rightarrow> (outcome_from_trajectory B f, Some (bf_path f)))))"

definition run_one :: "batch_env \<Rightarrow> pystr \<Rightarrow> pystr \<Rightarrow> int \<Rightarrow> int \<Rightarrow> (bstate, pystr \<times> path option) py" where
  "run_one B agent_cmd task_id timeout started_at =
     seq (open_batch_log B task_id started_at)
       (bind (spawn B agent_cmd timeout) (agent_outcome B task_id started_at))"

subsection \<open>Output\<close>

definition relative_to :: "path \<Rightarrow> path \<Rightarrow> pystr" where
  "relative_to p root = (if take (length root) p = root
     then (if length p = length root then lit ''.'' else py_join (lit ''/'') (drop (length root) p))
     else path_str p)"

definition emit_row :: "batch_env \<Rightarrow> nat \<Rightarrow> nat \<Rightarrow> nat \<Rightarrow> batch_result \<Rightarrow> (bstate, unit) py" where
  "emit_row B i n w r = print_line (py_rstrip
     (lit ''['' @ pad_left (length (nat_text n)) (nat_text i) @ lit ''/'' @ nat_text n @ lit ''] ''
      @ pad_right w (br_task r) @ lit '' '' @ pad_right 13 (br_status r) @ lit '' ''
      @ pad_left 4 (b_round0 B (br_duration r)) @ lit ''s ''
      @ (case br_trajectory r of None \<Rightarrow> [] | Some p \<Rightarrow> relative_to p (b_root B))))"

definition failed_ids :: "batch_result list \<Rightarrow> pystr list" where
  "failed_ids rs = map br_task (filter (\<lambda>r. br_status r = lit ''failed'') rs)"

definition status_count :: "batch_result list \<Rightarrow> pystr \<Rightarrow> nat" where
  "status_count rs st = (case map_of (counter (map br_status rs) []) st of None \<Rightarrow> 0 | Some n \<Rightarrow> n)"

definition batch_aggregate :: "batch_env \<Rightarrow> batch_result list \<Rightarrow> int \<Rightarrow> pystr list" where
  "batch_aggregate B rs clock =
     [[], lit ''Batch summary: '' @ nat_text (length rs) @ lit '' tasks ('' @ b_round0 B clock @ lit ''s wall clock)'']
     @ map (\<lambda>st. lit ''  '' @ pad_right 14 st @ lit '' '' @ pad_left 3 (nat_text (status_count rs st)))
         (filter (\<lambda>st. status_count rs st \<noteq> 0)
           [lit ''passed'', lit ''failed'', lit ''error'', lit ''incomplete'', TIMEOUT, NO_TRAJECTORY, SKIPPED])
     @ (if rs = [] then [] else [lit ''  pass-rate:     ''
          @ nat_text ((status_count rs (lit ''passed'') + status_count rs SKIPPED) * 100 div length rs) @ lit ''%''])
     @ (if failed_ids rs = [] then [] else [lit ''  failed:        '' @ py_join (lit '', '') (failed_ids rs)])"

definition result_dict :: "batch_env \<Rightarrow> batch_result \<Rightarrow> jval" where
  "result_dict B r = JObj
     [(lit ''task_id'', JStr (br_task r)), (lit ''status'', JStr (br_status r)),
      (lit ''duration_s'', JFloat (c_round1 (b_cli B) (2 * br_duration r))),
      (lit ''trajectory'', opt_str (map_option path_str (br_trajectory r)))]"

definition batch_payload :: "batch_env \<Rightarrow> batch_result list \<Rightarrow> int \<Rightarrow> dict" where
  "batch_payload B rs clock =
     [(lit ''total_tasks'', nat_json (length rs)),
      (lit ''by_status'', JObj (map (\<lambda>kv. (fst kv, nat_json (snd kv))) (counter (map br_status rs) []))),
      (lit ''wall_clock_s'', JFloat (c_round1 (b_cli B) (2 * clock))),
      (lit ''failed_task_ids'', str_list (failed_ids rs)),
      (lit ''tasks'', JList (map (result_dict B) rs))]"

definition empty_batch_payload :: dict where
  "empty_batch_payload =
     [(lit ''total_tasks'', JInt 0), (lit ''by_status'', JObj []), (lit ''wall_clock_s'', JFloat (lit ''0.0'')),
      (lit ''failed_task_ids'', JList []), (lit ''tasks'', JList [])]"

subsection \<open>The batch\<close>

definition is_given :: "pystr option \<Rightarrow> bool" where
  "is_given x \<longleftrightarrow> x \<noteq> None \<and> x \<noteq> Some []"

definition select_tasks :: "batch_args \<Rightarrow> task list \<Rightarrow> task list" where
  "select_tasks A ts = (let us = if is_given (ba_filter_tag A)
       then filter (\<lambda>t. the (ba_filter_tag A) \<in> set (tk_tags t)) ts else ts
     in if is_given (ba_filter_difficulty A)
       then filter (\<lambda>t. tk_difficulty t = ba_filter_difficulty A) us else us)"

definition agent_template :: "batch_args \<Rightarrow> pystr" where
  "agent_template A = replace_all (lit ''{tools}'')
     (py_join (lit '','') (map (\<lambda>name. lit ''mcp__prehnite__'' @ lit name) MCP_TOOL_NAMES)) (ba_agent A)"

definition agent_run :: "batch_env \<Rightarrow> batch_args \<Rightarrow> pystr \<Rightarrow> (bstate, batch_result) py" where
  "agent_run B A i = bind (tick (b_wall B)) (\<lambda>started_at. bind (tick (b_mono B)) (\<lambda>start_mono.
     bind (run_one B (replace_all (lit ''{task_id}'') i (agent_template A)) i (ba_timeout A) started_at) (\<lambda>r.
       bind (tick (b_mono B)) (\<lambda>now. ret \<lparr>br_task = i, br_status = fst r,
         br_duration = now - start_mono, br_trajectory = snd r\<rparr>))))"

definition run_task :: "batch_env \<Rightarrow> batch_args \<Rightarrow> pystr \<Rightarrow> (bstate, batch_result) py" where
  "run_task B A i = bind (recent_passed_trajectory B i (ba_skip_window A)) (\<lambda>recent.
     case recent of
       Some p \<Rightarrow> ret \<lparr>br_task = i, br_status = SKIPPED, br_duration = 0, br_trajectory = Some p\<rparr>
     | None \<Rightarrow> agent_run B A i)"

fun run_tasks :: "batch_env \<Rightarrow> batch_args \<Rightarrow> nat \<Rightarrow> nat \<Rightarrow> nat \<Rightarrow> task list \<Rightarrow> batch_result list
    \<Rightarrow> (bstate, batch_result list) py" where
  "run_tasks B A n w i [] results = ret results"
| "run_tasks B A n w i (t # ts) results = bind (run_task B A (tk_id t)) (\<lambda>r.
     seq (if ba_json A then ret () else emit_row B i n w r)
       (run_tasks B A n w (Suc i) ts (results @ [r])))"

definition batch_exit :: "batch_result list \<Rightarrow> int" where
  "batch_exit rs = (if list_all (\<lambda>r. br_status r = lit ''passed'' \<or> br_status r = SKIPPED) rs then 0 else 1)"

definition print_lines :: "pystr list \<Rightarrow> (bstate, unit) py" where
  "print_lines ls = for_each ls print_line"

definition cmd_batch :: "batch_env \<Rightarrow> batch_args \<Rightarrow> (bstate, int) py" where
  "cmd_batch B A =
     (if \<not> ba_is_dir A
      then seq (print_err (lit ''error: tasks dir not found: '' @ path_str (ba_tasks_dir A))) (ret 2)
      else case discover_tasks (ba_tasks A) (ba_tasks_dir A) of
        Inl e \<Rightarrow> seq (print_err (lit ''error: could not load tasks from '' @ path_str (ba_tasks_dir A)
            @ lit '': '' @ exn_text e)) (ret 2)
      | Inr discovered \<Rightarrow> (let tasks = select_tasks A discovered in
          if tasks = [] then seq (print_line (if ba_json A then json_dumps 0 (JObj empty_batch_payload)
             else lit ''no tasks to run.'')) (ret 0)
          else bind (tick (b_mono B)) (\<lambda>batch_started.
            bind (run_tasks B A (length tasks) (Max (set (map (\<lambda>t. length (tk_id t)) tasks))) 1 tasks [])
              (\<lambda>results. bind (tick (b_mono B)) (\<lambda>now.
                seq (print_lines (if ba_json A then [json_dumps 0 (JObj (batch_payload B results (now - batch_started)))]
                     else batch_aggregate B results (now - batch_started)))
                  (ret (batch_exit results)))))))"

section \<open>What an exit code of 0 means\<close>

text \<open>
  A trajectory file is sealed with a result when its last event is a \<^verbatim>\<open>run_finished\<close> that
  reports it. What is asked of the agent: it leaves the sealed trajectories it finds alone.
\<close>

definition sealed_as :: "batch_env \<Rightarrow> bfile \<Rightarrow> pystr \<Rightarrow> bool" where
  "sealed_as B f r \<longleftrightarrow> (case read_events (b_cli B) (bf_content f) of
     Inl e \<Rightarrow> False
   | Inr events \<Rightarrow> events \<noteq> [] \<and> ev_type (last events) = Run_finished
       \<and> py_str (c_quote (b_cli B)) (dict_get (ev_data (last events)) ''result'' (JStr (lit ''incomplete''))) = r)"

definition agent_keeps :: "batch_env \<Rightarrow> bool" where
  "agent_keeps B \<longleftrightarrow> (\<forall>cmd limit n fs f r. f \<in> set fs \<longrightarrow> sealed_as B f r \<longrightarrow> f \<in> set (snd (b_agent B cmd limit n fs)))"

definition kept :: "batch_env \<Rightarrow> bstate \<Rightarrow> bstate \<Rightarrow> bool" where
  "kept B s t \<longleftrightarrow> b_ticks s \<le> b_ticks t
     \<and> (\<forall>f r. f \<in> set (b_files s) \<longrightarrow> sealed_as B f r \<longrightarrow> f \<in> set (b_files t))"

text \<open>The file that backs a task: in its directory, sealed as a success, and not too old.\<close>

definition backs :: "batch_env \<Rightarrow> int \<Rightarrow> nat \<Rightarrow> pystr \<Rightarrow> bfile \<Rightarrow> bool" where
  "backs B window n task_id f \<longleftrightarrow> butlast (bf_path f) = task_dir B task_id
     \<and> (sealed_as B f (lit ''passed'') \<or> sealed_as B f SKIPPED)
     \<and> (\<exists>m\<ge>n. b_wall B m - max 1000000 window \<le> bf_mtime f)"

lemma kept_refl [simp]: "reflp (kept B)"
  and kept_trans [simp]: "transp (kept B)"
  by (auto simp: reflp_def transp_def kept_def)

lemma kept_step: "kept B s t \<Longrightarrow> kept B t u \<Longrightarrow> kept B s u"
  using kept_trans by (rule transpD)

lemma kept_same: "b_files t = b_files s \<Longrightarrow> b_ticks s \<le> b_ticks t \<Longrightarrow> kept B s t"
  by (simp add: kept_def)

lemma newest_in: "newest f gs \<in> set (f # gs)"
  by (induction f gs rule: newest.induct) (auto split: if_splits)

lemma latest_new_trajectoryD:
  assumes "latest_new_trajectory B i since fs = Some f"
  shows "f \<in> set fs \<and> butlast (bf_path f) = task_dir B i \<and> since - 1000000 \<le> bf_mtime f"
proof -
  obtain g gs where g: "filter (\<lambda>f. since - 1000000 \<le> bf_mtime f) (jsonl_in (task_dir B i) fs) = g # gs"
    "f = newest g gs" using assms by (auto simp: latest_new_trajectory_def split: list.splits)
  then have "f \<in> set (filter (\<lambda>f. since - 1000000 \<le> bf_mtime f) (jsonl_in (task_dir B i) fs))"
    using newest_in [of g gs] by (simp only:)
  then show ?thesis by (simp add: jsonl_in_def)
qed

lemma outcome_sealed: "outcome_from_trajectory B f = r \<Longrightarrow> r \<noteq> lit ''incomplete'' \<Longrightarrow> sealed_as B f r"
  by (auto simp: outcome_from_trajectory_def sealed_as_def split: sum.splits if_splits)

lemma passed_sealed: "passed_file B f \<Longrightarrow> sealed_as B f (lit ''passed'')"
  by (auto simp: passed_file_def sealed_as_def dict_get_def split: sum.splits)

text \<open>What a task's result promises, and what one task does to the files.\<close>

definition promised :: "batch_env \<Rightarrow> batch_args \<Rightarrow> nat \<Rightarrow> batch_result \<Rightarrow> bstate \<Rightarrow> bool" where
  "promised B A n r t \<longleftrightarrow> (br_status r = lit ''passed'' \<or> br_status r = SKIPPED \<longrightarrow>
     (\<exists>f\<in>set (b_files t). backs B (ba_skip_window A) n (br_task r) f))"

lemma promised_kept: "promised B A n r s \<Longrightarrow> kept B s t \<Longrightarrow> promised B A n r t"
  unfolding promised_def backs_def kept_def by blast

lemma promised_earlier: "promised B A m r s \<Longrightarrow> n \<le> m \<Longrightarrow> promised B A n r s"
  unfolding promised_def backs_def by (meson le_trans)

lemma wp_tick [wp_simps]: "wp (tick c) Q X s \<longleftrightarrow> Q (c (b_ticks s)) (s\<lparr>b_ticks := Suc (b_ticks s)\<rparr>)"
  by (simp add: tick_def wp_simps)

lemma recent_wp:
  "wp (recent_passed_trajectory B i window) (\<lambda>p t. b_files t = b_files s \<and> b_ticks s \<le> b_ticks t
      \<and> (p \<noteq> None \<longrightarrow> (\<exists>f\<in>set (b_files t). backs B window (b_ticks s) i f))) (\<lambda>_ _. True) s"
proof -
  have "f \<in> set (b_files s) \<and> butlast (bf_path f) = task_dir B i"
    if "sort_key (\<lambda>f. - bf_mtime f) (jsonl_in (task_dir B i) (b_files s)) = f # fs" for f fs
  proof -
    have "f \<in> set (sort_key (\<lambda>f. - bf_mtime f) (jsonl_in (task_dir B i) (b_files s)))" by (simp only: that) simp
    then show ?thesis by (simp add: jsonl_in_def)
  qed
  then show ?thesis
    by (auto simp: recent_passed_trajectory_def wp_simps backs_def not_less split: list.split
        intro!: bexI exI [of _ "b_ticks s"] dest: passed_sealed)
qed

lemma wp_print [wp_simps]:
  "wp (print_line l) Q X s \<longleftrightarrow> Q () (s\<lparr>b_stdout := b_stdout s @ [l]\<rparr>)"
  "wp (print_err l) Q X s \<longleftrightarrow> Q () (s\<lparr>b_stderr := b_stderr s @ [l]\<rparr>)"
  by (simp_all add: print_line_def print_err_def wp_simps)

lemma spawn_wp:
  "agent_keeps B \<Longrightarrow> wp (spawn B cmd limit) (\<lambda>_. kept B s) (\<lambda>_ _. True) s"
  by (auto simp: spawn_def wp_def kept_def agent_keeps_def split: prod.split)
    (metis snd_conv)

lemma open_batch_log_wp: "wp (open_batch_log B i started) (\<lambda>_. kept B s) (\<lambda>_ _. True) s"
  by (auto simp: open_batch_log_def Let_def wp_simps split: option.split intro: kept_same)

lemma traj_backs:
  assumes "latest_new_trajectory B i (b_wall B n) fs = Some f"
    and "outcome_from_trajectory B f = lit ''passed'' \<or> outcome_from_trajectory B f = SKIPPED"
  shows "f \<in> set fs \<and> backs B window n i f"
proof -
  have "sealed_as B f (lit ''passed'') \<or> sealed_as B f SKIPPED"
    using assms(2) outcome_sealed [of B f] by (auto simp: SKIPPED_def lit_def)
  moreover have "b_wall B n - max 1000000 window \<le> bf_mtime f"
    using latest_new_trajectoryD [OF assms(1)] by (auto simp: max_def)
  ultimately show ?thesis using latest_new_trajectoryD [OF assms(1)] by (auto simp: backs_def)
qed

lemma agent_outcome_wp:
  "wp (agent_outcome B i (b_wall B n) r) (\<lambda>r t. kept B s t
    \<and> (fst r = lit ''passed'' \<or> fst r = SKIPPED \<longrightarrow> (\<exists>f\<in>set (b_files t). backs B window n i f))) (\<lambda>_ _. True) s"
proof -
  have d: "TIMEOUT \<noteq> lit ''passed''" "TIMEOUT \<noteq> SKIPPED" "NO_TRAJECTORY \<noteq> lit ''passed''" "NO_TRAJECTORY \<noteq> SKIPPED"
    by (simp_all add: TIMEOUT_def NO_TRAJECTORY_def SKIPPED_def lit_def)
  have "kept B s s" "\<And>x. kept B s (s\<lparr>b_stderr := x\<rparr>)" by (simp_all add: kept_def)
  with d traj_backs [of B i n "b_files s" _ window] show ?thesis
    by (cases r) (auto simp: agent_outcome_def wp_simps split: exn.split option.split)
qed

lemma run_one_wp:
  assumes "agent_keeps B"
  shows "wp (run_one B cmd i limit (b_wall B n)) (\<lambda>r t. kept B s t
    \<and> (fst r = lit ''passed'' \<or> fst r = SKIPPED \<longrightarrow> (\<exists>f\<in>set (b_files t). backs B window n i f))) (\<lambda>_ _. True) s"
proof -
  show ?thesis unfolding run_one_def wp_seq wp_bind
  proof (rule wp_mono [OF open_batch_log_wp], rule wp_mono [OF spawn_wp [OF assms]])
    fix a r t assume "kept B s a" "kept B a t"
    then have "kept B s t" by (rule kept_step)
    then show "wp (agent_outcome B i (b_wall B n) r) (\<lambda>r t. kept B s t
      \<and> (fst r = lit ''passed'' \<or> fst r = SKIPPED \<longrightarrow> (\<exists>f\<in>set (b_files t). backs B window n i f))) (\<lambda>_ _. True) t"
      by (intro wp_mono [OF agent_outcome_wp [of B i n r t window]]) (auto intro: kept_step)
  qed simp_all
qed

lemma agent_run_wp:
  assumes "agent_keeps B"
  shows "wp (agent_run B A i) (\<lambda>r t. kept B s t \<and> br_task r = i \<and> promised B A (b_ticks s) r t) (\<lambda>_ _. True) s"
proof -
  let ?u = "s\<lparr>b_ticks := Suc (Suc (b_ticks s))\<rparr> :: bstate"
  have ku: "kept B s ?u" by (simp add: kept_def)
  have k: "kept B s u" if "kept B ?u u" for u using ku that by (rule kept_step)
  show ?thesis unfolding agent_run_def
    by (simp add: wp_simps) (rule wp_mono [OF run_one_wp [OF assms, where window = "ba_skip_window A"]],
      auto simp: promised_def kept_def wp_simps dest: k)
qed

lemma run_task_wp:
  assumes "agent_keeps B"
  shows "wp (run_task B A i) (\<lambda>r t. kept B s t \<and> br_task r = i \<and> promised B A (b_ticks s) r t) (\<lambda>_ _. True) s"
  unfolding run_task_def wp_bind
proof (rule wp_mono [OF recent_wp])
  fix p :: "path option" and t :: bstate
  assume t: "b_files t = b_files s \<and> b_ticks s \<le> b_ticks t
    \<and> (p \<noteq> None \<longrightarrow> (\<exists>f\<in>set (b_files t). backs B (ba_skip_window A) (b_ticks s) i f))"
  then have kt: "kept B s t" by (simp add: kept_def)
  show "wp (case p of
       Some p \<Rightarrow> ret \<lparr>br_task = i, br_status = SKIPPED, br_duration = 0, br_trajectory = Some p\<rparr>
     | None \<Rightarrow> agent_run B A i)
     (\<lambda>r u. kept B s u \<and> br_task r = i \<and> promised B A (b_ticks s) r u) (\<lambda>_ _. True) t"
  proof (cases p)
    case None
    have "kept B s u \<and> br_task r = i \<and> promised B A (b_ticks s) r u"
      if "kept B t u \<and> br_task r = i \<and> promised B A (b_ticks t) r u" for r u
      using that kt t by (blast intro: kept_step promised_earlier)
    then have "wp (agent_run B A i) (\<lambda>r u. kept B s u \<and> br_task r = i \<and> promised B A (b_ticks s) r u) (\<lambda>_ _. True) t"
      by (intro wp_mono [OF agent_run_wp [OF assms, of A i t]]) auto
    with None show ?thesis by simp
  next
    case (Some q)
    then show ?thesis using t kt by (auto simp: wp_simps promised_def)
  qed
qed simp

text \<open>The loop: every result so far keeps its promise, and they are the tasks in order.\<close>

lemma run_tasks_wp:
  assumes "agent_keeps B"
  shows "list_all (\<lambda>r. promised B A n r s) rs \<Longrightarrow> n \<le> b_ticks s \<Longrightarrow>
    wp (run_tasks B A l w i ts rs) (\<lambda>out t. map br_task out = map br_task rs @ map tk_id ts
      \<and> list_all (\<lambda>r. promised B A n r t) out) (\<lambda>_ _. True) s"
proof (induction ts arbitrary: i rs s)
  case (Cons task ts)
  show ?case unfolding run_tasks.simps wp_bind
  proof (rule wp_mono [OF run_task_wp [OF assms]])
    fix r and t :: bstate
    assume r: "kept B s t \<and> br_task r = tk_id task \<and> promised B A (b_ticks s) r t"
    have ps: "list_all (\<lambda>r. promised B A n r u) (rs @ [r])" if "b_files u = b_files t" "b_ticks u = b_ticks t" for u
    proof -
      have "kept B s u" using r that by (simp add: kept_def)
      then have "list_all (\<lambda>r. promised B A n r u) rs"
        using Cons.prems(1) by (auto simp: list_all_iff intro: promised_kept)
      moreover have "promised B A n r t" using r Cons.prems(2) by (blast intro: promised_earlier)
      ultimately show ?thesis using that by (simp add: promised_def)
    qed
    have n: "n \<le> b_ticks t" using r Cons.prems(2) by (simp add: kept_def)
    have ih: "wp (run_tasks B A l w (Suc i) ts (rs @ [r])) (\<lambda>out v. map br_task out
        = map br_task rs @ tk_id task # map tk_id ts \<and> list_all (\<lambda>r. promised B A n r v) out) (\<lambda>_ _. True) u"
      if "b_files u = b_files t" "b_ticks u = b_ticks t" for u
      using Cons.IH [OF ps [OF that], of "Suc i"] n r that by simp
    show "wp (seq (if ba_json A then ret () else emit_row B i l w r) (run_tasks B A l w (Suc i) ts (rs @ [r])))
      (\<lambda>out v. map br_task out = map br_task rs @ map tk_id (task # ts)
        \<and> list_all (\<lambda>r. promised B A n r v) out) (\<lambda>_ _. True) t"
      by (simp add: emit_row_def wp_simps ih)
  qed simp
qed (simp add: wp_simps)

lemma print_lines_wp: "wp (print_lines ls) (\<lambda>_ t. b_files t = b_files s) (\<lambda>_ _. True) s"
  unfolding print_lines_def by (rule wp_for_each) (simp_all add: wp_simps)

lemma cmd_batch_wp:
  assumes "agent_keeps B" "discover_tasks (ba_tasks A) (ba_tasks_dir A) = Inr ts" "ba_is_dir A"
  shows "wp (cmd_batch B A) (\<lambda>code t. code = 0 \<longrightarrow> list_all (\<lambda>task.
      list_ex (backs B (ba_skip_window A) (b_ticks s) (tk_id task)) (b_files t)) (select_tasks A ts)) (\<lambda>_ _. True) s"
proof (cases "select_tasks A ts = []")
  case True
  with assms show ?thesis by (simp add: cmd_batch_def wp_simps)
next
  case False
  have e: "batch_exit rs = 0 \<longrightarrow> list_all (\<lambda>task.
      list_ex (backs B (ba_skip_window A) (b_ticks s) (tk_id task)) (b_files u)) (select_tasks A ts)"
    if "map br_task rs = map tk_id (select_tasks A ts)" "list_all (\<lambda>r. promised B A (b_ticks s) r t) rs"
      "b_files u = b_files t" for rs and t u :: bstate
  proof
    assume "batch_exit rs = 0"
    then have "list_all (\<lambda>r. list_ex (backs B (ba_skip_window A) (b_ticks s) (br_task r)) (b_files u)) rs"
      using that(2,3) by (auto simp: batch_exit_def promised_def list_all_iff list_ex_iff split: if_splits)
    then have "list_all (\<lambda>i. list_ex (backs B (ba_skip_window A) (b_ticks s) i) (b_files u)) (map br_task rs)"
      by (simp add: list.pred_map comp_def)
    then show "list_all (\<lambda>task. list_ex (backs B (ba_skip_window A) (b_ticks s) (tk_id task)) (b_files u)) (select_tasks A ts)"
      unfolding that(1) by (simp add: list.pred_map comp_def)
  qed
  have rt: "wp (run_tasks B A l w 1 (select_tasks A ts) []) (\<lambda>out t. map br_task out = map tk_id (select_tasks A ts)
      \<and> list_all (\<lambda>r. promised B A (b_ticks s) r t) out) (\<lambda>_ _. True) (s\<lparr>b_ticks := Suc (b_ticks s)\<rparr>)" for l w
    using run_tasks_wp [OF assms(1), of A "b_ticks s" "s\<lparr>b_ticks := Suc (b_ticks s)\<rparr>" "[]"] by simp
  show ?thesis using assms(2,3) False
    by (simp add: cmd_batch_def Let_def wp_simps del: One_nat_def)
      (rule wp_mono [OF rt], auto intro!: wp_mono [OF print_lines_wp] simp: e wp_simps)
qed

section \<open>A small instance\<close>

text \<open>An agent that leaves one passing trajectory for the task it is called for.\<close>

definition batch_event :: trajectory_event where
  "batch_event = \<lparr>ev_seq = 0, ev_ts = [], ev_type = Run_finished, ev_data = finished PASSED []\<rparr>"

definition batch_cli :: cenv where
  "batch_cli = env.extend (demo_env\<lparr>e_loads := (\<lambda>_. Some (dump_event batch_event))\<rparr>)
     \<lparr>c_quote = (\<lambda>s. s), c_ftrue = (\<lambda>_. True), c_fromiso = (\<lambda>_. None), c_round1 = (\<lambda>_. lit ''0.0'')\<rparr>"

definition batch_file :: "pystr \<Rightarrow> bfile" where
  "batch_file i = \<lparr>bf_path = [lit ''trajectories'', i, lit ''r.jsonl''], bf_mtime = 0, bf_content = Inr (lit ''{}'')\<rparr>"

definition batch_demo :: batch_env where
  "batch_demo = \<lparr>b_cli = batch_cli, b_root = [], b_wall = (\<lambda>_. 0), b_mono = (\<lambda>_. 0), b_stamp = (\<lambda>_. []),
     b_round0 = (\<lambda>_. [48]), b_open_log = (\<lambda>_. None),
     b_agent = (\<lambda>cmd limit n fs. (Ended, fs @ [batch_file cmd]))\<rparr>"

definition batch_demo_args :: batch_args where
  "batch_demo_args = \<lparr>ba_tasks = demo_dir, ba_tasks_dir = [], ba_is_dir = True, ba_filter_tag = None,
     ba_filter_difficulty = None, ba_agent = lit ''{task_id}'', ba_timeout = 600, ba_skip_window = 0, ba_json = True\<rparr>"

definition batch_demo_start :: bstate where
  "batch_demo_start = \<lparr>b_files = [], b_logs = [], b_ticks = 0, b_stdout = [], b_stderr = []\<rparr>"

definition batch_demo_tasks :: "task list" where
  "batch_demo_tasks = [demo_loaded (lit ''a''), demo_loaded (lit ''b'')]"

lemma batch_demo_discover: "discover_tasks demo_dir [] = Inr batch_demo_tasks"
  by (simp add: discover_tasks_def demo_files demo_load demo_loaded_def batch_demo_tasks_def)
    (simp add: demo_dir_def)

lemma batch_demo_sel [simp]:
  "b_cli batch_demo = batch_cli" "b_root batch_demo = []" "b_open_log batch_demo = (\<lambda>_. None)"
  "b_wall batch_demo = (\<lambda>_. 0)" "b_mono batch_demo = (\<lambda>_. 0)"
  "b_agent batch_demo = (\<lambda>cmd limit n fs. (Ended, fs @ [batch_file cmd]))"
  by (simp_all add: batch_demo_def)

lemma batch_demo_read: "read_events batch_cli (bf_content (batch_file i)) = Inr [batch_event]"
proof -
  have "validate_event (e_lax_int batch_cli) (dump_event batch_event) = Inr batch_event"
    by (rule validate_dump_event) (simp_all add: batch_cli_def env.defs demo_env_def batch_event_def)
  then show ?thesis
    by (simp add: read_events_def read_trajectory_def batch_file_def stripped_lines_def py_strip_def
        py_space_def lit_def batch_cli_def env.defs)
qed

lemma batch_demo_outcome: "outcome_from_trajectory batch_demo (batch_file i) = lit ''passed''"
  by (simp add: outcome_from_trajectory_def batch_demo_read batch_event_def finished_def dict_get_def)

lemma batch_demo_keeps: "agent_keeps batch_demo"
  by (simp add: agent_keeps_def)

lemma batch_demo_jsonl: "jsonl_in (task_dir batch_demo i) [] = []"
  "jsonl_in (task_dir batch_demo i) (batch_file j # fs)
     = (if i = j then [batch_file j] else []) @ jsonl_in (task_dir batch_demo i) fs"
  by (auto simp: jsonl_in_def task_dir_def batch_file_def named_def ends_with_def lit_def)

lemma batch_demo_run:
  "fst (cmd_batch batch_demo batch_demo_args batch_demo_start) = Inr 0"
proof -
  have t: "agent_template batch_demo_args = lit ''{task_id}''"
    by (simp add: agent_template_def batch_demo_args_def lit_def)
  have c: "replace_all (lit ''{task_id}'') i (lit ''{task_id}'') = i" for i
    by (simp add: lit_def)
  have m: "bf_mtime (batch_file i) = 0" for i by (simp add: batch_file_def)
  have r: "run_one batch_demo i i limit 0 s = (Inr (lit ''passed'', Some (bf_path (batch_file i))),
      s\<lparr>b_logs := List.insert [lit ''batch-logs'', i @ lit ''-'' @ b_stamp batch_demo 0 @ lit ''.log''] (b_logs s),
        b_files := b_files s @ [batch_file i]\<rparr>)"
    if "jsonl_in (task_dir batch_demo i) (b_files s) = []" for i limit s
  proof -
    have "jsonl_in d (fs @ gs) = jsonl_in d fs @ jsonl_in d gs" for d fs gs by (simp add: jsonl_in_def)
    with that have "latest_new_trajectory batch_demo i 0 (b_files s @ [batch_file i]) = Some (batch_file i)"
      by (simp add: latest_new_trajectory_def batch_demo_jsonl m)
    then show ?thesis
      by (simp add: run_one_def open_batch_log_def Let_def spawn_def agent_outcome_def bind_def
          batch_demo_outcome)
  qed
  have s: "select_tasks batch_demo_args batch_demo_tasks = batch_demo_tasks"
    by (simp add: select_tasks_def batch_demo_args_def is_given_def)
  have a: "ba_is_dir batch_demo_args" "ba_tasks batch_demo_args = demo_dir" "ba_tasks_dir batch_demo_args = []"
    "ba_json batch_demo_args" "ba_skip_window batch_demo_args = 0"
    by (simp_all add: batch_demo_args_def)
  have ne: "batch_demo_tasks \<noteq> []" by (simp add: batch_demo_tasks_def)
  have ids: "tk_id (demo_loaded i) = i" for i by (simp add: demo_loaded_def)
  show ?thesis
    by (simp add: cmd_batch_def a batch_demo_discover s ne Let_def tick_def bind_def)
      (simp add: batch_demo_tasks_def run_task_def recent_passed_trajectory_def agent_run_def a t c ids r
        tick_def bind_def seq_def batch_demo_start_def batch_demo_jsonl batch_exit_def print_lines_def print_line_def lit_def)
qed

section \<open>Properties\<close>

text \<open>C11. When a batch exits with 0, every selected task is backed by a trajectory of that task which is
  on disk at the end: its last event is a run_finished with result \<^verbatim>\<open>passed\<close> (or the
  literal \<^verbatim>\<open>skipped\<close>, which the code takes for a success too), and it was written no
  earlier than the skip window, or the second of slop, before some reading of the clock during
  this batch. The agents are only asked to leave finished trajectories alone.\<close>

theorem batch_success_is_backed:
  assumes "agent_keeps B" "ba_is_dir A" "discover_tasks (ba_tasks A) (ba_tasks_dir A) = Inr ts"
    and "cmd_batch B A s = (Inr 0, t)"
  shows "list_all (\<lambda>task. list_ex (\<lambda>f. butlast (bf_path f) = task_dir B (tk_id task)
      \<and> (sealed_as B f (lit ''passed'') \<or> sealed_as B f SKIPPED)
      \<and> (\<exists>n\<ge>b_ticks s. b_wall B n - max 1000000 (ba_skip_window A) \<le> bf_mtime f)) (b_files t))
    (select_tasks A ts)"
  using wp_Inr [OF cmd_batch_wp [OF assms(1,3,2)] assms(4)] by (simp add: backs_def [abs_def])

theorem batch_success_is_backed_witness:
  "list_all (\<lambda>task. list_ex (\<lambda>f. butlast (bf_path f) = task_dir batch_demo (tk_id task)
      \<and> (sealed_as batch_demo f (lit ''passed'') \<or> sealed_as batch_demo f SKIPPED)
      \<and> (\<exists>n. b_ticks batch_demo_start \<le> n
          \<and> b_wall batch_demo n - max 1000000 (ba_skip_window batch_demo_args) \<le> bf_mtime f))
      (b_files (snd (cmd_batch batch_demo batch_demo_args batch_demo_start))))
    (select_tasks batch_demo_args batch_demo_tasks)"
proof (rule batch_success_is_backed)
  show "cmd_batch batch_demo batch_demo_args batch_demo_start
      = (Inr 0, snd (cmd_batch batch_demo batch_demo_args batch_demo_start))"
    using batch_demo_run by (cases "cmd_batch batch_demo batch_demo_args batch_demo_start") simp
qed (simp_all add: batch_demo_keeps batch_demo_args_def batch_demo_discover)

end
