(* ===== verification/Branches.thy ===== *)
theory Branches
  imports Schemas
begin

text \<open>
  The branch filter of \<^verbatim>\<open>mcp_server.py\<close> (\<^verbatim>\<open>_filter_branch\<close>): which events of a trajectory
  with forks and reverts belong to the current timeline or to one snapshot's branch. The
  reference it is measured against is the history of the container itself: a fork saves
  the history, a revert goes back to a saved one.
\<close>

section \<open>The code\<close>

definition snap_id :: "(pystr \<Rightarrow> pystr) \<Rightarrow> trajectory_event \<Rightarrow> pystr" where
  "snap_id quote e = py_str quote (dict_get (ev_data e) ''snapshot_id'' (JStr []))"

definition note_fork ::
    "(pystr \<Rightarrow> pystr) \<Rightarrow> trajectory_event \<Rightarrow> (pystr \<times> int) list \<Rightarrow> (pystr \<times> int) list" where
  "note_fork quote e fork_seq =
     (if ev_type e = Session_forked \<and> snap_id quote e \<noteq> []
      then AList.update (snap_id quote e) (ev_seq e) fork_seq else fork_seq)"

definition fork_table :: "(pystr \<Rightarrow> pystr) \<Rightarrow> trajectory_event list \<Rightarrow> (pystr \<times> int) list" where
  "fork_table quote events = fold (note_fork quote) events []"

definition note_revert ::
    "(pystr \<Rightarrow> pystr) \<Rightarrow> (pystr \<times> int) list \<Rightarrow> trajectory_event
       \<Rightarrow> (pystr \<times> int \<times> int) list \<Rightarrow> (pystr \<times> int \<times> int) list" where
  "note_revert quote fork_seq e discarded =
     (if ev_type e = Session_reverted
      then (case map_of fork_seq (snap_id quote e) of
              Some f \<Rightarrow> AList.update (snap_id quote e) (f, ev_seq e) discarded
            | None \<Rightarrow> discarded)
      else discarded)"

definition discard_table ::
    "(pystr \<Rightarrow> pystr) \<Rightarrow> (pystr \<times> int) list \<Rightarrow> trajectory_event list
       \<Rightarrow> (pystr \<times> int \<times> int) list" where
  "discard_table quote fork_seq events = fold (note_revert quote fork_seq) events []"

definition in_discarded :: "(pystr \<times> int \<times> int) list \<Rightarrow> int \<Rightarrow> bool" where
  "in_discarded discarded n = list_ex (\<lambda>(i, f, r). f < n \<and> n < r) discarded"

definition filter_branch ::
    "(pystr \<Rightarrow> pystr) \<Rightarrow> trajectory_event list \<Rightarrow> pystr \<Rightarrow> trajectory_event list" where
  "filter_branch quote events branch =
     (if branch = lit ''all'' \<or> events = [] then events
      else let fork_seq = fork_table quote events;
               discarded = discard_table quote fork_seq events
           in if branch = lit ''current''
              then filter (\<lambda>e. \<not> in_discarded discarded (ev_seq e)) events
              else (case map_of discarded branch of
                      Some (f, r) \<Rightarrow> filter (\<lambda>e. f < ev_seq e \<and> ev_seq e < r) events
                    | None \<Rightarrow> (case map_of fork_seq branch of
                        Some f \<Rightarrow> filter (\<lambda>e. f < ev_seq e) events
                      | None \<Rightarrow> [])))"

section \<open>What the two tables hold\<close>

abbreviation increasing :: "trajectory_event list \<Rightarrow> bool" where
  "increasing evs \<equiv> sorted_wrt (<) (map ev_seq evs)"

definition forks :: "(pystr \<Rightarrow> pystr) \<Rightarrow> pystr \<Rightarrow> trajectory_event \<Rightarrow> bool" where
  "forks quote i e \<longleftrightarrow> ev_type e = Session_forked \<and> snap_id quote e = i \<and> i \<noteq> []"

definition reverts :: "(pystr \<Rightarrow> pystr) \<Rightarrow> pystr \<Rightarrow> trajectory_event \<Rightarrow> bool" where
  "reverts quote i e \<longleftrightarrow> ev_type e = Session_reverted \<and> snap_id quote e = i"

text \<open>Two forks never share an identifier: each is the identifier of a new image.\<close>

definition unique_forks :: "(pystr \<Rightarrow> pystr) \<Rightarrow> trajectory_event list \<Rightarrow> bool" where
  "unique_forks quote evs \<longleftrightarrow>
     distinct (map (snap_id quote) (filter (\<lambda>e. ev_type e = Session_forked) evs))"

lemma fork_table_snoc: "fork_table quote (evs @ [e]) = note_fork quote e (fork_table quote evs)"
  by (simp add: fork_table_def)

lemma discard_table_snoc:
  "discard_table quote ft (evs @ [e]) = note_revert quote ft e (discard_table quote ft evs)"
  by (simp add: discard_table_def)

lemma map_of_note_fork:
  "map_of (note_fork quote e ft) i =
     (if forks quote i e then Some (ev_seq e) else map_of ft i)"
  by (auto simp: note_fork_def forks_def update_conv')

lemma map_of_note_revert:
  "map_of (note_revert quote ft e d) i =
     (if reverts quote i e \<and> map_of ft i \<noteq> None then Some (the (map_of ft i), ev_seq e)
      else map_of d i)"
  by (auto simp: note_revert_def reverts_def update_conv' split: option.split)

lemma fork_table_SomeD:
  "map_of (fork_table quote evs) i = Some f \<Longrightarrow> \<exists>fe\<in>set evs. forks quote i fe \<and> ev_seq fe = f"
proof (induction evs rule: rev_induct)
  case Nil
  then show ?case by (simp add: fork_table_def)
next
  case (snoc e evs)
  then show ?case by (auto simp: fork_table_snoc map_of_note_fork split: if_splits)
qed

lemma fork_table_SomeI:
  "unique_forks quote evs \<Longrightarrow> fe \<in> set evs \<Longrightarrow> forks quote i fe
     \<Longrightarrow> map_of (fork_table quote evs) i = Some (ev_seq fe)"
proof (induction evs rule: rev_induct)
  case (snoc e evs)
  show ?case
  proof (cases "fe \<in> set evs")
    case True
    with snoc.prems have "\<not> forks quote i e"
      by (auto simp: unique_forks_def forks_def)
    with True snoc show ?thesis
      by (auto simp: unique_forks_def fork_table_snoc map_of_note_fork)
  next
    case False
    with snoc.prems show ?thesis by (simp add: fork_table_snoc map_of_note_fork)
  qed
qed simp

lemma discard_table_SomeD:
  "map_of (discard_table quote ft evs) i = Some (f, r) \<Longrightarrow>
     map_of ft i = Some f \<and> (\<exists>re\<in>set evs. reverts quote i re \<and> ev_seq re = r)"
proof (induction evs rule: rev_induct)
  case Nil
  then show ?case by (simp add: discard_table_def)
next
  case (snoc e evs)
  then show ?case by (auto simp: discard_table_snoc map_of_note_revert split: if_splits)
qed

lemma discard_table_SomeI:
  "increasing evs \<Longrightarrow> re \<in> set evs \<Longrightarrow> reverts quote i re \<Longrightarrow> map_of ft i = Some f
     \<Longrightarrow> \<exists>r\<ge>ev_seq re. map_of (discard_table quote ft evs) i = Some (f, r)"
proof (induction evs rule: rev_induct)
  case (snoc e evs)
  show ?case
  proof (cases "reverts quote i e")
    case True
    have "ev_seq re \<le> ev_seq e" using snoc.prems(1,2) by (auto simp: sorted_wrt_append)
    with True snoc.prems(4) show ?thesis by (simp add: discard_table_snoc map_of_note_revert)
  next
    case False
    with snoc.prems have "re \<in> set evs" by auto
    with snoc False show ?thesis
      by (simp add: discard_table_snoc map_of_note_revert sorted_wrt_append)
  qed
qed simp

lemma distinct_discard_table: "distinct (map fst (discard_table quote ft evs))"
  by (induction evs rule: rev_induct)
    (auto simp: discard_table_snoc note_revert_def distinct_update discard_table_def
      split: option.split)

section \<open>The current timeline\<close>

text \<open>An event is rolled back when some fork precedes it and a revert to that fork follows it.\<close>

definition rolled_back :: "(pystr \<Rightarrow> pystr) \<Rightarrow> trajectory_event list \<Rightarrow> trajectory_event \<Rightarrow> bool" where
  "rolled_back quote evs e \<longleftrightarrow> (\<exists>fe\<in>set evs. \<exists>re\<in>set evs.
     forks quote (snap_id quote fe) fe \<and> reverts quote (snap_id quote fe) re
     \<and> ev_seq fe < ev_seq e \<and> ev_seq e < ev_seq re)"

lemma in_discarded_iff:
  assumes "unique_forks quote evs" "increasing evs"
  shows "in_discarded (discard_table quote (fork_table quote evs) evs) (ev_seq e)
    \<longleftrightarrow> rolled_back quote evs e"
    (is "in_discarded ?d _ \<longleftrightarrow> _")
proof
  assume "in_discarded ?d (ev_seq e)"
  then obtain i f r where "(i, f, r) \<in> set ?d" and n: "f < ev_seq e" "ev_seq e < r"
    by (auto simp: in_discarded_def list_ex_iff)
  then have "map_of ?d i = Some (f, r)" by (simp add: distinct_discard_table)
  from discard_table_SomeD [OF this] n show "rolled_back quote evs e"
    by (fastforce simp: rolled_back_def forks_def dest: fork_table_SomeD)
next
  assume "rolled_back quote evs e"
  then obtain fe re where fe: "fe \<in> set evs" "forks quote (snap_id quote fe) fe"
    and re: "re \<in> set evs" "reverts quote (snap_id quote fe) re"
    and n: "ev_seq fe < ev_seq e" "ev_seq e < ev_seq re"
    by (auto simp: rolled_back_def)
  obtain r where r: "ev_seq re \<le> r" "map_of ?d (snap_id quote fe) = Some (ev_seq fe, r)"
    using discard_table_SomeI [OF assms(2) re fork_table_SomeI [OF assms(1) fe]] by blast
  then show "in_discarded ?d (ev_seq e)"
    unfolding in_discarded_def list_ex_iff
    by (intro bexI [OF _ map_of_SomeD [OF r(2)]]) (use n r(1) in auto)
qed

lemma filter_branch_current:
  "unique_forks quote evs \<Longrightarrow> increasing evs \<Longrightarrow>
     filter_branch quote evs (lit ''current'') = filter (\<lambda>e. \<not> rolled_back quote evs e) evs"
  by (simp add: filter_branch_def in_discarded_iff)

section \<open>The history of the container\<close>

text \<open>
  What really happened to the container: a history of events, and for each snapshot the
  history it was taken at. A revert makes the saved history current again.
\<close>

type_synonym history = "trajectory_event list \<times> (pystr \<Rightarrow> trajectory_event list option)"

fun hist_step :: "(pystr \<Rightarrow> pystr) \<Rightarrow> trajectory_event \<Rightarrow> history \<Rightarrow> history" where
  "hist_step quote e (h, saved) =
     (if ev_type e = Session_forked then (h @ [e], saved(snap_id quote e \<mapsto> h @ [e]))
      else if ev_type e = Session_reverted
      then (case saved (snap_id quote e) of
              Some p \<Rightarrow> (p @ [e], saved)
            | None \<Rightarrow> (h @ [e], saved))
      else (h @ [e], saved))"

definition timeline :: "(pystr \<Rightarrow> pystr) \<Rightarrow> trajectory_event list \<Rightarrow> history" where
  "timeline quote evs = fold (hist_step quote) evs ([], Map.empty)"

text \<open>Each revert goes to a snapshot taken on the timeline that is current at that moment.\<close>

definition revert_ok :: "(pystr \<Rightarrow> pystr) \<Rightarrow> history \<Rightarrow> trajectory_event \<Rightarrow> bool" where
  "revert_ok quote st e \<longleftrightarrow>
     ev_type e = Session_reverted \<longrightarrow> list_ex (forks quote (snap_id quote e)) (fst st)"

fun reverts_stay :: "(pystr \<Rightarrow> pystr) \<Rightarrow> history \<Rightarrow> trajectory_event list \<Rightarrow> bool" where
  "reverts_stay quote st [] = True"
| "reverts_stay quote st (e # es) =
     (revert_ok quote st e \<and> reverts_stay quote (hist_step quote e st) es)"

lemma reverts_stay_snoc:
  "reverts_stay quote st (es @ [e]) \<longleftrightarrow>
     reverts_stay quote st es \<and> revert_ok quote (fold (hist_step quote) es st) e"
  by (induction es arbitrary: st) auto

lemma timeline_snoc: "timeline quote (evs @ [e]) = hist_step quote e (timeline quote evs)"
  by (simp add: timeline_def)

definition timeline_inv :: "(pystr \<Rightarrow> pystr) \<Rightarrow> trajectory_event list \<Rightarrow> history \<Rightarrow> bool" where
  "timeline_inv quote evs st \<longleftrightarrow> (case st of (h, saved) \<Rightarrow>
     h = filter (\<lambda>e. \<not> rolled_back quote evs e) evs
     \<and> (\<forall>fe\<in>set h. forks quote (snap_id quote fe) fe
          \<longrightarrow> saved (snap_id quote fe) = Some (filter (\<lambda>e. ev_seq e \<le> ev_seq fe) h)))"

lemma rolled_back_snoc:
  assumes "increasing (evs @ [e])" "x \<in> set evs"
  shows "rolled_back quote (evs @ [e]) x \<longleftrightarrow> rolled_back quote evs x
    \<or> (\<exists>fe\<in>set evs. forks quote (snap_id quote fe) fe \<and> reverts quote (snap_id quote fe) e
         \<and> ev_seq fe < ev_seq x)"
  using assms by (fastforce simp: rolled_back_def sorted_wrt_append)

lemma rolled_back_last: "increasing (evs @ [e]) \<Longrightarrow> \<not> rolled_back quote (evs @ [e]) e"
  by (force simp: rolled_back_def sorted_wrt_append)

lemma unique_forks_seq:
  "unique_forks quote evs \<Longrightarrow> fe \<in> set evs \<Longrightarrow> ge \<in> set evs \<Longrightarrow> forks quote i fe
     \<Longrightarrow> forks quote i ge \<Longrightarrow> ev_seq fe = ev_seq ge"
  using fork_table_SomeI by (metis option.inject)

lemma current_snoc_keep:
  assumes "increasing (evs @ [e])" "ev_type e \<noteq> Session_reverted"
  shows "filter (\<lambda>x. \<not> rolled_back quote (evs @ [e]) x) (evs @ [e])
    = filter (\<lambda>x. \<not> rolled_back quote evs x) evs @ [e]"
proof -
  have "filter (\<lambda>x. \<not> rolled_back quote (evs @ [e]) x) evs = filter (\<lambda>x. \<not> rolled_back quote evs x) evs"
    using assms by (intro filter_cong) (auto simp: rolled_back_snoc reverts_def)
  then show ?thesis using rolled_back_last [OF assms(1)] by simp
qed

lemma current_snoc_revert:
  assumes "increasing (evs @ [e])" "unique_forks quote evs" "reverts quote i e"
    and "fe \<in> set evs" "forks quote i fe"
  shows "filter (\<lambda>x. \<not> rolled_back quote (evs @ [e]) x) (evs @ [e])
    = filter (\<lambda>x. ev_seq x \<le> ev_seq fe) (filter (\<lambda>x. \<not> rolled_back quote evs x) evs) @ [e]"
proof -
  have i: "snap_id quote e = i" "snap_id quote fe = i"
    using assms(3,5) by (auto simp: forks_def reverts_def)
  have cut: "(\<exists>ge\<in>set evs. forks quote (snap_id quote ge) ge \<and> reverts quote (snap_id quote ge) e
      \<and> ev_seq ge < ev_seq x) \<longleftrightarrow> ev_seq fe < ev_seq x" for x
  proof
    assume "ev_seq fe < ev_seq x"
    with assms(3-5) show "\<exists>ge\<in>set evs. forks quote (snap_id quote ge) ge
        \<and> reverts quote (snap_id quote ge) e \<and> ev_seq ge < ev_seq x"
      by (intro bexI [of _ fe]) (simp_all add: i)
  next
    assume "\<exists>ge\<in>set evs. forks quote (snap_id quote ge) ge
        \<and> reverts quote (snap_id quote ge) e \<and> ev_seq ge < ev_seq x"
    then obtain ge where ge: "ge \<in> set evs" "forks quote i ge" "ev_seq ge < ev_seq x"
      using i(1) by (auto simp: reverts_def)
    with unique_forks_seq [OF assms(2,4) ge(1) assms(5) ge(2)] show "ev_seq fe < ev_seq x" by simp
  qed
  have "rolled_back quote (evs @ [e]) x \<longleftrightarrow> rolled_back quote evs x \<or> ev_seq fe < ev_seq x"
    if "x \<in> set evs" for x
    unfolding rolled_back_snoc [OF assms(1) that] cut ..
  then have "filter (\<lambda>x. \<not> rolled_back quote (evs @ [e]) x) evs
      = filter (\<lambda>x. ev_seq x \<le> ev_seq fe) (filter (\<lambda>x. \<not> rolled_back quote evs x) evs)"
    unfolding filter_filter by (intro filter_cong) auto
  then show ?thesis using rolled_back_last [OF assms(1)] by simp
qed

lemma filter_le_snoc:
  "ev_seq fe < ev_seq e \<Longrightarrow>
     filter (\<lambda>x. ev_seq x \<le> ev_seq fe) (h @ [e]) = filter (\<lambda>x. ev_seq x \<le> ev_seq fe) h"
  by simp

lemma timeline_inv_step:
  assumes inv: "timeline_inv quote evs st" and ok: "revert_ok quote st e"
    and inc: "increasing (evs @ [e])" and uniq: "unique_forks quote (evs @ [e])"
  shows "timeline_inv quote (evs @ [e]) (hist_step quote e st)"
proof -
  obtain h saved where st: "st = (h, saved)" by (cases st)
  have h: "h = filter (\<lambda>x. \<not> rolled_back quote evs x) evs"
    and sv: "\<And>fe. fe \<in> set h \<Longrightarrow> forks quote (snap_id quote fe) fe \<Longrightarrow>
      saved (snap_id quote fe) = Some (filter (\<lambda>x. ev_seq x \<le> ev_seq fe) h)"
    using inv by (auto simp: timeline_inv_def st)
  have lt: "\<And>x. x \<in> set h \<Longrightarrow> ev_seq x < ev_seq e"
    using inc by (auto simp: h sorted_wrt_append)
  then have nle: "\<And>x. x \<in> set h \<Longrightarrow> \<not> ev_seq e \<le> ev_seq x" by force
  consider (f) "ev_type e = Session_forked" | (r) "ev_type e = Session_reverted"
    | (o) "ev_type e \<noteq> Session_forked" "ev_type e \<noteq> Session_reverted" by blast
  then show ?thesis
  proof cases
    case f
    have "\<And>x. x \<in> set h \<Longrightarrow> forks quote (snap_id quote x) x \<Longrightarrow> snap_id quote x \<noteq> snap_id quote e"
      using uniq f by (auto simp: h unique_forks_def forks_def image_iff)
    moreover have "filter (\<lambda>x. ev_seq x \<le> ev_seq e) h = h"
      using lt by (auto simp: filter_id_conv order.strict_implies_order)
    ultimately show ?thesis
      using sv lt f current_snoc_keep [OF inc] by (auto dest: nle simp: timeline_inv_def st h [symmetric])
  next
    case o
    then show ?thesis
      using sv lt current_snoc_keep [OF inc] by (auto dest: nle simp: timeline_inv_def st h [symmetric] forks_def)
  next
    case r
    then obtain fe where fe: "fe \<in> set h" "forks quote (snap_id quote e) fe"
      using ok by (auto simp: revert_ok_def st list_ex_iff)
    then have id: "snap_id quote fe = snap_id quote e" by (simp add: forks_def)
    with sv [of fe] fe have s: "saved (snap_id quote e) = Some (filter (\<lambda>x. ev_seq x \<le> ev_seq fe) h)"
      by simp
    have u: "unique_forks quote evs" using uniq by (simp add: unique_forks_def)
    have re: "reverts quote (snap_id quote e) e" using r by (simp add: reverts_def)
    have "fe \<in> set evs" using fe(1) h by simp
    note cur = current_snoc_revert [OF inc u re this fe(2), folded h]
    have fl: "filter (\<lambda>x. ev_seq x \<le> ev_seq ge) (filter (\<lambda>x. ev_seq x \<le> ev_seq fe) h)
        = filter (\<lambda>x. ev_seq x \<le> ev_seq ge) h" if "ev_seq ge \<le> ev_seq fe" for ge
      unfolding filter_filter using that by (intro filter_cong) auto
    have "saved (snap_id quote ge) = Some (filter (\<lambda>x. ev_seq x \<le> ev_seq ge)
        (filter (\<lambda>x. ev_seq x \<le> ev_seq fe) h @ [e]))"
      if "ge \<in> set h" "ev_seq ge \<le> ev_seq fe" "forks quote (snap_id quote ge) ge" for ge
      using sv [OF that(1,3)] nle [OF that(1)] fl [OF that(2)] by simp
    moreover have "\<not> forks quote (snap_id quote e) e" using r by (simp add: forks_def)
    ultimately have "\<forall>ge\<in>set (filter (\<lambda>x. ev_seq x \<le> ev_seq fe) h @ [e]).
        forks quote (snap_id quote ge) ge \<longrightarrow> saved (snap_id quote ge)
          = Some (filter (\<lambda>x. ev_seq x \<le> ev_seq ge) (filter (\<lambda>x. ev_seq x \<le> ev_seq fe) h @ [e]))"
      by auto
    moreover have "hist_step quote e st = (filter (\<lambda>x. ev_seq x \<le> ev_seq fe) h @ [e], saved)"
      using r s by (simp add: st)
    ultimately show ?thesis unfolding timeline_inv_def prod.case by (simp only: cur prod.case)
  qed
qed

lemma timeline_inv_run:
  "unique_forks quote evs \<Longrightarrow> increasing evs \<Longrightarrow> reverts_stay quote ([], Map.empty) evs
     \<Longrightarrow> timeline_inv quote evs (timeline quote evs)"
proof (induction evs rule: rev_induct)
  case Nil
  then show ?case by (simp add: timeline_inv_def timeline_def)
next
  case (snoc e evs)
  then have "timeline_inv quote evs (timeline quote evs)"
    by (simp add: unique_forks_def sorted_wrt_append reverts_stay_snoc)
  moreover have "revert_ok quote (timeline quote evs) e"
    using snoc.prems(3) by (simp add: reverts_stay_snoc timeline_def)
  ultimately show ?case
    unfolding timeline_snoc using snoc.prems(1,2) by (intro timeline_inv_step)
qed

text \<open>One snapshot's branch.\<close>

lemma filter_branch_snapshot:
  assumes "unique_forks quote evs" "increasing evs" "i \<noteq> lit ''all''" "i \<noteq> lit ''current''"
    and "evs = pre @ fe # mid @ re # post" "forks quote i fe" "reverts quote i re"
    and "\<And>e. e \<in> set post \<Longrightarrow> \<not> reverts quote i e"
  shows "filter_branch quote evs i = mid"
proof -
  have ft: "map_of (fork_table quote evs) i = Some (ev_seq fe)"
    using assms(5) by (intro fork_table_SomeI [OF assms(1) _ assms(6)]) simp
  obtain r where r: "ev_seq re \<le> r"
    "map_of (discard_table quote (fork_table quote evs) evs) i = Some (ev_seq fe, r)"
    using discard_table_SomeI [OF assms(2) _ assms(7) ft] assms(5) by auto
  obtain re' where re': "re' \<in> set evs" "reverts quote i re'" "ev_seq re' = r"
    using discard_table_SomeD [OF r(2)] by blast
  then have "re' \<in> set pre \<union> {fe, re} \<union> set mid" using assms(5,8) by auto
  then have "ev_seq re' \<le> ev_seq re"
    using assms(2,5) by (force simp: sorted_wrt_append)
  with r(1) re'(3) have rr: "r = ev_seq re" by simp
  have "filter (\<lambda>e. ev_seq fe < ev_seq e \<and> ev_seq e < ev_seq re) pre = []"
    "filter (\<lambda>e. ev_seq fe < ev_seq e \<and> ev_seq e < ev_seq re) post = []"
    "filter (\<lambda>e. ev_seq fe < ev_seq e \<and> ev_seq e < ev_seq re) mid = mid"
    using assms(2) unfolding assms(5) filter_empty_conv filter_id_conv
    by (auto simp: sorted_wrt_append not_less dest: order.strict_implies_order)
  then have "filter (\<lambda>e. ev_seq fe < ev_seq e \<and> ev_seq e < ev_seq re) evs = mid"
    by (simp add: assms(5))
  with r(2) rr assms(3-5) show ?thesis by (simp add: filter_branch_def Let_def)
qed

section \<open>Small trajectories\<close>

definition demo_ev :: "int \<Rightarrow> event_type \<Rightarrow> string \<Rightarrow> trajectory_event" where
  "demo_ev n ty i = \<lparr>ev_seq = n, ev_ts = [], ev_type = ty, ev_data = [(lit ''snapshot_id'', JStr (lit i))]\<rparr>"

lemma demo_ev_simps [simp]:
  "ev_seq (demo_ev n ty i) = n" "ev_type (demo_ev n ty i) = ty" "snap_id quote (demo_ev n ty i) = lit i"
  by (simp_all add: demo_ev_def snap_id_def dict_get_def)

definition demo_nested :: "trajectory_event list" where
  "demo_nested = [demo_ev 0 Session_forked ''a'', demo_ev 1 Agent_command '''',
     demo_ev 2 Session_reverted ''a'', demo_ev 3 Agent_command '''',
     demo_ev 4 Session_reverted ''a'', demo_ev 5 Agent_command '''']"

text \<open>Snapshot b is taken on the branch of a, a is restored, and then b.\<close>

definition demo_crossed :: "trajectory_event list" where
  "demo_crossed = [demo_ev 0 Session_forked ''a'', demo_ev 1 Agent_command '''',
     demo_ev 2 Session_forked ''b'', demo_ev 3 Session_reverted ''a'',
     demo_ev 4 Session_reverted ''b'', demo_ev 5 Agent_command '''']"

section \<open>Properties\<close>



text \<open>C35. A snapshot's identifier selects its branch: exactly the events between its fork and the
  last revert to it.\<close>

theorem snapshot_branch_is_segment:
  assumes "unique_forks quote (pre @ fe # mid @ re # post)" "increasing (pre @ fe # mid @ re # post)"
    and "i \<noteq> lit ''all''" "i \<noteq> lit ''current''"
    and "forks quote i fe" "reverts quote i re" "\<And>e. e \<in> set post \<Longrightarrow> \<not> reverts quote i e"
  shows "filter_branch quote (pre @ fe # mid @ re # post) i = mid"
  using assms(1-4) refl assms(5-7) by (rule filter_branch_snapshot)

theorem snapshot_branch_is_segment_witness:
  "filter_branch (\<lambda>s. s) ([] @ demo_ev 0 Session_forked ''a'' # [demo_ev 1 Agent_command '''']
     @ demo_ev 2 Session_reverted ''a'' # [demo_ev 3 Agent_thought '''']) (lit ''a'')
   = [demo_ev 1 Agent_command '''']"
  by (rule snapshot_branch_is_segment) (simp_all add: unique_forks_def forks_def reverts_def)

text \<open>The restriction matters: after restoring a snapshot, b, that was taken on the rolled-back
  branch of another, a, the command that preceded the fork of b is part of the container's
  history again, and the branch "current" leaves it out, with the markers of the fork of b
  and of the revert to a.\<close>

theorem current_branch_misses_restored:
  "demo_ev 1 Agent_command '''' \<in> set (fst (timeline quote demo_crossed))
   \<and> filter_branch quote demo_crossed (lit ''current'')
       = [demo_ev 0 Session_forked ''a'', demo_ev 4 Session_reverted ''b'', demo_ev 5 Agent_command '''']"
  by (simp add: demo_crossed_def timeline_def filter_branch_def Let_def fork_table_def
      note_fork_def discard_table_def note_revert_def in_discarded_def)

end
