(* ===== verification/Mcp_Server.thy ===== *)
theory Mcp_Server
  imports Runner Branches Loader
begin

text \<open>
  \<^verbatim>\<open>mcp_server.py\<close>: the sessions an agent drives tool call by tool call. The state of the
  server is the files, the clock, the daemon's log, the live sessions, each with its sandbox and
  its writer, and the session descriptors on disk, from which a restarted server resumes. A
  session is an object with a sandbox and a writer of its own; an operation on it runs with both
  in the registers \<open>sb\<close> and \<open>wr\<close> of the sandbox model and puts them back. Tool calls run one at a
  time, as the server's event loop calls these functions.
\<close>

section \<open>The code\<close>

record session =
  se_task :: task
  se_sandbox :: sandbox
  se_writer :: writer
  se_path :: path
  se_count :: nat

text \<open>
  The descriptors are the files of the sessions directory: the name, and the text or what
  reading it raises.
\<close>

record srv = sstate +
  sessions :: "pystr \<rightharpoonup> session"
  descs :: "(pystr \<times> (exn + pystr)) list"

text \<open>
  The server's surroundings: its root and working directory, the directory of the tasks, and
  the descriptors that cannot be removed.
\<close>

record venv = senv +
  v_root :: path
  v_cwd :: path
  v_tasks :: taskdir
  v_tasks_dir :: path
  v_locked :: "pystr \<Rightarrow> bool"

subsection \<open>Descriptors as text\<close>

definition desc_name :: "pystr \<Rightarrow> pystr" where
  "desc_name sid = sid @ lit ''.json''"

definition descriptor :: "pystr \<Rightarrow> task \<Rightarrow> pystr option \<Rightarrow> path \<Rightarrow> pystr \<Rightarrow> dict" where
  "descriptor sid task cid p now =
     [(lit ''session_id'', JStr sid), (lit ''task'', dump_task task),
      (lit ''container_id'', opt_str cid), (lit ''trajectory_path'', JStr (path_str p)),
      (lit ''started_at_iso'', JStr now),
      (lit ''network_mode'', JStr (lit (mode_str (ns_mode (tk_network task)))))]"

definition persist_session :: "venv \<Rightarrow> pystr \<Rightarrow> task \<Rightarrow> path \<Rightarrow> (srv, unit) py" where
  "persist_session E sid task p = bind (get (\<lambda>s. sb_container (sb s))) (\<lambda>cid.
     bind (now_iso E) (\<lambda>now. modify (\<lambda>s. s\<lparr>descs := AList.update (desc_name sid)
       (Inr (json_dumps 0 (JObj (descriptor sid task cid p now)))) (descs s)\<rparr>)))"

definition unlink :: "venv \<Rightarrow> pystr \<Rightarrow> (srv, unit) py" where
  "unlink E name = bind (get descs) (\<lambda>ds.
     if map_of ds name \<noteq> None \<and> v_locked E name then raise (OS_Error name)
     else modify (\<lambda>s. s\<lparr>descs := AList.delete name (descs s)\<rparr>))"

fun is_os_error :: "exn \<Rightarrow> bool" where
  "is_os_error (OS_Error m) = True"
| "is_os_error (File_Not_Found m) = True"
| "is_os_error _ = False"

definition try_unlink :: "venv \<Rightarrow> pystr \<Rightarrow> (srv, unit) py" where
  "try_unlink E name = try_except (unlink E name) (\<lambda>e. if is_os_error e then Some (ret ()) else None)"

definition delete_session_file :: "venv \<Rightarrow> pystr \<Rightarrow> (srv, unit) py" where
  "delete_session_file E sid = try_unlink E (desc_name sid)"

subsection \<open>Rehydration\<close>

definition read_file :: "'e env_scheme \<Rightarrow> path \<Rightarrow> ('z tstate_scheme, trajectory_event list) py" where
  "read_file E p = (\<lambda>s. (case texts s p of
     None \<Rightarrow> Inl (File_Not_Found (path_str p)) | Some c \<Rightarrow> read_trajectory E c, s))"

definition count_agent_commands :: "'e env_scheme \<Rightarrow> path \<Rightarrow> ('z tstate_scheme, nat) py" where
  "count_agent_commands E p = try_except
     (bind (read_file E p) (\<lambda>evs. ret (length (filter (\<lambda>e. ev_type e = Agent_command) evs))))
     (\<lambda>e. Some (ret 0))"

text \<open>\<^verbatim>\<open>Path(s)\<close>: the parts of an absolute path, or of one relative to the working directory.\<close>

fun path_parts :: "pystr \<Rightarrow> pystr \<Rightarrow> path" where
  "path_parts part [] = (if part = [] \<or> part = lit ''.'' then [] else [part])"
| "path_parts part (c # s) = (if c = 47 then path_parts part [] @ path_parts [] s
     else path_parts (part @ [c]) s)"

definition parse_path :: "path \<Rightarrow> pystr \<Rightarrow> path" where
  "parse_path cwd s = (if s \<noteq> [] \<and> hd s = 47 then path_parts [] s else cwd @ path_parts [] s)"

text \<open>
  Where the server looks: the process environment, the working directory and \<^verbatim>\<open>Path.resolve\<close> are
  parameters. An empty \<^verbatim>\<open>PREHNITE_ROOT\<close> is the working directory, an empty
  \<^verbatim>\<open>PREHNITE_TASKS_DIR\<close> is none. The descriptors are the files of \<open>sessions_dir\<close>.
\<close>

definition server_root :: "(pystr \<rightharpoonup> pystr) \<Rightarrow> path \<Rightarrow> (path \<Rightarrow> path) \<Rightarrow> path" where
  "server_root environ cwd resolve = resolve (case environ (lit ''PREHNITE_ROOT'') of
     None \<Rightarrow> cwd | Some v \<Rightarrow> parse_path cwd v)"

definition tasks_dir :: "(pystr \<rightharpoonup> pystr) \<Rightarrow> path \<Rightarrow> (path \<Rightarrow> path) \<Rightarrow> path" where
  "tasks_dir environ cwd resolve = (case environ (lit ''PREHNITE_TASKS_DIR'') of
     Some v \<Rightarrow> if v = [] then server_root environ cwd resolve @ [lit ''tasks''] else resolve (parse_path cwd v)
   | None \<Rightarrow> server_root environ cwd resolve @ [lit ''tasks''])"

definition sessions_dir :: "path \<Rightarrow> path" where
  "sessions_dir root = root @ [lit ''sessions'']"

definition server_env :: "(pystr \<rightharpoonup> pystr) \<Rightarrow> path \<Rightarrow> (path \<Rightarrow> path) \<Rightarrow> venv \<Rightarrow> venv" where
  "server_env environ cwd resolve E = E\<lparr>v_root := server_root environ cwd resolve, v_cwd := cwd,
     v_tasks_dir := tasks_dir environ cwd resolve\<rparr>"

text \<open>The log line of a resumed session slices the container id.\<close>

fun sliceable :: "jval \<Rightarrow> bool" where
  "sliceable (JStr s) = True"
| "sliceable (JList xs) = True"
| "sliceable _ = False"

definition key :: "dict \<Rightarrow> string \<Rightarrow> ('s, jval) py" where
  "key d k = (case map_of d (lit k) of None \<Rightarrow> raise (Key_Error (lit k)) | Some v \<Rightarrow> ret v)"

fun as_path :: "path \<Rightarrow> jval \<Rightarrow> ('s, path) py" where
  "as_path cwd (JStr s) = ret (parse_path cwd s)"
| "as_path cwd _ = raise Type_Error"

definition resume :: "venv \<Rightarrow> pystr \<Rightarrow> dict \<Rightarrow> pystr \<Rightarrow> task \<Rightarrow> (srv, (pystr \<times> session) option) py" where
  "resume E name payload sid task =
     bind (bind (key payload ''trajectory_path'') (as_path (v_cwd E))) (\<lambda>p.
       seq (modify (\<lambda>s. s\<lparr>sb := new_sandbox task False\<rparr>))
         (bind (try_except
             (bind (key payload ''container_id'') (\<lambda>v. seq (attach E (py_str (s_quote E) v)) (ret True)))
             (\<lambda>e. if is_sandbox_error e then Some (seq (unlink E name) (ret False)) else None))
           (\<lambda>attached. if \<not> attached then ret None else
             seq (modify (\<lambda>s. s\<lparr>wr := new_writer p (Some (overflow_dir (v_root E))) DEFAULT_MAX_BYTES\<rparr>))
               (seq (open_writer E)
                 (bind (count_agent_commands E p) (\<lambda>count.
                   bind (get (\<lambda>s. \<lparr>se_task = task, se_sandbox = sb s, se_writer = wr s, se_path = p,
                                   se_count = count\<rparr>)) (\<lambda>sess.
                     bind (key payload ''container_id'') (\<lambda>v.
                       if sliceable v then ret (Some (sid, sess)) else raise Type_Error))))))))"

definition rehydrate_payload :: "venv \<Rightarrow> pystr \<Rightarrow> dict \<Rightarrow> (srv, (pystr \<times> session) option) py" where
  "rehydrate_payload E name payload =
     (let sid = py_str (s_quote E) (dict_get payload ''session_id'' (JStr [])) in
      if sid = [] then seq (unlink E name) (ret None)
      else if map_of payload (lit ''network_mode'') = Some (JStr (lit ''restricted''))
      then seq (unlink E name) (ret None)
      else (case map_of payload (lit ''task'') of
          None \<Rightarrow> seq (unlink E name) (ret None)
        | Some v \<Rightarrow> (case validate_task (e_lax_int E) v of
            Inl e \<Rightarrow> seq (unlink E name) (ret None)
          | Inr task \<Rightarrow> resume E name payload sid task)))"

definition rehydrate_file :: "venv \<Rightarrow> pystr \<times> (exn + pystr) \<Rightarrow> (srv, (pystr \<times> session) option) py" where
  "rehydrate_file E f = (case f of (name, content) \<Rightarrow> (case content of
     Inl e \<Rightarrow> if is_os_error e then seq (try_unlink E name) (ret None) else raise e
   | Inr text \<Rightarrow> (case e_loads E text of
       None \<Rightarrow> seq (try_unlink E name) (ret None)
     | Some (JObj payload) \<Rightarrow> rehydrate_payload E name payload
     | Some _ \<Rightarrow> raise Attribute_Error)))"

fun rehydrate_files :: "venv \<Rightarrow> (pystr \<times> (exn + pystr)) list \<Rightarrow> (pystr \<rightharpoonup> session)
    \<Rightarrow> (srv, pystr \<rightharpoonup> session) py" where
  "rehydrate_files E [] out = ret out"
| "rehydrate_files E (f # fs) out = bind (rehydrate_file E f) (\<lambda>r. rehydrate_files E fs
     (case r of None \<Rightarrow> out | Some (sid, sess) \<Rightarrow> out(sid \<mapsto> sess)))"

definition is_desc :: "pystr \<Rightarrow> bool" where
  "is_desc name \<longleftrightarrow> ends_with name (lit ''.json'') \<and> 47 \<notin> set name"

definition rehydrate_sessions :: "venv \<Rightarrow> (srv, pystr \<rightharpoonup> session) py" where
  "rehydrate_sessions E = bind (get descs) (\<lambda>ds.
     rehydrate_files E (sort_key fst (filter (\<lambda>f. is_desc (fst f)) ds)) Map.empty)"

definition build_server :: "venv \<Rightarrow> (srv, unit) py" where
  "build_server E = bind (rehydrate_sessions E) (\<lambda>out. modify (\<lambda>s. s\<lparr>sessions := out\<rparr>))"


subsection \<open>Tool calls\<close>

definition list_tasks :: "venv \<Rightarrow> pystr option \<Rightarrow> pystr option \<Rightarrow> (srv, jval) py" where
  "list_tasks E tag difficulty = (case discover_tasks (v_tasks E) (v_tasks_dir E) of
     Inl e \<Rightarrow> raise e
   | Inr ts \<Rightarrow> ret (JList (map (\<lambda>t. JObj
        [(lit ''id'', JStr (tk_id t)), (lit ''description'', JStr (tk_description t)),
         (lit ''tags'', str_list (tk_tags t)), (lit ''difficulty'', opt_str (tk_difficulty t))])
       (filter (\<lambda>t. (case tag of None \<Rightarrow> True | Some g \<Rightarrow> g \<in> set (tk_tags t))
          \<and> (case difficulty of None \<Rightarrow> True | Some d \<Rightarrow> tk_difficulty t = Some d)) ts))))"

definition find :: "venv \<Rightarrow> pystr \<Rightarrow> (srv, task) py" where
  "find E task_id = (case find_task (v_tasks E) (v_tasks_dir E) task_id of
     Inl e \<Rightarrow> raise e | Inr t \<Rightarrow> ret t)"

definition describe_task :: "venv \<Rightarrow> pystr \<Rightarrow> (srv, jval) py" where
  "describe_task E task_id = bind (find E task_id) (\<lambda>t. ret (dump_task t))"

definition open_session :: "venv \<Rightarrow> task \<Rightarrow> path \<Rightarrow> (srv, jval) py" where
  "open_session E task p = bind (new_uuid E) (\<lambda>sid.
     seq (modify (\<lambda>s. s\<lparr>sessions := (sessions s)(sid \<mapsto>
            \<lparr>se_task = task, se_sandbox = sb s, se_writer = wr s, se_path = p, se_count = 0\<rparr>)\<rparr>))
       (seq (persist_session E sid task p)
         (bind (get (\<lambda>s. sb_container (sb s))) (\<lambda>cid. ret (JObj
            [(lit ''session_id'', JStr sid), (lit ''container_id'', opt_str cid),
             (lit ''trajectory_path'', JStr (path_str p))])))))"

definition start_session :: "venv \<Rightarrow> task \<Rightarrow> path \<Rightarrow> (srv, jval) py" where
  "start_session E task p =
     seq (try_except (start E) (\<lambda>e. if is_sandbox_error e
            then Some (seq (log_event E Run_finished (finished ERROR (lit ''sandbox start: '' @ exn_text e)))
                   (seq close_writer (raise e)))
            else None))
       (bind (get (\<lambda>s. sb_container (sb s))) (\<lambda>cid.
         seq (log_event E Run_started (started_data task cid))
           (bind (run_setup E (tk_setup task)) (\<lambda>failed. case failed of
              Some reason \<Rightarrow>
                seq (log_event E Run_finished (finished ERROR reason))
                  (seq close_writer (seq (stop E) (raise (Runtime_Error reason))))
            | None \<Rightarrow> open_session E task p))))"

definition start_task :: "venv \<Rightarrow> pystr \<Rightarrow> (srv, jval) py" where
  "start_task E task_id = bind (find E task_id) (\<lambda>task.
     bind (trajectory_path E task (v_root E)) (\<lambda>p.
       seq (modify (\<lambda>s. s\<lparr>wr := new_writer p (Some (overflow_dir (v_root E))) DEFAULT_MAX_BYTES\<rparr>))
         (seq (open_writer E)
           (seq (modify (\<lambda>s. s\<lparr>sb := new_sandbox task True\<rparr>)) (start_session E task p)))))"

text \<open>
  A call on a session: with its sandbox and writer in the registers, and put back whatever
  the outcome, since the session object is shared by reference.
\<close>

definition unknown_session :: "pystr \<Rightarrow> exn" where
  "unknown_session sid = Key_Error (lit ''unknown session_id: '' @ sid)"

definition store :: "pystr \<Rightarrow> session \<Rightarrow> srv \<Rightarrow> srv" where
  "store sid sess s = s\<lparr>sessions := (sessions s)(sid \<mapsto> sess\<lparr>se_sandbox := sb s, se_writer := wr s\<rparr>)\<rparr>"

definition load :: "session \<Rightarrow> srv \<Rightarrow> srv" where
  "load sess s = s\<lparr>sb := se_sandbox sess, wr := se_writer sess\<rparr>"

definition on_session :: "pystr \<Rightarrow> (session \<Rightarrow> (srv, 'a) py) \<Rightarrow> (srv, 'a) py" where
  "on_session sid m = (\<lambda>s. case sessions s sid of
     None \<Rightarrow> (Inl (unknown_session sid), s)
   | Some sess \<Rightarrow> (case m sess (load sess s) of (r, t) \<Rightarrow> (r, store sid sess t)))"

definition count_command :: "pystr \<Rightarrow> (srv, unit) py" where
  "count_command sid = modify (\<lambda>s. s\<lparr>sessions := (sessions s)(sid :=
     map_option (\<lambda>sess. sess\<lparr>se_count := Suc (se_count sess)\<rparr>) (sessions s sid))\<rparr>)"

definition exec_tool :: "venv \<Rightarrow> pystr \<Rightarrow> pystr \<Rightarrow> (srv, jval) py" where
  "exec_tool E sid cmd = bind
     (on_session sid (\<lambda>_. bind (exec E (record_egress E) cmd None) (\<lambda>result.
        write_event E Agent_command (dump_command result))))
     (\<lambda>event. seq (count_command sid) (ret (JObj (ev_data event))))"

definition note_tool :: "venv \<Rightarrow> pystr \<Rightarrow> pystr \<Rightarrow> (srv, jval) py" where
  "note_tool E sid thought = on_session sid (\<lambda>_.
     seq (log_event E Agent_thought [(lit ''thought'', JStr thought)]) (ret JNull))"

definition fork :: "venv \<Rightarrow> pystr \<Rightarrow> (srv, jval) py" where
  "fork E sid = on_session sid (\<lambda>_.
     bind (snapshot E [(lit ''prehnite.session_id'', sid)]) (\<lambda>snap_id.
       bind (get (\<lambda>s. sb_container (sb s))) (\<lambda>cid.
         seq (log_event E Session_forked [(lit ''snapshot_id'', JStr snap_id), (lit ''container_id'', opt_str cid)])
           (ret (JObj [(lit ''snapshot_id'', JStr snap_id)])))))"

definition revert_tool :: "venv \<Rightarrow> pystr \<Rightarrow> pystr \<Rightarrow> (srv, jval) py" where
  "revert_tool E sid snapshot_id = on_session sid (\<lambda>sess.
     bind (get (\<lambda>s. sb_container (sb s))) (\<lambda>previous.
       bind (revert E snapshot_id) (\<lambda>new_cid.
         seq (log_event E Session_reverted [(lit ''snapshot_id'', JStr snapshot_id),
                (lit ''previous_container_id'', opt_str previous), (lit ''new_container_id'', JStr new_cid)])
           (seq (persist_session E sid (se_task sess) (se_path sess))
             (ret (JObj [(lit ''container_id'', JStr new_cid)]))))))"

definition read_tool :: "venv \<Rightarrow> pystr \<Rightarrow> int \<Rightarrow> pystr \<Rightarrow> (srv, jval) py" where
  "read_tool E sid since_seq branch = on_session sid (\<lambda>sess.
     bind (read_file E (se_path sess)) (\<lambda>events.
       ret (JList (map dump_event
         (filter (\<lambda>e. since_seq \<le> ev_seq e) (filter_branch (s_quote E) events branch))))))"

text \<open>\<^verbatim>\<open>finish_task\<close> and \<^verbatim>\<open>abort_task\<close> take the session out of the table first.\<close>

definition pop_session :: "pystr \<Rightarrow> (session \<Rightarrow> (srv, 'a) py) \<Rightarrow> (srv, 'a) py" where
  "pop_session sid m = (\<lambda>s. case sessions s sid of
     None \<Rightarrow> (Inl (unknown_session sid), s)
   | Some sess \<Rightarrow> m sess (load sess (s\<lparr>sessions := (sessions s)(sid := None)\<rparr>)))"

definition dump_result :: "run_result \<Rightarrow> jval" where
  "dump_result r = JObj
     [(lit ''task_id'', JStr (rr_task_id r)), (lit ''status'', JStr (lit (status_str (rr_status r)))),
      (lit ''reason'', JStr (rr_reason r)), (lit ''trajectory_path'', JStr (path_str (rr_trajectory_path r))),
      (lit ''container_id'', opt_str (rr_container_id r))]"

definition verify_session :: "venv \<Rightarrow> session \<Rightarrow> (srv, jval) py" where
  "verify_session E sess = bind (run_verify E (tk_verify (se_task sess)) []) (\<lambda>failures.
     case verdict (s_quote E) failures (se_count sess) of (status, reason) \<Rightarrow>
       seq (log_event E Run_finished (finished status reason))
         (bind (get (\<lambda>s. sb_container (sb s))) (\<lambda>cid.
           ret (dump_result (result_of (se_task sess) status reason (se_path sess) cid)))))"

definition finish_task :: "venv \<Rightarrow> pystr \<Rightarrow> (srv, jval) py" where
  "finish_task E sid = pop_session sid (\<lambda>sess. try_finally (verify_session E sess)
     (seq (stop E) (seq close_writer (delete_session_file E sid))))"

definition abort_task :: "venv \<Rightarrow> pystr \<Rightarrow> (srv, jval) py" where
  "abort_task E sid = pop_session sid (\<lambda>_.
     seq (log_event E Run_finished (finished ERROR (lit ''aborted by agent'')))
       (seq (stop E) (seq close_writer (seq (delete_session_file E sid)
         (ret (JObj [(lit ''session_id'', JStr sid), (lit ''status'', JStr (lit ''aborted''))]))))))"

datatype tool =
    List_tasks "pystr option" "pystr option"
  | Describe_task pystr
  | Start_task pystr
  | Exec pystr pystr
  | Note pystr pystr
  | Fork pystr
  | Revert pystr pystr
  | Read_trajectory pystr int pystr
  | Finish_task pystr
  | Abort_task pystr

primrec call :: "venv \<Rightarrow> tool \<Rightarrow> (srv, jval) py" where
  "call E (List_tasks tag difficulty) = list_tasks E tag difficulty"
| "call E (Describe_task i) = describe_task E i"
| "call E (Start_task i) = start_task E i"
| "call E (Exec sid cmd) = exec_tool E sid cmd"
| "call E (Note sid thought) = note_tool E sid thought"
| "call E (Fork sid) = fork E sid"
| "call E (Revert sid snap) = revert_tool E sid snap"
| "call E (Read_trajectory sid since branch) = read_tool E sid since branch"
| "call E (Finish_task sid) = finish_task E sid"
| "call E (Abort_task sid) = abort_task E sid"

end
