(* ===== verification/Runner_Props.thy ===== *)
theory Runner_Props
  imports Runner
begin

text \<open>
  What a run leaves behind beside its trajectory, and the properties of the runner: the
  trajectory is sealed, the verdict agrees with the recorded verify commands, and nothing
  created for the run stays alive.
\<close>

section \<open>What a run releases\<close>

definition settled :: "dlog \<Rightarrow> bool" where
  "settled log \<longleftrightarrow> created log \<subseteq> removed log \<and> committed log \<subseteq> images_removed log
     \<and> proxies log \<subseteq> proxies_stopped log"

lemma same_sandbox_tracked: "keeps same_sandbox m \<Longrightarrow> preserves (tracked P I J) m"
  by (erule keeps_mono) (simp add: same_sandbox_def tracked_def)

lemma write_event_tracked [keeps_intros]: "preserves (tracked P I J) (write_event E ty d)"
  by (rule same_sandbox_tracked [OF write_event_same_sandbox])

lemma log_event_same_sandbox: "keeps same_sandbox (log_event E ty d)"
  by (auto simp: log_event_def intro!: keeps_intros write_event_same_sandbox)

lemma log_event_tracked [keeps_intros]: "preserves (tracked P I J) (log_event E ty d)"
  by (rule same_sandbox_tracked [OF log_event_same_sandbox])

lemma tracked_preserves:
  "(\<And>s. tracked P I J s \<Longrightarrow> wp m (\<lambda>_. tracked P I J) (\<lambda>_. tracked P I J) s) \<Longrightarrow> preserves (tracked P I J) m"
  by (rule keepsI) (simp add: wp_snd)

lemma exec_record_tracked [keeps_intros]: "preserves (tracked P I J) (exec E (record_egress E) cmd tmo)"
  by (intro tracked_preserves exec_tracked record_egress_same_sandbox)

lemma exec_and_record_tracked [keeps_intros]: "preserves (tracked P I J) (exec_and_record E ty cmd)"
  by (auto simp: exec_and_record_def intro!: keeps_intros)

lemma run_setup_tracked [keeps_intros]: "preserves (tracked P I J) (run_setup E cmds)"
  by (induction cmds) (auto intro!: keeps_intros)

lemma run_commands_tracked [keeps_intros]: "preserves (tracked P I J) (run_commands E cmds n)"
  by (induction cmds arbitrary: n) (auto intro!: keeps_intros)

lemma run_verify_tracked [keeps_intros]: "preserves (tracked P I J) (run_verify E cmds fs)"
  by (induction cmds arbitrary: fs) (auto intro!: keeps_intros)

lemma run_agent_tracked [keeps_intros]:
  "preserves (tracked P I J) (run_agent E ag n :: ('z sstate_scheme, nat) py)"
proof (induction ag arbitrary: n)
  case (Agent_exec cmd k)
  show ?case
  proof (rule keepsI, rule impI)
    fix s :: "'z sstate_scheme" assume s: "tracked P I J s"
    obtain r t where rt: "exec_and_record E Agent_command cmd s = (r, t)"
      by (cases "exec_and_record E Agent_command cmd s")
    have "tracked P I J t" using keepsD [OF exec_and_record_tracked rt] s by simp
    moreover have "tracked P I J t \<longrightarrow> tracked P I J (snd (run_agent E (k r) m t))" for m
      using Agent_exec.IH [OF rangeI, of r m] by (simp add: keeps_def)
    ultimately show "tracked P I J (snd (run_agent E (Agent_exec cmd k) n s))"
      using rt by (cases r) simp_all
  qed
qed (auto intro!: keeps_intros)

lemma run_phases_tracked [keeps_intros]: "preserves (tracked P I J) (run_phases E task ag cmds p cid)"
  by (auto simp: run_phases_def intro!: keeps_intros split: option.split prod.split)

lemma run_body_tracked:
  assumes "daemon_ok E" "tracked P I J (s :: 'z sstate_scheme)" "\<not> sb_client (sb s)"
  shows "wp (run_body E task ag cmds p) (\<lambda>_. tracked P I J) (\<lambda>_. tracked P I J) s"
proof -
  have l: "wp (log_event E ty d) (\<lambda>_. tracked P I J) (\<lambda>_. tracked P I J) t"
    if "tracked P I J t" for ty d and t :: "'z sstate_scheme"
    by (rule wp_preserves [OF log_event_tracked that])
  have p: "wp (run_phases E task ag cmds p cid) (\<lambda>_. tracked P I J) (\<lambda>_. tracked P I J) t"
    if "tracked P I J t" for cid and t :: "'z sstate_scheme"
    by (rule wp_preserves [OF run_phases_tracked that])
  show ?thesis
    unfolding run_body_def wp_simps
    by (rule wp_mono [OF start_tracked [OF assms(2,1,3)]])
      (auto simp: wp_simps split: option.split if_splits intro!: wp_mono [OF l] p)
qed

lemma stop_close_settles:
  assumes "daemon_ok E" "tracked {} {} {} s"
  shows "wp (seq (stop E) close_writer) (\<lambda>_ t. settled (dcalls t)) (\<lambda>_ t. settled (dcalls t)) s"
  by (simp add: wp_simps, rule wp_mono [OF stop_tracked [OF assms(2,1)]])
    (auto simp: close_writer_def wp_simps tracked_def settled_def set_wr_def)

lemma open_writer_same_sandbox: "keeps same_sandbox (open_writer E)"
proof -
  have "keeps same_sandbox (recover E)"
    by (rule keepsI) (auto simp: recover_def same_sandbox_def set_wr_def split: option.split sum.split)
  moreover have "keeps same_sandbox (modify (\<lambda>s. set_wr f (create_text (w_path (wr s)) s)))" for f
    by (rule keepsI) (simp add: same_sandbox_def set_wr_def create_text_def)
  ultimately show ?thesis
    by (auto simp: open_writer_def same_sandbox_def set_wr_def create_text_def intro!: keeps_intros)
qed

lemma wp_now_iso: "wp (now_iso E) Q X s
    \<longleftrightarrow> Q (utcnow_iso (e_clock E (ticks s))) (s\<lparr>ticks := Suc (ticks s)\<rparr>)"
  by (simp add: wp_def now_iso_def)

lemma run_settles:
  assumes ok: "daemon_ok E" and s: "settled (dcalls (s :: 'z sstate_scheme))"
  shows "wp (run E task root ag cmds) (\<lambda>_ t. settled (dcalls t)) (\<lambda>_ t. settled (dcalls t)) s"
proof -
  have new: "tracked {} {} {} (t\<lparr>sb := new_sandbox task True\<rparr>)" if "settled (dcalls t)"
    for t :: "'z sstate_scheme"
    using that by (auto simp: settled_def tracked_def new_sandbox_def)
  have n: "\<not> sb_client (new_sandbox task True)" by (simp add: new_sandbox_def)
  have l: "wp (seq (log_event E ty d) (raise e)) Q (\<lambda>_. tracked {} {} {}) t" if "tracked {} {} {} t"
    for ty d e Q and t :: "'z sstate_scheme"
    unfolding wp_seq by (rule wp_mono [OF wp_preserves [OF log_event_tracked that]]) (simp_all add: wp_raise)
  have te: "wp (try_except (run_body E task ag cmds p) (\<lambda>e. Some (seq (log_event E ty (d e)) (raise e))))
      (\<lambda>_. tracked {} {} {}) (\<lambda>_. tracked {} {} {}) (t\<lparr>sb := new_sandbox task True\<rparr>)"
    if "settled (dcalls t)" for p ty d and t :: "'z sstate_scheme"
    unfolding wp_try_except option.case
    by (rule wp_mono [OF run_body_tracked [OF ok new [OF that]]]) (simp_all add: n l)
  have fin: "wp (try_finally (try_except (run_body E task ag cmds p)
        (\<lambda>e. Some (seq (log_event E ty (d e)) (raise e)))) (seq (stop E) close_writer))
      (\<lambda>_ t. settled (dcalls t)) (\<lambda>_ t. settled (dcalls t)) (t\<lparr>sb := new_sandbox task True\<rparr>)"
    if "settled (dcalls t)" for p ty d and t :: "'z sstate_scheme"
    unfolding wp_try_finally
    by (rule wp_mono [OF te [OF that]]) (erule stop_close_settles [OF ok])+
  have o: "wp (open_writer E) (\<lambda>_ t. settled (dcalls t)) (\<lambda>_ t. settled (dcalls t)) t"
    if "settled (dcalls t)" for t :: "'z sstate_scheme"
    by (rule wp_mono [OF wp_keeps [OF open_writer_same_sandbox]]) (use that in \<open>simp_all add: same_sandbox_def\<close>)
  have b: "wp (bind (trajectory_path E task root) (\<lambda>p.
        seq (modify (\<lambda>s. s\<lparr>wr := w p\<rparr>)) (seq (open_writer E)
          (seq (modify (\<lambda>s. s\<lparr>sb := new_sandbox task True\<rparr>))
            (try_finally (try_except (run_body E task ag cmds p)
              (\<lambda>e. Some (seq (log_event E ty (d e)) (raise e)))) (seq (stop E) close_writer))))))
      (\<lambda>_ t. settled (dcalls t)) (\<lambda>_ t. settled (dcalls t)) s" for w ty d
    unfolding trajectory_path_def wp_bind wp_seq wp_modify wp_ret wp_now_iso
    by (rule wp_mono [OF o], simp add: s, rule fin [unfolded wp_seq], assumption, assumption)
  show ?thesis using b s by (simp add: run_def wp_raise)
qed


section \<open>A concrete run\<close>

definition run_senv :: senv where
  "run_senv = env.extend (json_env (e_clock demo_env) (\<lambda>_. lit ''h''))
     \<lparr>s_daemon = demo_daemon, s_uuid = (\<lambda>_. lit ''u''), s_quote = (\<lambda>s. s), s_exn_repr = (\<lambda>_. [])\<rparr>"

definition run_task :: task where
  "run_task = demo_task\<lparr>tk_network := \<lparr>ns_mode = Mode_none, ns_extra_allow = []\<rparr>,
     tk_verify := [lit ''v'']\<rparr>"

definition run_start :: sstate where
  "run_start = tstate.extend demo_start \<lparr>dcalls = [], uuids = 0, sb = new_sandbox run_task True\<rparr>"

lemma run_senv_sel [simp]: "s_daemon run_senv = demo_daemon" "s_quote run_senv = (\<lambda>s. s)"
  "s_exn_repr run_senv = (\<lambda>_. [])" "e_clock run_senv = e_clock demo_env" "e_dump run_senv = json_line"
  "e_loads run_senv = json_loads" "e_sha run_senv = (\<lambda>_. lit ''h'')" "e_lax_int run_senv (JInt n) = Some n"
  by (simp_all add: run_senv_def json_env_def env.defs)

lemma run_start_sel [simp]: "texts run_start = Map.empty" "dcalls run_start = []" "ticks run_start = 0"
  by (simp_all add: run_start_def demo_start_def tstate.defs)

lemma run_codec: "codec_ok run_senv"
  by (rule json_codec) simp_all

lemma lit_scalar [simp]: "list_all is_scalar (lit t)"
proof -
  have "of_char c < (55296 :: nat)" for c
    by (rule less_le_trans [OF nat_of_char_less_256]) simp
  then show ?thesis by (simp add: lit_def list_all_iff is_scalar_def)
qed

lemma utcnow_iso_scalar: "list_all is_scalar (utcnow_iso t)"
proof -
  have "list_all is_scalar (pad0 w (dec_digits n))" for w n
    using dec_digits_range by (fastforce simp: pad0_def list_all_iff is_scalar_def)
  then show ?thesis by (simp add: utcnow_iso_def)
qed

lemma run_repr_dumps: "repr_dumps run_senv"
  by (simp add: repr_dumps_def json_line_def dump_event_def finished_def utcnow_iso_scalar)

lemma run_daemon_ok: "daemon_ok run_senv"
  by (auto simp: daemon_ok_def demo_daemon_def split: dcall.splits)


definition writing :: "'z tstate_scheme \<Rightarrow> bool" where
  "writing s \<longleftrightarrow> w_fh (wr s) \<and> \<not> w_closed (wr s) \<and> 0 \<le> w_seq (wr s)
     \<and> w_max_stream_bytes (wr s) = DEFAULT_MAX_BYTES"

lemma json_write_wp:
  assumes "e_dump E = json_line" "writing s" "dumpable (JObj d)" "cap_event_data E ty d s = (Inr d, s)"
    and "\<And>ev t. writing t \<Longrightarrow> same_sandbox s t \<Longrightarrow> Q ev t"
  shows "wp (write_event E ty d) Q X s"
proof -
  obtain ev t where w: "write_event E ty d s = (Inr ev, t)" and
      t: "wr t = (wr s)\<lparr>w_seq := w_seq (wr s) + 1\<rparr>"
    using assms(1-4)
    by (auto simp: write_event_def bind_def now_iso_def make_event_def emit_line_def writing_def json_line_def
        dump_event_def utcnow_iso_scalar py_defs set_wr_def append_text_def)
  have "writing t" using assms(2) t by (simp add: writing_def)
  moreover have "same_sandbox s t" using keepsD [OF write_event_same_sandbox w] .
  ultimately show ?thesis using assms(5) w by (simp add: wp_def)
qed


lemma run_cap: "writing s \<Longrightarrow> cap_event_data run_senv Verify_command (dump_command
    \<lparr>cr_cmd = c, cr_exit_code = n, cr_stdout = [97], cr_stderr = [], cr_duration_ms = d\<rparr>) s
  = (Inr (dump_command \<lparr>cr_cmd = c, cr_exit_code = n, cr_stdout = [97], cr_stderr = [],
      cr_duration_ms = d\<rparr>), s)"
  by (auto simp: cap_event_data_def writing_def cap_command_data_def CAPPED_FIELDS_def cap_field_def
      dump_command_def cap_stream_eq enc1_def is_scalar_def DEFAULT_MAX_BYTES_def py_defs split: option.split)

lemma run_verify_wp:
  assumes "writing s" "sb_container (sb s) = Some c" "sb_proxy (sb s) = None"
  shows "wp (run_verify run_senv [lit ''v''] []) (\<lambda>fs t. fs = [] \<and> writing t) (\<lambda>_ _. False) s"
proof -
  have d: "decode_stream (Some [97]) = [97]" "decode_stream None = []" by code_simp+
  have w: "writing (answered q r s)" for q r using assms(1) by (simp add: writing_def)
  show ?thesis
    using assms w
    by (auto simp: exec_and_record_def exec_def wp_simps Let_def demo_daemon_def d writing_def [symmetric]
        dump_command_def is_scalar_def
        intro!: json_write_wp run_cap [unfolded dump_command_def, simplified])
qed


lemma run_returns: "wp (run run_senv run_task [] None None)
    (\<lambda>res _. rr_status res = PASSED) (\<lambda>_ _. False) run_start"
proof -
  have o: "wp (open_writer run_senv) (\<lambda>_ t. writing t \<and> dcalls t = []) (\<lambda>_ _. False)
      (run_start\<lparr>ticks := Suc 0, wr := new_writer p (Some d) DEFAULT_MAX_BYTES\<rparr>)" for p d
    by (simp add: wp_def open_writer_new_file new_writer_def writing_def create_text_def set_wr_def)
  have st: "wp (start run_senv) (\<lambda>_ t. writing t \<and> sb_container (sb t) = Some (lit ''c1'')
      \<and> sb_proxy (sb t) = None) (\<lambda>_ _. False) t"
    if "writing t" "dcalls t = []" "sb t = new_sandbox run_task True" for t :: sstate
    using that by (simp add: start_def from_env_def start_proxy_def start_create_def start_run_def
      create_container_def wp_simps new_sandbox_def run_task_def demo_task_def demo_daemon_def
      make_container_kwargs_def network_kwargs_def Let_def writing_def)
  have lg: "wp (log_event run_senv ty d) Q X t"
    if "writing t" "ty \<notin> CAPPED_EVENT_TYPES" "dumpable (JObj d)"
      "\<And>u. writing u \<Longrightarrow> same_sandbox t u \<Longrightarrow> Q () u"
    for ty d Q X and t :: sstate
    unfolding log_event_def wp_bind
    by (rule json_write_wp) (use that in \<open>simp_all add: cap_event_data_def bind_def py_defs wp_simps split: option.split\<close>)
  have ph: "wp (run_phases run_senv run_task None None p cid) (\<lambda>res _. rr_status res = PASSED) (\<lambda>_ _. False) t"
    if "writing t" "sb_container (sb t) = Some c" "sb_proxy (sb t) = None" "cid = Some (lit ''c1'')"
    for p cid c and t :: sstate
    using that
    by (auto simp: run_phases_def wp_simps run_task_def demo_task_def verdict_def result_of_def
        CAPPED_EVENT_TYPES_def started_data_def finished_def dump_network_def opt_str_def str_list_def same_sandbox_def simp del: run_verify.simps
        intro!: lg wp_mono [OF run_verify_wp [where c = c]])
  have body: "wp (run_body run_senv run_task None None p)
      (\<lambda>res t. rr_status res = PASSED \<and> tracked {} {} {} t) (\<lambda>_ _. False) t"
    if "writing t" "dcalls t = []" "sb t = new_sandbox run_task True" for p and t :: sstate
  proof -
    have "tracked {} {} {} t" using that by (simp add: tracked_def new_sandbox_def)
    moreover have "\<not> sb_client (sb t)" using that by (simp add: new_sandbox_def)
    ultimately have "wp (run_body run_senv run_task None None p) (\<lambda>_. tracked {} {} {}) (\<lambda>_. tracked {} {} {}) t"
      by (rule run_body_tracked [OF run_daemon_ok])
    moreover have "wp (run_body run_senv run_task None None p)
        (\<lambda>res _. rr_status res = PASSED) (\<lambda>_ _. False) t"
      unfolding run_body_def wp_simps
      by (rule wp_mono [OF st [OF that]]) (auto simp: wp_simps intro!: ph)
    ultimately show ?thesis by (rule wp_mono [OF wp_conj]) auto
  qed
  have fin: "wp (seq (stop run_senv) close_writer) Q (\<lambda>_ _. False) t"
    if "tracked {} {} {} t" "\<And>u. Q () u" for Q and t :: sstate
    unfolding wp_seq by (rule wp_mono [OF stop_tracked [OF that(1) run_daemon_ok]])
      (simp_all add: close_writer_def wp_modify that(2))
  have tf: "wp (try_finally (try_except (run_body run_senv run_task None None p) h)
      (seq (stop run_senv) close_writer)) (\<lambda>res _. rr_status res = PASSED) (\<lambda>_ _. False)
      (t\<lparr>sb := new_sandbox run_task True\<rparr>)" if "writing t" "dcalls t = []" for p h and t :: sstate
    unfolding wp_try_finally wp_try_except
    by (rule wp_mono [OF body]) (use that fin in \<open>auto simp: writing_def\<close>)
  show ?thesis
    unfolding run_def trajectory_path_def
    by (simp add: wp_bind wp_seq wp_modify wp_ret wp_now_iso)
      (rule wp_mono [OF o], simp add: wp_seq wp_modify, rule tf; simp)
qed


section \<open>Properties\<close>



text \<open>C10. The verdict a run returns agrees with what its trajectory records: it is PASSED when
  every verify command of the task has run, once and in order, with exit code 0; FAILED when all
  have run and one exited otherwise; ERROR when none has run.\<close>

theorem run_verdict_is_recorded:
  assumes "codec_ok E" "texts s (run_path E task root s) = None"
    and "run E task root ag cmds s = (Inr res, t)"
  shows "\<exists>c evs. texts t (run_path E task root s) = Some c \<and> read_trajectory E c = Inr evs
    \<and> (case rr_status res of
         PASSED \<Rightarrow> verify_outcomes evs = map (\<lambda>c. (Some (JStr c), Some (JInt 0))) (tk_verify task)
       | FAILED \<Rightarrow> (\<exists>codes. length codes = length (tk_verify task) \<and> \<not> list_all (\<lambda>n. n = 0) codes
           \<and> verify_outcomes evs = outcomes (tk_verify task) codes)
       | ERROR \<Rightarrow> verify_outcomes evs = [])"
proof -
  obtain c evs where "texts t (run_path E task root s) = Some c" "renders E evs c" "numbered evs"
    "judged task (rr_status res) evs"
    using wp_Inr [OF run_verdict [OF assms(2)] assms(3)] unfolding concluded_def by blast
  with read_rendered [OF assms(1)] show ?thesis unfolding judged_def by blast
qed

theorem run_verdict_is_recorded_witness:
  "\<exists>c evs. texts (snd (run run_senv run_task [] None None run_start))
        (run_path run_senv run_task [] run_start) = Some c
    \<and> read_trajectory run_senv c = Inr evs
    \<and> verify_outcomes evs = [(Some (JStr (lit ''v'')), Some (JInt 0))]"
proof -
  let ?r = "run run_senv run_task [] None None run_start"
  obtain res t where r: "?r = (Inr res, t)" "rr_status res = PASSED"
    using wp_return [OF run_returns] by blast
  have "\<exists>c evs. texts t (run_path run_senv run_task [] run_start) = Some c
      \<and> read_trajectory run_senv c = Inr evs
      \<and> (case rr_status res of
         PASSED \<Rightarrow> verify_outcomes evs = map (\<lambda>c. (Some (JStr c), Some (JInt 0))) (tk_verify run_task)
       | FAILED \<Rightarrow> (\<exists>codes. length codes = length (tk_verify run_task) \<and> \<not> list_all (\<lambda>n. n = 0) codes
           \<and> verify_outcomes evs = outcomes (tk_verify run_task) codes)
       | ERROR \<Rightarrow> verify_outcomes evs = [])"
    by (rule run_verdict_is_recorded [OF run_codec _ r(1)]) simp
  then show ?thesis using r by (simp add: run_task_def)
qed



end
