(* ===== verification/Mcp_Sessions.thy ===== *)
theory Mcp_Sessions
  imports Mcp_Server Runner_Props
begin

text \<open>
  Who owns what the server creates: between two tool calls, every container, snapshot image
  and proxy not yet given back belongs to the sandbox of a live session.
\<close>

section \<open>Operations on a sandbox leave the table alone\<close>

definition same_rest :: "'z sstate_scheme \<Rightarrow> 'z sstate_scheme \<Rightarrow> bool" where
  "same_rest s t \<longleftrightarrow> sstate.more t = sstate.more s \<and> uuids s \<le> uuids t"

lemma same_rest_refl [simp]: "reflp same_rest"
  and same_rest_trans [simp]: "transp same_rest"
  by (auto simp: same_rest_def reflp_def transp_def)

lemma same_rest_basic [simp]: "same_rest s (answered c r s)" "same_rest s (set_sb f s)"
  by (simp_all add: same_rest_def answered_def set_sb_def)

lemma same_sandbox_rest: "keeps same_sandbox m \<Longrightarrow> keeps same_rest m"
  by (erule keeps_mono) (simp add: same_sandbox_def same_rest_def)

lemma docker_rest [keeps_intros]: "keeps same_rest (docker E c)"
  by (rule keepsI) (simp add: docker_def Let_def)

lemma docker_do_rest [keeps_intros]: "keeps same_rest (docker_do E c)"
  by (auto simp: docker_do_def intro!: keeps_intros)

lemma set_sb_rest [keeps_intros]: "keeps same_rest (modify (set_sb f))"
  by (rule keeps_modify) simp

lemma new_uuid_rest [keeps_intros]: "keeps same_rest (new_uuid E)"
  by (rule keepsI) (simp add: new_uuid_def same_rest_def)

lemma from_env_rest [keeps_intros]: "keeps same_rest (from_env E)"
  by (auto simp: from_env_def intro!: keeps_intros split: if_splits)

lemma teardown_proxy_rest [keeps_intros]: "keeps same_rest (teardown_proxy E)"
  by (auto simp: teardown_proxy_def intro!: keeps_intros split: option.split)

lemma create_container_rest [keeps_intros]: "keeps same_rest (create_container E i)"
  by (auto simp: create_container_def intro!: keeps_intros split: sum.split)

lemma start_proxy_rest [keeps_intros]: "keeps same_rest (start_proxy E)"
  by (auto simp: start_proxy_def Let_def intro!: keeps_intros)

lemma discard_rest [keeps_intros]: "keeps same_rest (discard E c)"
  by (auto simp: discard_def intro!: keeps_intros split: option.split)

lemma start_rest [keeps_intros]: "keeps same_rest (start E)"
  by (auto simp: start_def start_create_def start_run_def intro!: keeps_intros split: if_splits)

lemma stop_rest [keeps_intros]: "keeps same_rest (stop E)"
  by (auto simp: stop_def delete_snapshots_def intro!: keeps_intros)

lemma snapshot_rest [keeps_intros]: "keeps same_rest (snapshot E ls)"
  by (auto simp: snapshot_def intro!: keeps_intros split: if_splits option.split)

lemma revert_rest [keeps_intros]: "keeps same_rest (revert E i)"
  by (auto simp: revert_def revert_run_def intro!: keeps_intros split: if_splits)

lemma write_event_rest [keeps_intros]: "keeps same_rest (write_event E ty d)"
  by (rule same_sandbox_rest [OF write_event_same_sandbox])

lemma log_event_rest [keeps_intros]: "keeps same_rest (log_event E ty d)"
  by (rule same_sandbox_rest [OF log_event_same_sandbox])

lemma open_writer_rest [keeps_intros]: "keeps same_rest (open_writer E)"
  by (rule same_sandbox_rest [OF open_writer_same_sandbox])

lemma close_writer_same_sandbox: "keeps same_sandbox close_writer"
  by (rule keepsI) (simp add: close_writer_def same_sandbox_def set_wr_def)

lemma close_writer_rest [keeps_intros]: "keeps same_rest close_writer"
  by (rule same_sandbox_rest [OF close_writer_same_sandbox])

lemma now_iso_same_sandbox: "keeps same_sandbox (now_iso E)"
  by (rule keepsI) (simp add: now_iso_def same_sandbox_def)

lemma now_iso_rest [keeps_intros]: "keeps same_rest (now_iso E)"
  by (rule same_sandbox_rest [OF now_iso_same_sandbox])

lemma exec_rest [keeps_intros]: "keeps same_rest (exec E (record_egress E) cmd tmo)"
proof -
  have "keeps same_rest (proxied (record_egress E) ds)" for ds
    by (intro proxied_keeps same_sandbox_rest record_egress_same_sandbox) simp_all
  then show ?thesis
    by (auto simp: exec_def Let_def intro!: keeps_intros split: if_splits option.split)
qed

lemma exec_and_record_rest [keeps_intros]: "keeps same_rest (exec_and_record E ty cmd)"
  by (auto simp: exec_and_record_def intro!: keeps_intros)

lemma run_setup_rest [keeps_intros]: "keeps same_rest (run_setup E cmds)"
  by (induction cmds) (auto intro!: keeps_intros)

lemma run_verify_rest [keeps_intros]: "keeps same_rest (run_verify E cmds fs)"
  by (induction cmds arbitrary: fs) (auto intro!: keeps_intros)

definition same_table :: "srv \<Rightarrow> srv \<Rightarrow> bool" where
  "same_table s t \<longleftrightarrow> sessions t = sessions s \<and> uuids s \<le> uuids t"

lemma same_table_refl [simp]: "reflp same_table"
  and same_table_trans [simp]: "transp same_table"
  by (auto simp: same_table_def reflp_def transp_def)

lemma same_rest_sel: "same_rest (s :: srv) t \<Longrightarrow> sessions t = sessions s \<and> descs t = descs s"
  by (cases s, cases t) (simp add: same_rest_def)

lemma same_more_sessions: "sstate.more t = sstate.more (s :: srv) \<Longrightarrow> sessions t = sessions s"
  by (cases s, cases t) simp

lemma same_rest_table: "keeps same_rest m \<Longrightarrow> keeps same_table m"
  by (erule keeps_mono) (use same_rest_sel in \<open>auto simp: same_table_def same_rest_def\<close>)

section \<open>Ownership\<close>

definition held :: "(pystr \<rightharpoonup> session) \<Rightarrow> pystr set" where
  "held M = (\<Union>se\<in>ran M. set_option (sb_container (se_sandbox se)))"

definition held_images :: "(pystr \<rightharpoonup> session) \<Rightarrow> pystr set" where
  "held_images M = (\<Union>se\<in>ran M. snapshot_image ` set (sb_snapshots (se_sandbox se)))"

definition held_proxies :: "(pystr \<rightharpoonup> session) \<Rightarrow> int set" where
  "held_proxies M = (\<Union>se\<in>ran M. px_port ` set_option (sb_proxy (se_sandbox se)))"

definition clean :: "sandbox \<Rightarrow> bool" where
  "clean b \<longleftrightarrow> (\<not> sb_client b \<longrightarrow> sb_snapshots b = [] \<and> sb_proxy b = None)"

definition owned :: "venv \<Rightarrow> srv \<Rightarrow> bool" where
  "owned E s \<longleftrightarrow> created (dcalls s) \<subseteq> removed (dcalls s) \<union> held (sessions s)
     \<and> committed (dcalls s) \<subseteq> images_removed (dcalls s) \<union> held_images (sessions s)
     \<and> proxies (dcalls s) \<subseteq> proxies_stopped (dcalls s) \<union> held_proxies (sessions s)
     \<and> (\<forall>se\<in>ran (sessions s). clean (se_sandbox se))
     \<and> dom (sessions s) \<subseteq> s_uuid E ` {..<uuids s}"

text \<open>The register's sandbox owns what the sessions in \<open>M\<close> do not.\<close>

definition aside :: "(pystr \<rightharpoonup> session) \<Rightarrow> srv \<Rightarrow> bool" where
  "aside M s \<longleftrightarrow> tracked (held M) (held_images M) (held_proxies M) s"

lemma ran_update: "ran (M(k \<mapsto> v)) = insert v (ran (M(k := None)))"
  by (auto simp: ran_def)

lemma ran_remove: "M k = Some v \<Longrightarrow> ran M = insert v (ran (M(k := None)))"
  using ran_update [of M k v] by (simp add: map_upd_triv)

lemma owned_load: "owned E s \<Longrightarrow> sessions s sid = Some sess
    \<Longrightarrow> aside ((sessions s)(sid := None)) (load sess s)"
  unfolding owned_def aside_def tracked_def held_def held_images_def held_proxies_def
  by (simp only: ran_remove [of "sessions s"]) (auto simp: load_def clean_def)

lemma owned_store:
  assumes "aside ((sessions t)(sid := None)) t" "dom (sessions t) \<subseteq> s_uuid E ` {..<uuids t}"
    "sid \<in> s_uuid E ` {..<uuids t}" "\<forall>se\<in>ran ((sessions t)(sid := None)). clean (se_sandbox se)"
  shows "owned E (store sid sess t)"
  using assms unfolding owned_def aside_def tracked_def held_def held_images_def held_proxies_def
  by (auto simp: store_def ran_update clean_def)


definition safe :: "(srv, 'a) py \<Rightarrow> bool" where
  "safe m \<longleftrightarrow> (\<forall>P I J s. tracked P I J s \<longrightarrow> wp m (\<lambda>_. tracked P I J) (\<lambda>_. tracked P I J) s)
     \<and> keeps same_table m"

lemma safeI:
  "(\<And>P I J. preserves (tracked P I J) m) \<Longrightarrow> keeps same_table m \<Longrightarrow> safe m"
  by (simp add: safe_def wp_snd keeps_def)

lemma safe_table: "safe m \<Longrightarrow> m s = (r, t) \<Longrightarrow> same_table s t"
  by (auto simp: safe_def dest: keepsD)

lemma safe_tracked: "safe m \<Longrightarrow> m s = (r, t) \<Longrightarrow> tracked P I J s \<Longrightarrow> tracked P I J t"
  by (fastforce simp: safe_def wp_snd)

lemma on_session_owned:
  assumes "\<And>sess. safe (m sess)"
  shows "preserves (owned E) (on_session sid m)"
proof (rule keepsI, rule impI)
  fix s assume s: "owned E s"
  show "owned E (snd (on_session sid m s))"
  proof (cases "sessions s sid")
    case None
    with s show ?thesis by (simp add: on_session_def)
  next
    case (Some sess)
    obtain r t where m: "m sess (load sess s) = (r, t)" by (cases "m sess (load sess s)")
    have "same_table (load sess s) t" using assms m by (rule safe_table)
    then have t: "sessions t = sessions s" "uuids s \<le> uuids t" by (simp_all add: same_table_def load_def)
    have "aside ((sessions s)(sid := None)) (load sess s)" using s Some by (rule owned_load)
    then have a: "aside ((sessions t)(sid := None)) t"
      unfolding aside_def t by (rule safe_tracked [OF assms m])
    have d: "dom (sessions t) \<subseteq> s_uuid E ` {..<uuids t}" "\<forall>se\<in>ran (sessions t). clean (se_sandbox se)"
      using s t by (auto simp: owned_def)
    then have "sid \<in> s_uuid E ` {..<uuids t}" using Some t(1) by auto
    moreover have "\<forall>se\<in>ran ((sessions t)(sid := None)). clean (se_sandbox se)"
      using d(2) by (auto simp: ran_def split: if_splits)
    ultimately have "owned E (store sid sess t)" using a d(1) by (intro owned_store)
    with Some m show ?thesis by (simp add: on_session_def)
  qed
qed

lemma count_command_owned [keeps_intros]: "preserves (owned E) (count_command sid)"
proof (rule keepsI, rule impI)
  fix s assume s: "owned E s"
  show "owned E (snd (count_command sid s))"
  proof (cases "sessions s sid")
    case None
    then have "(sessions s)(sid := None) = sessions s" by (simp add: map_upd_triv fun_upd_idem)
    with None s show ?thesis by (simp add: count_command_def)
  next
    case (Some sess)
    have "ran ((sessions s)(sid \<mapsto> sess\<lparr>se_count := Suc (se_count sess)\<rparr>))
        = insert (sess\<lparr>se_count := Suc (se_count sess)\<rparr>) (ran ((sessions s)(sid := None)))"
      by (rule ran_update)
    moreover have "ran (sessions s) = insert sess (ran ((sessions s)(sid := None)))"
      using Some by (rule ran_remove)
    ultimately show ?thesis using s Some
      by (auto simp: count_command_def owned_def held_def held_images_def held_proxies_def)
  qed
qed

lemma snapshot_tracked_keeps [keeps_intros]: "preserves (tracked P I J) (snapshot E ls)"
  by (rule keepsI) (simp add: snapshot_tracked wp_snd [symmetric])

lemma revert_tracked_keeps: "daemon_ok E \<Longrightarrow> preserves (tracked P I J) (revert E i)"
  by (rule keepsI) (simp add: revert_tracked wp_snd [symmetric])

lemma descs_update_tracked [keeps_intros]: "preserves (tracked P I J) (modify (\<lambda>s :: srv. s\<lparr>descs := f s\<rparr>))"
  by (rule keeps_modify) (simp add: tracked_def)

lemma now_iso_tracked [keeps_intros]: "preserves (tracked P I J) (now_iso E)"
  by (rule same_sandbox_tracked [OF now_iso_same_sandbox])

lemma persist_session_tracked [keeps_intros]: "preserves (tracked P I J) (persist_session E sid task p)"
  by (auto simp: persist_session_def intro!: keeps_intros)

lemma persist_session_table [keeps_intros]: "keeps same_table (persist_session E sid task p)"
proof -
  have "keeps same_table (now_iso E)" by (intro same_rest_table now_iso_rest)
  moreover have "keeps same_table (modify (\<lambda>s. s\<lparr>descs := f s\<rparr>))" for f
    by (rule keeps_modify) (simp add: same_table_def)
  ultimately show ?thesis unfolding persist_session_def
    by (intro keeps_bind keeps_get) simp_all
qed

lemma session_tools_owned:
  assumes "daemon_ok E"
  shows "preserves (owned E) (exec_tool E sid cmd)" "preserves (owned E) (note_tool E sid th)"
    "preserves (owned E) (fork E sid)" "preserves (owned E) (revert_tool E sid i)"
    "preserves (owned E) (read_tool E sid since branch)"
proof -
  have t: "keeps same_table (exec E (record_egress E) cmd None)" "keeps same_table (write_event E ty d)"
    "keeps same_table (log_event E ty d)" "keeps same_table (snapshot E ls)" "keeps same_table (revert E i)"
    for ty d ls by (intro same_rest_table keeps_intros)+
  show "preserves (owned E) (exec_tool E sid cmd)"
    by (auto simp: exec_tool_def intro!: keeps_intros on_session_owned safeI t)
  show "preserves (owned E) (note_tool E sid th)"
    by (auto simp: note_tool_def intro!: keeps_intros on_session_owned safeI t)
  show "preserves (owned E) (fork E sid)"
    by (auto simp: fork_def intro!: keeps_intros on_session_owned safeI t)
  show "preserves (owned E) (revert_tool E sid i)"
    by (auto simp: revert_tool_def intro!: keeps_intros on_session_owned safeI t revert_tracked_keeps assms)
  have r: "keeps R (read_file E p)" if "reflp R" for p and R :: "srv \<Rightarrow> srv \<Rightarrow> bool"
    by (rule keepsI) (simp add: read_file_def reflpD [OF that])
  note r = r [OF same_table_refl] r [OF preserves_refl]
  show "preserves (owned E) (read_tool E sid since branch)"
    by (auto simp: read_tool_def intro!: keeps_intros on_session_owned safeI r)
qed


section \<open>Sessions end\<close>

lemma delete_session_file_keeps:
  assumes "reflp R" "transp R" "\<And>s f. R s (s\<lparr>descs := f\<rparr>)"
  shows "keeps R (delete_session_file E sid)"
  unfolding delete_session_file_def try_unlink_def unlink_def using assms
  by (auto intro!: keeps_intros split: if_splits)

lemma verify_session_safe: "safe (verify_session E sess)"
proof (rule safeI)
  show "preserves (tracked P I J) (verify_session E sess)" for P I J
    by (auto simp: verify_session_def intro!: keeps_intros split: prod.split)
  have "keeps same_rest (verify_session E sess)"
    by (auto simp: verify_session_def intro!: keeps_intros split: prod.split)
  then show "keeps same_table (verify_session E sess)" by (rule same_rest_table)
qed

lemma owned_aside:
  assumes "aside (sessions s) s" "sb_container (sb s) = None" "sb_snapshots (sb s) = []"
    "sb_proxy (sb s) = None" "\<forall>se\<in>ran (sessions s). clean (se_sandbox se)"
    "dom (sessions s) \<subseteq> s_uuid E ` {..<uuids s}"
  shows "owned E s"
  using assms unfolding owned_def aside_def tracked_def by simp

text \<open>What is left to do for a popped session: the state, its table without the session.\<close>

definition popped :: "venv \<Rightarrow> srv \<Rightarrow> bool" where
  "popped E s \<longleftrightarrow> aside (sessions s) s \<and> (\<forall>se\<in>ran (sessions s). clean (se_sandbox se))
     \<and> dom (sessions s) \<subseteq> s_uuid E ` {..<uuids s}"

lemma pop_popped:
  assumes "owned E s" "sessions s sid = Some sess"
  shows "popped E (load sess (s\<lparr>sessions := (sessions s)(sid := None)\<rparr>))"
proof -
  have "aside ((sessions s)(sid := None)) (load sess s)" using assms by (rule owned_load)
  then show ?thesis using assms(1)
    by (auto simp: popped_def owned_def aside_def tracked_def load_def ran_def split: if_splits)
qed

lemma same_table_popped:
  "same_table s t \<Longrightarrow> tracked (held (sessions s)) (held_images (sessions s)) (held_proxies (sessions s)) t
    \<Longrightarrow> popped E s \<Longrightarrow> popped E t"
  by (auto simp: popped_def aside_def same_table_def)

lemma safe_popped: "safe m \<Longrightarrow> preserves (popped E) m"
proof (rule keepsI, rule impI)
  fix s assume m: "safe m" and s: "popped E s"
  obtain r t where t: "m s = (r, t)" by (cases "m s")
  have "tracked (held (sessions s)) (held_images (sessions s)) (held_proxies (sessions s)) s"
    using s by (simp add: popped_def aside_def)
  with safe_table [OF m t] safe_tracked [OF m t this] s have "popped E t"
    by (intro same_table_popped [of s t E])
  with t show "popped E (snd (m s))" by simp
qed

lemma stop_owned:
  assumes "daemon_ok E" "popped E s"
  shows "wp (stop E) (\<lambda>_. owned E) (\<lambda>_ _. False) s"
proof -
  let ?M = "sessions s"
  have "tracked (held ?M) (held_images ?M) (held_proxies ?M) s"
    using assms(2) by (simp add: popped_def aside_def)
  from wp_conj [OF stop_tracked [OF this assms(1), where X = "\<lambda>_ _. False"] wp_keeps [OF same_rest_table [OF stop_rest]]]
  show ?thesis
  proof (rule wp_mono)
    fix a t
    assume "(tracked (held ?M) (held_images ?M) (held_proxies ?M) t \<and> sb_container (sb t) = None
        \<and> sb_snapshots (sb t) = [] \<and> sb_proxy (sb t) = None) \<and> same_table s t"
    with assms(2) show "owned E t"
      by (intro owned_aside) (auto simp: popped_def aside_def same_table_def)
  qed simp
qed

lemma close_writer_owned [keeps_intros]: "preserves (owned E) close_writer"
  by (rule keepsI) (simp add: close_writer_def set_wr_def owned_def)

lemma delete_session_file_owned [keeps_intros]: "preserves (owned E) (delete_session_file E sid)"
  by (rule delete_session_file_keeps) (simp_all add: owned_def)

lemma wp_cleanup:
  assumes "daemon_ok E" "popped E s"
  shows "wp (seq (stop E) (seq close_writer (delete_session_file E sid))) (\<lambda>_. owned E) (\<lambda>_. owned E) s"
  unfolding wp_seq
  by (rule wp_mono [OF stop_owned [OF assms]])
    (auto intro!: wp_mono [OF wp_preserves [OF close_writer_owned]] wp_preserves [OF delete_session_file_owned])

lemma finish_task_owned:
  assumes "daemon_ok E" "owned E s"
  shows "wp (finish_task E sid) (\<lambda>_. owned E) (\<lambda>_. owned E) s"
proof (cases "sessions s sid")
  case None
  with assms(2) show ?thesis by (simp add: finish_task_def pop_session_def wp_def)
next
  case (Some sess)
  have "wp (verify_session E sess) (\<lambda>_. popped E) (\<lambda>_. popped E)
      (load sess (s\<lparr>sessions := (sessions s)(sid := None)\<rparr>))"
    by (rule wp_preserves [OF safe_popped [OF verify_session_safe] pop_popped [OF assms(2) Some]])
  then have "wp (try_finally (verify_session E sess) (seq (stop E) (seq close_writer (delete_session_file E sid))))
      (\<lambda>_. owned E) (\<lambda>_. owned E) (load sess (s\<lparr>sessions := (sessions s)(sid := None)\<rparr>))"
    unfolding wp_try_finally by (rule wp_mono) (erule wp_cleanup [OF assms(1)])+
  with Some show ?thesis by (simp add: finish_task_def pop_session_def wp_def)
qed

lemma abort_task_owned:
  assumes "daemon_ok E" "owned E s"
  shows "wp (abort_task E sid) (\<lambda>_. owned E) (\<lambda>_ _. True) s"
proof (cases "sessions s sid")
  case None
  then show ?thesis by (simp add: abort_task_def pop_session_def wp_def)
next
  case (Some sess)
  let ?s = "load sess (s\<lparr>sessions := (sessions s)(sid := None)\<rparr>)"
  have "safe (log_event E ty d)" for ty d
    by (intro safeI keeps_intros same_rest_table)
  then have l: "wp (log_event E ty d) (\<lambda>_. popped E) (\<lambda>_ _. True) ?s" for ty d
    by (intro wp_mono [OF wp_preserves [OF safe_popped pop_popped [OF assms(2) Some]]]) auto
  have c: "wp (seq (stop E) (seq close_writer (seq (delete_session_file E sid) (ret v)))) (\<lambda>_. owned E)
      (\<lambda>_ _. True) t" if "popped E t" for v :: jval and t
    using wp_cleanup [OF assms(1) that, of sid] unfolding wp_seq wp_ret
    by (elim wp_mono) auto
  have "wp (seq (log_event E Run_finished d) (seq (stop E) (seq close_writer
      (seq (delete_session_file E sid) (ret v))))) (\<lambda>_. owned E) (\<lambda>_ _. True) ?s" for d and v :: jval
    unfolding wp_seq [of "log_event E Run_finished d"] by (rule wp_mono [OF l]) (auto intro: c)
  with Some show ?thesis by (simp add: abort_task_def pop_session_def wp_def)
qed


section \<open>Sessions begin\<close>

lemma wp_new_uuid: "wp (new_uuid E) Q X s \<longleftrightarrow> Q (s_uuid E (uuids s)) (s\<lparr>uuids := Suc (uuids s)\<rparr>)"
  by (simp add: wp_def new_uuid_def)

lemma open_session_owned:
  assumes "popped E s" "inj (s_uuid E)"
  shows "wp (open_session E task p) (\<lambda>_. owned E) (\<lambda>_ _. True) s"
proof -
  let ?sid = "s_uuid E (uuids s)"
  let ?se = "\<lparr>se_task = task, se_sandbox = sb s, se_writer = wr s, se_path = p, se_count = 0\<rparr>"
  let ?t = "s\<lparr>uuids := Suc (uuids s), sessions := (sessions s)(?sid \<mapsto> ?se)\<rparr>"
  have new: "sessions s ?sid = None"
  proof (rule ccontr)
    assume "sessions s ?sid \<noteq> None"
    then have "?sid \<in> s_uuid E ` {..<uuids s}" using assms(1) by (auto simp: popped_def)
    then show False using assms(2) by (auto dest: injD)
  qed
  have "owned E ?t"
    using assms(1) new unfolding popped_def aside_def tracked_def owned_def
    by (auto simp: held_def held_images_def held_proxies_def clean_def less_Suc_eq)
  moreover have "owned E (t\<lparr>descs := d\<rparr>)" if "owned E t" for t d
    using that by (simp add: owned_def)
  moreover have "owned E (t\<lparr>ticks := d\<rparr>)" if "owned E t" for t d
    using that by (simp add: owned_def)
  ultimately show ?thesis
    by (simp add: open_session_def persist_session_def wp_simps wp_now_iso wp_new_uuid)
qed

lemma start_session_owned:
  assumes "daemon_ok E" "inj (s_uuid E)" "popped E s" "\<not> sb_client (sb s)"
  shows "wp (start_session E task p) (\<lambda>_. owned E) (\<lambda>_ _. True) s"
proof -
  have safe: "safe (log_event E ty d)" "safe (run_setup E cs)" for ty d cs
    by (intro safeI keeps_intros same_rest_table)+
  have l: "wp (log_event E ty d) (\<lambda>_. popped E) (\<lambda>_ _. True) t" if "popped E t" for ty d t
    by (rule wp_mono [OF wp_preserves [OF safe_popped [OF safe(1)] that]]) auto
  have su: "wp (run_setup E cs) (\<lambda>_. popped E) (\<lambda>_ _. True) t" if "popped E t" for cs t
    by (rule wp_mono [OF wp_preserves [OF safe_popped [OF safe(2)] that]]) auto
  let ?M = "sessions s"
  have "tracked (held ?M) (held_images ?M) (held_proxies ?M) s"
    using assms(3) by (simp add: popped_def aside_def)
  from wp_conj [OF start_tracked [OF this assms(1,4)] wp_keeps [OF same_rest_table [OF start_rest]]]
  have st: "wp (start E) (\<lambda>_. popped E) (\<lambda>_ _. True) s"
    by (rule wp_mono) (use assms(3) in \<open>auto intro: same_table_popped\<close>)
  have fail: "wp (seq (log_event E Run_finished d) (seq close_writer (seq (stop E) (raise e)))) (\<lambda>_. owned E)
      (\<lambda>_ _. True) t" for d e t
    unfolding wp_seq wp_raise by (intro wp_mono [OF wp_any]) (simp_all add: wp_any)
  have dead: "wp (seq (log_event E Run_finished d) (seq close_writer (raise e))) Q (\<lambda>_ _. True) t" for d e Q t
    unfolding wp_seq wp_raise by (intro wp_mono [OF wp_any]) (simp_all add: wp_any)
  have go: "wp (bind (get (\<lambda>s. sb_container (sb s))) (\<lambda>cid.
         seq (log_event E Run_started (started_data task cid))
           (bind (run_setup E (tk_setup task)) (\<lambda>failed. case failed of
              Some reason \<Rightarrow>
                seq (log_event E Run_finished (finished ERROR reason))
                  (seq close_writer (seq (stop E) (raise (Runtime_Error reason))))
            | None \<Rightarrow> open_session E task p)))) (\<lambda>_. owned E) (\<lambda>_ _. True) t"
    if "popped E t" for t
    unfolding wp_bind wp_get wp_seq [of "log_event E Run_started d" for d]
    by (rule wp_mono [OF l [OF that]], rule wp_mono [OF su], assumption)
      (auto split: option.split intro: fail open_session_owned assms(2))
  show ?thesis
    unfolding start_session_def wp_seq [of "try_except m h" for m h] wp_try_except
    by (rule wp_mono [OF st], erule go) (auto simp: dead)
qed

lemma start_task_owned:
  assumes ok: "daemon_ok E" and inj: "inj (s_uuid E)" and s: "owned E s"
  shows "wp (start_task E i) (\<lambda>_. owned E) (\<lambda>_ _. True) s"
proof -
  have new: "popped E (t\<lparr>sb := new_sandbox task True\<rparr>)" if "owned E t" for t task
    using that unfolding popped_def aside_def owned_def tracked_def by (simp add: new_sandbox_def)
  have n: "\<not> sb_client (new_sandbox task True)" for task by (simp add: new_sandbox_def)
  have o: "wp (open_writer E) (\<lambda>_. owned E) (\<lambda>_ _. True) t" if "owned E t" for t
  proof (rule wp_mono [OF wp_keeps [OF open_writer_same_sandbox]])
    fix u assume "same_sandbox t u"
    then have "same_rest t u" by (simp add: same_rest_def same_sandbox_def)
    from same_rest_sel [OF this] show "owned E u" using that \<open>same_sandbox t u\<close>
      by (simp add: owned_def same_sandbox_def)
  qed simp
  have w: "owned E (t\<lparr>wr := w\<rparr>)" "owned E (t\<lparr>ticks := k\<rparr>)" if "owned E t" for t w k
    using that by (simp_all add: owned_def)
  have st: "wp (start_session E task p) (\<lambda>_. owned E) (\<lambda>_ _. True) (t\<lparr>sb := new_sandbox task True\<rparr>)"
    if "owned E t" for t task p
    by (rule start_session_owned [OF ok inj new [OF that]]) (simp add: n)
  show ?thesis
    by (auto simp: start_task_def find_def trajectory_path_def wp_simps wp_now_iso split: sum.split
        intro!: wp_mono [OF o] st w s)
qed


section \<open>The server as a state machine\<close>

text \<open>
  A step is a tool call. The two calls that can lose track of what they hold when an exception
  interrupts them, starting and aborting, are steps when they return.
\<close>

fun fragile :: "tool \<Rightarrow> bool" where
  "fragile (Start_task i) = True"
| "fragile (Abort_task sid) = True"
| "fragile _ = False"

definition server_step :: "venv \<Rightarrow> srv \<Rightarrow> srv \<Rightarrow> bool" where
  "server_step E s t \<longleftrightarrow> (\<exists>c. t = snd (call E c s) \<and> \<not> (fragile c \<and> isl (fst (call E c s))))"

definition idle :: "srv \<Rightarrow> bool" where
  "idle s \<longleftrightarrow> dcalls s = [] \<and> sessions s = Map.empty"

lemma pure_tools_owned: "preserves (owned E) (list_tasks E tag diff)"
  "preserves (owned E) (describe_task E i)"
  by (auto simp: list_tasks_def describe_task_def find_def intro!: keeps_intros split: sum.split)

lemma fragile_owned:
  "wp m (\<lambda>_. owned E) (\<lambda>_ _. True) s \<Longrightarrow> \<not> isl (fst (m s)) \<Longrightarrow> owned E (snd (m s))"
  by (auto simp: wp_def split: prod.splits sum.splits)

lemma server_step_owned:
  assumes "daemon_ok E" "inj (s_uuid E)" "owned E s" "server_step E s t"
  shows "owned E t"
proof -
  obtain c where t: "t = snd (call E c s)" and c: "\<not> (fragile c \<and> isl (fst (call E c s)))"
    using assms(4) by (auto simp: server_step_def)
  note pres = session_tools_owned [OF assms(1), THEN keeps_apply, THEN mp, OF assms(3)]
    pure_tools_owned [THEN keeps_apply, THEN mp, OF assms(3)]
  note st = start_task_owned [OF assms(1-3)] and ab = abort_task_owned [OF assms(1,3)]
    and fi = finish_task_owned [OF assms(1,3), unfolded wp_snd]
  show ?thesis unfolding t using c pres st ab fi by (cases c) (auto intro: fragile_owned)
qed

interpretation server_ownership: machine idle
  "\<lambda>s t. daemon_ok E \<and> inj (s_uuid E) \<and> server_step E s t" "owned E" for E
proof
  fix s t
  show "idle s \<Longrightarrow> owned E s" by (simp add: idle_def owned_def)
  show "owned E s \<Longrightarrow> daemon_ok E \<and> inj (s_uuid E) \<and> server_step E s t \<Longrightarrow> owned E t"
    using server_step_owned by blast
qed

end
