(* ===== verification/Mcp_Restart.thy ===== *)
theory Mcp_Restart
  imports Mcp_Sessions
begin

text \<open>
  A restart of the server: the sessions described on disk come back with the container they
  had, a writer that continues the numbering of their trajectory, and the command count
  recovered from it.
\<close>

section \<open>Paths survive the text\<close>

definition good_part :: "pystr \<Rightarrow> bool" where
  "good_part part \<longleftrightarrow> part \<noteq> [] \<and> part \<noteq> lit ''.'' \<and> 47 \<notin> set part"

lemma path_parts_plain: "47 \<notin> set s \<Longrightarrow> path_parts part (s @ 47 # t) =
    path_parts (part @ s) [] @ path_parts [] t"
  by (induction s arbitrary: part) auto

lemma path_parts_last: "47 \<notin> set s \<Longrightarrow> path_parts part s = path_parts (part @ s) []"
  by (induction s arbitrary: part) auto

lemma path_parts_join: "list_all good_part p \<Longrightarrow> path_parts [] (py_join (lit ''/'') p) = p"
proof (induction "lit ''/''" p rule: py_join.induct)
  case (2 x)
  then show ?case by (simp add: path_parts_last good_part_def)
next
  case (3 x y ys)
  have "lit ''/'' = [47]" by (simp add: lit_def)
  with 3 show ?case by (simp add: path_parts_plain good_part_def)
qed simp

lemma parse_path_str: "list_all good_part p \<Longrightarrow> parse_path cwd (path_str p) = p"
proof -
  assume p: "list_all good_part p"
  have "path_str p = 47 # py_join (lit ''/'') p" by (simp add: path_str_def lit_def)
  with path_parts_join [OF p] show ?thesis by (simp add: parse_path_def)
qed

lemma id_char_plain: "id_char c \<Longrightarrow> c \<noteq> 47 \<and> c \<noteq> 46"
  by (auto simp: id_char_def id_start_def)

lemma valid_id_good: "valid_task_id i \<Longrightarrow> good_part i"
  by (cases i) (auto simp: good_part_def list_all_iff lit_def dest: id_char_plain simp: id_start_def)

lemma stamp_path_good:
  assumes "list_all good_part root" "wf_task task"
  shows "list_all good_part (stamp_path task root (utcnow_iso t))"
proof -
  have d: "47 \<notin> set (pad0 w (dec_digits n))" for w n
    using dec_digits_range by (fastforce simp: pad0_def)
  have "good_part (filter (\<lambda>c. c \<noteq> 58 \<and> c \<noteq> 45) (utcnow_iso t) @ lit ''.jsonl'')"
    by (auto simp: good_part_def utcnow_iso_def lit_def d)
  then show ?thesis using assms valid_id_good
    by (simp add: stamp_path_def trajectories_dir_def wf_task_def good_part_def [of "lit _"])
      (simp add: lit_def)
qed

lemma valid_id_scalar: "valid_task_id i \<Longrightarrow> list_all is_scalar i"
  by (cases i) (auto simp: list_all_iff id_start_def id_char_def is_scalar_def)

lemma stamp_path_plain:
  assumes "list_all (\<lambda>p. good_part p \<and> list_all is_scalar p) root" "wf_task task"
  shows "list_all (\<lambda>p. good_part p \<and> list_all is_scalar p) (stamp_path task root (utcnow_iso t))"
proof -
  have "list_all good_part (stamp_path task root (utcnow_iso t))"
    by (rule stamp_path_good) (use assms in \<open>auto simp: list_all_iff\<close>)
  moreover have "list_all (list_all is_scalar) (stamp_path task root (utcnow_iso t))"
    using assms utcnow_iso_scalar [of t] valid_id_scalar [of "tk_id task"]
    by (auto simp: stamp_path_def trajectories_dir_def list_all_iff wf_task_def lit_def is_scalar_def)
  ultimately show ?thesis by (simp add: list_all_iff)
qed

text \<open>The trajectory file of a task that was found in the store, whichever it is.\<close>

context task_store
begin

lemma found_path_plain: "lookup i = Inr task \<Longrightarrow> list_all (\<lambda>p. good_part p \<and> list_all is_scalar p) root
    \<Longrightarrow> list_all (\<lambda>p. good_part p \<and> list_all is_scalar p) (stamp_path task root (utcnow_iso t))"
  using found_wf by (intro stamp_path_plain)

lemma found_path_named: "lookup i = Inr task \<Longrightarrow>
    \<exists>name. stamp_path task root now = trajectories_dir root @ [i, name @ lit ''.jsonl'']"
  using found_id by (auto simp: stamp_path_def)

end

lemma path_str_scalar: "list_all (\<lambda>p. good_part p \<and> list_all is_scalar p) p \<Longrightarrow> list_all is_scalar (path_str p)"
proof -
  assume p: "list_all (\<lambda>p. good_part p \<and> list_all is_scalar p) p"
  have "c \<in> set (py_join (lit ''/'') p) \<Longrightarrow> is_scalar c" for c
    using p by (auto dest!: py_join_set simp: list_all_iff lit_def is_scalar_def)
  then show ?thesis by (auto simp: path_str_def list_all_iff lit_def is_scalar_def)
qed

interpretation paths: codec path_str "\<lambda>s. Some (parse_path cwd s)" "list_all good_part" for cwd
  by unfold_locales (simp add: parse_path_str)

section \<open>One descriptor\<close>

text \<open>
  A live session that can come back: described on disk as it is, with its container, and a
  trajectory that reads back.
\<close>

definition described :: "venv \<Rightarrow> pystr \<Rightarrow> session \<Rightarrow> pystr \<Rightarrow> bool" where
  "described E sid se text \<longleftrightarrow> (\<exists>cid now. sb_container (se_sandbox se) = Some cid
     \<and> text = json_dumps 0 (JObj (descriptor sid (se_task se) (Some cid) (se_path se) now))
     \<and> e_loads E text = Some (JObj (descriptor sid (se_task se) (Some cid) (se_path se) now)))"

definition readable :: "venv \<Rightarrow> srv \<Rightarrow> session \<Rightarrow> trajectory_event list \<Rightarrow> bool" where
  "readable E s se evs \<longleftrightarrow> (\<exists>c. texts s (se_path se) = Some c \<and> renders E evs c \<and> numbered evs)"

definition resumable :: "venv \<Rightarrow> srv \<Rightarrow> pystr \<Rightarrow> session \<Rightarrow> bool" where
  "resumable E s sid se \<longleftrightarrow> sid \<noteq> [] \<and> 47 \<notin> set sid \<and> wf_task (se_task se)
     \<and> list_all good_part (se_path se) \<and> (\<exists>evs. readable E s se evs)"

text \<open>One whose task restricts the network cannot: its proxy was in the process that ended.\<close>

definition restricted :: "session \<Rightarrow> bool" where
  "restricted se \<longleftrightarrow> ns_mode (tk_network (se_task se)) = Mode_restricted"

text \<open>The session a restarted server has in its place.\<close>

definition resumed :: "venv \<Rightarrow> srv \<Rightarrow> session \<Rightarrow> session \<Rightarrow> bool" where
  "resumed E s se se' \<longleftrightarrow> se_task se' = se_task se \<and> se_path se' = se_path se
     \<and> sb_task (se_sandbox se') = se_task se
     \<and> sb_container (se_sandbox se') = sb_container (se_sandbox se) \<and> sb_client (se_sandbox se')
     \<and> w_path (se_writer se') = se_path se \<and> w_fh (se_writer se') \<and> \<not> w_closed (se_writer se')
     \<and> w_max_stream_bytes (se_writer se') = DEFAULT_MAX_BYTES
     \<and> (\<exists>evs. readable E s se evs \<and> w_seq (se_writer se') = int (length evs)
          \<and> se_count se' = length (filter (\<lambda>e. ev_type e = Agent_command) evs))"

text \<open>The daemon answers, and still has every container it is asked for.\<close>

definition daemon_has :: "venv \<Rightarrow> bool" where
  "daemon_has E \<longleftrightarrow> (\<forall>log. \<not> isl (s_daemon E log Connect_daemon))
     \<and> (\<forall>log i. s_daemon E log (Get_container i) = Inr (Container i))"

lemma count_agent_commands_eq:
  assumes "codec_ok E" "texts s p = Some c" "renders E evs c" "numbered evs"
  shows "count_agent_commands E p s = (Inr (length (filter (\<lambda>e. ev_type e = Agent_command) evs)), s)"
  using assms read_rendered [OF assms(1,3,4)]
  by (simp add: count_agent_commands_def read_file_def try_except_def bind_def)

lemma attach_wp:
  assumes "daemon_has E" "sb_container (sb s) = None"
  shows "wp (attach E i) (\<lambda>_ t. sb t = (sb s)\<lparr>sb_client := True, sb_container := Some i\<rparr>
    \<and> same_files s t \<and> same_rest s t) (\<lambda>_ _. False) s"
proof -
  have c: "\<exists>a. s_daemon E log Connect_daemon = Inr a" for log
    using assms(1) by (auto simp: daemon_has_def isl_def) (metis sum.exhaust_sel)
  obtain a where "s_daemon E (dcalls s) Connect_daemon = Inr a" using c by blast
  with assms show ?thesis
    by (simp add: attach_def from_env_def wp_simps daemon_has_def same_files_def same_rest_def
        answered_def set_sb_def)
qed


lemma descriptor_fields:
  "dict_get (descriptor sid task cid p now) ''session_id'' (JStr []) = JStr sid"
  "map_of (descriptor sid task cid p now) (lit ''network_mode'')
     = Some (JStr (lit (mode_str (ns_mode (tk_network task)))))"
  "map_of (descriptor sid task cid p now) (lit ''task'') = Some (dump_task task)"
  "map_of (descriptor sid task cid p now) (lit ''trajectory_path'') = Some (JStr (path_str p))"
  "map_of (descriptor sid task cid p now) (lit ''container_id'') = Some (opt_str cid)"
  by (simp_all add: descriptor_def dict_get_def)

text \<open>All that changes are the registers and the daemon's log.\<close>

definition only_registers :: "srv \<Rightarrow> srv \<Rightarrow> bool" where
  "only_registers s t \<longleftrightarrow> texts t = texts s \<and> descs t = descs s \<and> uuids s \<le> uuids t"

lemma same_more_descs: "sstate.more t = sstate.more (s :: srv) \<Longrightarrow> descs t = descs s"
  by (cases s, cases t) simp

lemma resume_file:
  assumes ok: "codec_ok E" "daemon_has E" and r: "resumable E s0 sid se" "described E sid se text"
    and n: "\<not> restricted se" and s: "texts s = texts s0"
  shows "wp (rehydrate_file E (desc_name sid, Inr text))
    (\<lambda>r t. \<exists>se'. r = Some (sid, se') \<and> resumed E s0 se se' \<and> only_registers s t) (\<lambda>_ _. False) s"
proof -
  let ?task = "se_task se" and ?p = "se_path se"
  obtain cid now where d: "sb_container (se_sandbox se) = Some cid"
    "e_loads E text = Some (JObj (descriptor sid ?task (Some cid) ?p now))"
    using r(2) by (auto simp: described_def)
  obtain evs c where f: "texts s0 ?p = Some c" "renders E evs c" "numbered evs"
    using r(1) by (auto simp: resumable_def readable_def)
  have val: "validate_task (e_lax_int E) (dump_task ?task) = Inr ?task"
    by (rule validate_dump_task) (use ok(1) r(1) in \<open>simp_all add: codec_ok_def resumable_def\<close>)
  have mode: "mode_str (ns_mode (tk_network ?task)) \<noteq> ''restricted''"
    using n by (cases "ns_mode (tk_network ?task)") (auto simp: restricted_def)
  have path: "parse_path (v_cwd E) (path_str ?p) = ?p"
    using r(1) by (simp add: resumable_def parse_path_str)
  let ?w = "new_writer ?p (Some (overflow_dir (v_root E))) DEFAULT_MAX_BYTES"
  have tail: "wp (seq (modify (\<lambda>s. s\<lparr>wr := ?w\<rparr>)) (seq (open_writer E)
        (bind (count_agent_commands E ?p) (\<lambda>count.
          bind (get (\<lambda>s. \<lparr>se_task = ?task, se_sandbox = sb s, se_writer = wr s, se_path = ?p,
                          se_count = count\<rparr>)) (\<lambda>sess.
            if sliceable (JStr cid) then ret (Some (sid, sess)) else raise Type_Error)))))
      (\<lambda>r t. \<exists>se'. r = Some (sid, se') \<and> resumed E s0 se se' \<and> only_registers s t) (\<lambda>_ _. False) t"
    if t: "only_registers s t" "sb t = (new_sandbox ?task False)\<lparr>sb_client := True, sb_container := Some cid\<rparr>"
    for t :: srv
  proof -
    let ?t = "t\<lparr>wr := ?w\<rparr>"
    have tt: "texts t = texts s0" using t(1) s by (simp add: only_registers_def)
    obtain u where u: "open_writer E ?t = (Inr (), u)" "texts u = texts ?t"
      "wr u = ?w\<lparr>w_seq := int (length evs), w_fh := True\<rparr>"
      using open_writer_rendered [OF ok(1) _ f(2,3), of ?t] f(1) tt by (auto simp: new_writer_def)
    have "same_sandbox ?t u" by (rule keepsD [OF open_writer_same_sandbox u(1)])
    then have "sb u = sb ?t" "same_rest ?t u" by (simp_all add: same_sandbox_def same_rest_def)
    moreover have "only_registers s u"
      using t(1) u(2) \<open>same_rest ?t u\<close> same_rest_sel [of ?t u] by (auto simp: only_registers_def same_rest_def)
    moreover have "count_agent_commands E ?p u = (Inr (length (filter (\<lambda>e. ev_type e = Agent_command) evs)), u)"
      by (rule count_agent_commands_eq [OF ok(1) _ f(2,3)]) (use f(1) tt u(2) in simp)
    ultimately show ?thesis using u t f s d(1)
      by (auto simp: wp_simps wp_def [of "open_writer E"] wp_def [of "count_agent_commands E p" for p]
          resumed_def readable_def new_sandbox_def new_writer_def)
  qed
  have at: "wp (attach E cid) (\<lambda>_ t. only_registers s t
        \<and> sb t = (new_sandbox ?task False)\<lparr>sb_client := True, sb_container := Some cid\<rparr>) (\<lambda>_ _. False)
      (s\<lparr>sb := new_sandbox ?task False\<rparr>)"
    by (rule wp_mono [OF attach_wp [OF ok(2)]]) (auto simp: new_sandbox_def only_registers_def same_files_def same_rest_def dest: same_more_descs)
  have "wp (resume E (desc_name sid) (descriptor sid ?task (Some cid) ?p now) sid ?task)
      (\<lambda>r t. \<exists>se'. r = Some (sid, se') \<and> resumed E s0 se se' \<and> only_registers s t) (\<lambda>_ _. False) s"
    unfolding resume_def key_def descriptor_fields option.case opt_str_def bind_ret as_path.simps path
      wp_seq [of "modify f" for f] wp_modify wp_bind [of "try_except m h" for m h] wp_try_except
      wp_seq [of "attach E i" for i] wp_ret py_str.simps
    by (rule wp_mono [OF at], simp only: not_True_eq_False if_False simp_thms, rule tail, simp_all)
  then show ?thesis using r(1) mode
    by (simp add: rehydrate_file_def rehydrate_payload_def d(2) descriptor_fields val resumable_def)
qed


lemma drop_restricted:
  assumes "codec_ok E" "\<And>name. \<not> v_locked E name" "resumable E s0 sid se" "described E sid se text" "restricted se"
  shows "wp (rehydrate_file E (desc_name sid, Inr text)) (\<lambda>r t. r = None \<and> texts t = texts s \<and> uuids s \<le> uuids t
    \<and> descs t = AList.delete (desc_name sid) (descs s)) (\<lambda>_ _. False) s"
proof -
  obtain cid now where "e_loads E text = Some (JObj (descriptor sid (se_task se) (Some cid) (se_path se) now))"
    using assms(4) by (auto simp: described_def)
  then show ?thesis using assms(2,3,5)
    by (simp add: rehydrate_file_def rehydrate_payload_def descriptor_fields restricted_def resumable_def
        unlink_def wp_simps)
qed

section \<open>All of them\<close>

lemma desc_name_inject [simp]: "desc_name i = desc_name j \<longleftrightarrow> i = j"
  by (simp add: desc_name_def)

text \<open>The descriptor file \<open>f\<close> describes a live session.\<close>

definition describes :: "venv \<Rightarrow> srv \<Rightarrow> pystr \<times> (exn + pystr) \<Rightarrow> bool" where
  "describes E s f \<longleftrightarrow> (\<exists>sid se text. sessions s sid = Some se \<and> f = (desc_name sid, Inr text)
     \<and> described E sid se text \<and> resumable E s sid se)"

text \<open>What the restarted server has for a session of the old one.\<close>

definition comes_back :: "venv \<Rightarrow> srv \<Rightarrow> session \<Rightarrow> session option \<Rightarrow> bool" where
  "comes_back E s se r \<longleftrightarrow> (if restricted se then r = None else (case r of None \<Rightarrow> False | Some se' \<Rightarrow> resumed E s se se'))"

definition dropped :: "srv \<Rightarrow> pystr set" where
  "dropped s = {desc_name sid | sid se. sessions s sid = Some se \<and> restricted se}"

text \<open>The descriptors \<open>fs\<close> of \<open>s0\<close> have been read: \<open>M\<close> is \<open>out\<close> with their sessions.\<close>

definition rehydrated :: "venv \<Rightarrow> srv \<Rightarrow> pystr set \<Rightarrow> (pystr \<rightharpoonup> session) \<Rightarrow> srv \<Rightarrow> (pystr \<rightharpoonup> session) \<Rightarrow> srv \<Rightarrow> bool" where
  "rehydrated E s0 names out s M t \<longleftrightarrow>
     (\<forall>sid se. sessions s0 sid = Some se \<longrightarrow> out sid = None \<longrightarrow> desc_name sid \<in> names \<longrightarrow> comes_back E s0 se (M sid))
     \<and> (\<forall>sid. desc_name sid \<notin> names \<longrightarrow> M sid = out sid) \<and> texts t = texts s \<and> uuids s \<le> uuids t
     \<and> descs t = filter (\<lambda>f. fst f \<notin> dropped s0 \<inter> names) (descs s)"

lemma rehydrated_refl: "rehydrated E s0 {} out s out s"
  by (simp add: rehydrated_def)

lemma rehydrated_one:
  assumes ok: "codec_ok E" "daemon_has E" "\<And>name. \<not> v_locked E name"
    and f: "describes E s0 f" and s: "texts s = texts s0"
  shows "wp (rehydrate_file E f) (\<lambda>r t. rehydrated E s0 {fst f} out s
      (case r of None \<Rightarrow> out | Some (sid, se) \<Rightarrow> out(sid \<mapsto> se)) t) (\<lambda>_ _. False) s"
proof -
  obtain sid se x where f: "sessions s0 sid = Some se" "f = (desc_name sid, Inr x)"
    "described E sid se x" "resumable E s0 sid se"
    using f by (auto simp: describes_def)
  show ?thesis
  proof (cases "restricted se")
    case True
    have "desc_name sid \<in> dropped s0" using f(1) True by (auto simp: dropped_def)
    then have d: "filter (\<lambda>f. fst f \<in> dropped s0 \<longrightarrow> fst f \<noteq> desc_name sid) ds = AList.delete (desc_name sid) ds" for ds :: "(pystr \<times> (exn + pystr)) list"
      by (induction ds) auto
    show ?thesis unfolding f(2)
      by (rule wp_mono [OF drop_restricted [OF ok(1,3) f(4,3) True]])
        (auto simp: rehydrated_def d comes_back_def True f(1))
  next
    case False
    have "desc_name sid \<notin> dropped s0" using f(1) False by (auto simp: dropped_def)
    then have d: "filter (\<lambda>f. fst f \<in> dropped s0 \<longrightarrow> fst f \<noteq> desc_name sid) ds = ds" for ds :: "(pystr \<times> (exn + pystr)) list"
      by (induction ds) auto
    show ?thesis unfolding f(2)
      by (rule wp_mono [OF resume_file [OF ok(1,2) f(4,3) False s]])
        (auto simp: rehydrated_def only_registers_def d comes_back_def False f(1))
  qed
qed

lemma rehydrated_trans:
  assumes "rehydrated E s0 A out s M t" "rehydrated E s0 B M t N u"
    and "\<And>sid. desc_name sid \<in> A \<Longrightarrow> desc_name sid \<notin> B"
  shows "rehydrated E s0 (A \<union> B) out s N u"
proof -
  have "comes_back E s0 se (N sid)" if "sessions s0 sid = Some se" "out sid = None" "desc_name sid \<in> A \<union> B" for sid se
  proof (cases "desc_name sid \<in> B")
    case True
    then have "M sid = None" using assms(1,3) that(2) unfolding rehydrated_def by metis
    with assms(2) that(1) True show ?thesis by (simp add: rehydrated_def)
  next
    case False
    then have "N sid = M sid" using assms(2) by (simp add: rehydrated_def)
    with assms(1) that False show ?thesis by (simp add: rehydrated_def)
  qed
  moreover have "filter (\<lambda>f. fst f \<notin> dropped s0 \<inter> B) (filter (\<lambda>f. fst f \<notin> dropped s0 \<inter> A) ds)
      = filter (\<lambda>f. fst f \<notin> dropped s0 \<inter> (A \<union> B)) ds" for ds :: "(pystr \<times> (exn + pystr)) list"
    by (auto intro: filter_cong)
  ultimately show ?thesis using assms(1,2) by (simp add: rehydrated_def)
qed

lemma resume_files:
  assumes ok: "codec_ok E" "daemon_has E" "\<And>name. \<not> v_locked E name"
  shows "list_all (describes E s0) fs \<Longrightarrow> distinct (map fst fs) \<Longrightarrow> texts s = texts s0 \<Longrightarrow>
    wp (rehydrate_files E fs out) (\<lambda>M t. rehydrated E s0 (fst ` set fs) out s M t) (\<lambda>_ _. False) s"
proof (induction fs arbitrary: out s)
  case Nil
  then show ?case by (simp add: wp_simps rehydrated_refl)
next
  case (Cons f fs)
  have f: "describes E s0 f" "list_all (describes E s0) fs" "distinct (map fst fs)" "fst f \<notin> fst ` set fs"
    using Cons.prems by auto
  show ?case
    unfolding rehydrate_files.simps wp_bind
  proof (rule wp_mono [OF rehydrated_one [OF ok f(1) Cons.prems(3), of out]])
    fix r t
    let ?out = "case r of None \<Rightarrow> out | Some (sid, sess) \<Rightarrow> out(sid \<mapsto> sess)"
    assume r: "rehydrated E s0 {fst f} out s ?out t"
    then have "texts t = texts s0" using Cons.prems(3) by (simp add: rehydrated_def)
    from Cons.IH [OF f(2,3) this, of ?out]
    show "wp (rehydrate_files E fs ?out) (rehydrated E s0 (fst ` set (f # fs)) out s) (\<lambda>_ _. False) t"
      by (rule wp_mono) (use rehydrated_trans [OF r] f(4) in auto)
  qed simp
qed

lemma rehydrate_all:
  assumes ok: "codec_ok E" "daemon_has E" "\<And>name. \<not> v_locked E name"
    and d: "list_all (describes E s) (descs s)" "distinct (map fst (descs s))"
  shows "wp (build_server E) (\<lambda>_ t. rehydrated E s (fst ` set (descs s)) Map.empty s (sessions t) t) (\<lambda>_ _. False) s"
proof -
  have "is_desc (fst f)" if "f \<in> set (descs s)" for f
    using that d(1) by (auto simp: list_all_iff describes_def resumable_def is_desc_def desc_name_def ends_with_iff lit_def)
  then have fs: "filter (\<lambda>f. is_desc (fst f)) (descs s) = descs s" by (simp add: filter_id_conv)
  have "list_all (describes E s) (sort_key fst (descs s))" "distinct (map fst (sort_key fst (descs s)))"
    using d by (simp_all add: list_all_iff distinct_map)
  from resume_files [OF ok this refl, of Map.empty] show ?thesis
    unfolding build_server_def rehydrate_sessions_def wp_bind wp_get wp_modify fs
    by (rule wp_mono) (auto simp: rehydrated_def)
qed

end
