(* ===== verification/Json_Indent.thy ===== *)
theory Json_Indent
  imports Json
begin

text \<open>
  What \<^verbatim>\<open>json.dumps(v, indent=2)\<close> prints is read back by the JSON parser: every character an ASCII
  escape, two escapes for one beyond the basic plane, and white space around the items.
\<close>

section \<open>Strings in ASCII\<close>

lemma hex_unit_hex4: "n < 65536 \<Longrightarrow> hex_unit (drop 2 (hex4 n) @ s) = Some (n, s)"
proof -
  assume n: "n < 65536"
  have u: "unhex (hexd (m mod 16)) = Some (m mod 16)" for m by (rule unhex_hexd) simp
  have "4096 * (n div 4096 mod 16) + 256 * (n div 256 mod 16) + 16 * (n div 16 mod 16) + n mod 16 = n"
  proof -
    have d: "n div 256 = n div 16 div 16" "n div 4096 = n div 16 div 16 div 16"
      by (simp_all add: div_mult2_eq [symmetric])
    have "n = 16 * (n div 16) + n mod 16" "n div 16 = 16 * (n div 16 div 16) + n div 16 mod 16"
      "n div 16 div 16 = 16 * (n div 16 div 16 div 16) + n div 16 div 16 mod 16" by simp_all
    moreover have "n div 16 div 16 div 16 mod 16 = n div 16 div 16 div 16" using n by simp
    ultimately show ?thesis unfolding d by linarith
  qed
  moreover have "unhex (hexd (n div 4096)) = Some (n div 4096)" "n div 4096 mod 16 = n div 4096"
    using n by (auto intro!: unhex_hexd)
  ultimately show ?thesis by (simp add: hex4_def u)
qed

lemma hex4_split: "hex4 n = 92 # 117 # drop 2 (hex4 n)"
  by (simp add: hex4_def)

lemma code_unit_plain: "n < 65536 \<Longrightarrow> \<not> (55296 \<le> n \<and> n \<le> 56319) \<Longrightarrow> code_unit (drop 2 (hex4 n) @ s) = Some (n, s)"
  by (auto simp: code_unit_def hex_unit_hex4)

lemma code_unit_pair:
  assumes "65536 \<le> c" "c < 1114112"
  shows "code_unit (drop 2 (hex4 (55296 + (c - 65536) div 1024)) @ hex4 (56320 + (c - 65536) mod 1024) @ s) = Some (c, s)"
proof -
  let ?h = "55296 + (c - 65536) div 1024" and ?l = "56320 + (c - 65536) mod 1024"
  have h: "?h \<le> 56319" "?l \<le> 57343" using assms by auto
  have "low_half (hex4 ?l @ s) = Some (?l, s)"
    using h(2) hex_unit_hex4 [of ?l s] by (simp add: low_half_def hex4_def)
  moreover have "hex_unit (drop 2 (hex4 ?h) @ hex4 ?l @ s) = Some (?h, hex4 ?l @ s)"
    using h by (intro hex_unit_hex4) simp
  moreover have "65536 + (?h - 55296) * 1024 + (?l - 56320) = c" using assms by simp
  ultimately show ?thesis using h by (simp add: code_unit_def)
qed

lemma parse_str_unit: "code_unit s = Some (u, r) \<Longrightarrow>
    parse_str (92 # 117 # s) = map_option (\<lambda>(t, r). (u # t, r)) (parse_str r)"
  by (simp add: unesc_def)

lemma parse_str_ascii_esc:
  assumes "is_scalar c"
  shows "parse_str (ascii_esc c @ s) = map_option (\<lambda>(t, r). (c # t, r)) (parse_str s)"
proof -
  have sc: "c < 1114112" "\<not> (55296 \<le> c \<and> c \<le> 57343)" using assms by (auto simp: is_scalar_def)
  consider "c \<in> {34, 92, 8, 9, 10, 12, 13}" | "c \<notin> {34, 92, 8, 9, 10, 12, 13}" "32 \<le> c \<and> c \<le> 126"
    | "c \<notin> {34, 92, 8, 9, 10, 12, 13}" "\<not> (32 \<le> c \<and> c \<le> 126)" "c < 65536" | "65536 \<le> c" by force
  then show ?thesis
  proof cases
    case 1
    then show ?thesis by (elim insertE) (auto simp: ascii_esc_def unesc_def)
  next
    case 2
    then show ?thesis by (simp add: ascii_esc_def)
  next
    case 3
    then have "ascii_esc c = 92 # 117 # drop 2 (hex4 c)" by (simp add: ascii_esc_def hex4_def)
    moreover have "code_unit (drop 2 (hex4 c) @ s) = Some (c, s)" using 3 sc by (intro code_unit_plain) auto
    ultimately show ?thesis by (simp del: parse_str.simps add: parse_str_unit)
  next
    case 4
    then have e: "ascii_esc c = 92 # 117 # drop 2 (hex4 (55296 + (c - 65536) div 1024))
        @ hex4 (56320 + (c - 65536) mod 1024)" by (simp add: ascii_esc_def hex4_def)
    show ?thesis unfolding e using code_unit_pair [OF 4 sc(1), of s]
      by (simp del: parse_str.simps add: parse_str_unit)
  qed
qed

lemma parse_str_ascii: "list_all is_scalar s \<Longrightarrow> parse_str (concat (map ascii_esc s) @ 34 # rest) = Some (s, rest)"
  by (induction s) (simp_all add: parse_str_ascii_esc)

section \<open>White space between items\<close>

lemma newline_ws [simp]: "list_all ws (newline n)"
  by (simp add: newline_def ws_def list_all_iff)

lemma skip_ws_append: "list_all ws w \<Longrightarrow> skip_ws (w @ s) = skip_ws s"
  by (simp add: skip_ws_def list_all_iff)

lemma expect_ws: "list_all ws w \<Longrightarrow> expect c (w @ s) = expect c s"
  by (simp add: expect_def skip_ws_append)

lemma parse_ws:
  assumes "list_all ws w"
  shows "parse_val n (w @ s) = parse_val n s" "parse_elems n (w @ s) = parse_elems n s"
    "parse_items n (w @ s) = parse_items n s"
proof -
  show v: "parse_val n (w @ s) = parse_val n s" for n
    by (cases n) (simp_all add: skip_ws_append [OF assms])
  show "parse_elems n (w @ s) = parse_elems n s" by (cases n) (simp_all add: v)
  show "parse_items n (w @ s) = parse_items n s" by (cases n) (simp_all add: expect_ws [OF assms])
qed

lemma delim_ws: "list_all ws w \<Longrightarrow> delim (w @ 93 # s)" "list_all ws w \<Longrightarrow> delim (w @ 125 # s)"
  by (cases w; auto simp: delim_def ws_def number_char_def)+

text \<open>The text \<open>t\<close> is read as \<open>v\<close>, whatever ends it.\<close>

definition read_as :: "pystr \<Rightarrow> jval \<Rightarrow> bool" where
  "read_as t v \<longleftrightarrow> (\<forall>n rest. length t < n \<longrightarrow> delim rest \<longrightarrow> parse_val n (t @ rest) = Some (v, rest))"

lemma read_asD: "read_as t v \<Longrightarrow> length t < n \<Longrightarrow> delim rest \<Longrightarrow> parse_val n (t @ rest) = Some (v, rest)"
  by (simp add: read_as_def)

lemma parse_elems_read:
  assumes w: "list_all ws w" "list_all ws w'"
  shows "list_all2 read_as ts xs \<Longrightarrow> xs \<noteq> [] \<Longrightarrow> length (py_join (44 # w) ts) + 1 < n \<Longrightarrow>
     parse_elems n (py_join (44 # w) ts @ w' @ 93 # rest) = Some (xs, rest)"
proof (induction arbitrary: n rule: list_all2_induct)
  case (Cons t ts x xs)
  obtain m where n: "n = Suc m" using Cons.prems(2) by (cases n) auto
  show ?case
  proof (cases "xs = []")
    case True
    then have "ts = []" using Cons.hyps(2) by simp
    then have "parse_val m (t @ w' @ 93 # rest) = Some (x, w' @ 93 # rest)"
      using Cons.hyps(1) Cons.prems(2) n by (intro read_asD) (simp_all add: delim_ws w)
    then show ?thesis using \<open>ts = []\<close> True n by (simp add: expect_ws w)
  next
    case False
    then have "ts \<noteq> []" using Cons.hyps(2) by auto
    note j = py_join_Cons [OF this, of "44 # w" t]
    have "parse_val m (t @ 44 # w @ py_join (44 # w) ts @ w' @ 93 # rest)
        = Some (x, 44 # w @ py_join (44 # w) ts @ w' @ 93 # rest)"
      using Cons.hyps(1) Cons.prems(2) n j by (intro read_asD) simp_all
    moreover have "parse_elems m (py_join (44 # w) ts @ w' @ 93 # rest) = Some (xs, rest)"
      using Cons False n j by simp
    ultimately show ?thesis by (simp add: n j parse_ws w)
  qed
qed simp


lemma parse_items_read:
  assumes w: "list_all ws w" "list_all ws w'"
  shows "list_all2 (\<lambda>t kv. \<exists>u. t = ascii_str (fst kv) @ lit '': '' @ u \<and> read_as u (snd kv)
       \<and> list_all is_scalar (fst kv)) ts d \<Longrightarrow> d \<noteq> [] \<Longrightarrow> length (py_join (44 # w) ts) + 1 < n \<Longrightarrow>
     parse_items n (py_join (44 # w) ts @ w' @ 125 # rest) = Some (d, rest)"
proof (induction arbitrary: n rule: list_all2_induct)
  case (Cons t ts kv d)
  obtain k v where kv: "kv = (k, v)" by (cases kv)
  obtain u where u: "t = ascii_str k @ lit '': '' @ u" "read_as u v" "list_all is_scalar k"
    using Cons.hyps(1) kv by auto
  have t: "t @ s = 34 # concat (map ascii_esc k) @ 34 # 58 # [32] @ u @ s" for s
    by (simp add: u(1) ascii_str_def lit_def)
  obtain m where n: "n = Suc m" using Cons.prems(2) by (cases n) auto
  have sp: "parse_val m (32 # s) = parse_val m s" for s using parse_ws(1) [of "[32]"] by (simp add: ws_def)
  show ?case
  proof (cases "d = []")
    case True
    then have ts: "ts = []" using Cons.hyps(2) by simp
    have "parse_val m (u @ w' @ 125 # rest) = Some (v, w' @ 125 # rest)"
      using Cons.prems(2) n u(2) ts by (intro read_asD) (simp_all add: delim_ws w u(1))
    then show ?thesis using ts True n by (simp add: t parse_str_ascii [OF u(3)] sp kv expect_ws w)
  next
    case False
    then have "ts \<noteq> []" using Cons.hyps(2) by auto
    note j = py_join_Cons [OF this, of "44 # w" t]
    have l: "length u + 2 + length (py_join (44 # w) ts) < m"
      using Cons.prems(2) n j u(1) by (simp add: ascii_str_def)
    have "parse_val m (u @ 44 # w @ py_join (44 # w) ts @ w' @ 125 # rest)
        = Some (v, 44 # w @ py_join (44 # w) ts @ w' @ 125 # rest)"
      using u(2) l by (intro read_asD) simp_all
    moreover have "parse_items m (py_join (44 # w) ts @ w' @ 125 # rest) = Some (d, rest)"
      using Cons.IH False l by simp
    ultimately show ?thesis by (simp add: n j t parse_str_ascii [OF u(3)] sp kv parse_ws w)
  qed
qed simp

section \<open>Reading back\<close>

lemma dumps_head: "dumpable v \<Longrightarrow> \<exists>c t. json_dumps n v = c # t \<and> \<not> ws c \<and> c \<noteq> 93"
proof (cases v)
  case (JInt i)
  then show ?thesis using jdump_head [of v] by (simp add: json_dumps.simps)
next
  case (JFloat f)
  moreover assume "dumpable v"
  ultimately show ?thesis using jdump_head [of v] by (simp add: json_dumps.simps)
qed (auto simp: lit_def ws_def ascii_str_def json_dumps.simps)

lemma read_list:
  assumes "xs \<noteq> []" "\<And>x. x \<in> set xs \<Longrightarrow> dumpable x" "\<And>x. x \<in> set xs \<Longrightarrow> read_as (json_dumps (Suc k) x) x"
  shows "read_as (json_dumps k (JList xs)) (JList xs)"
  unfolding read_as_def
proof (intro allI impI)
  fix n rest assume n: "length (json_dumps k (JList xs)) < n" and "delim rest"
  let ?ts = "map (json_dumps (Suc k)) xs" and ?w = "newline (Suc k)"
  let ?body = "py_join (44 # ?w) ?ts @ newline k @ 93 # rest"
  have j: "json_dumps k (JList xs) @ rest = 91 # ?w @ ?body"
    using assms(1) by (simp add: json_dumps.simps lit_def)
  obtain m where m: "n = Suc m" using n by (cases n) auto
  obtain c t where c: "json_dumps (Suc k) (hd xs) = c # t" "\<not> ws c" "c \<noteq> 93"
    using dumps_head assms(1,2) by (metis hd_in_set)
  then obtain u where u: "py_join (44 # ?w) ?ts = c # u"
    using assms(1) py_join_head [of ?ts c t] by (auto simp: hd_map)
  have "expect 93 (?w @ ?body) = None" using c(2,3) by (simp add: expect_ws u expect_Cons)
  moreover have "list_all2 read_as ?ts xs" using assms(3) by (simp add: list_all2_conv_all_nth)
  then have "parse_elems m ?body = Some (xs, rest)"
    using assms(1) n m by (intro parse_elems_read) (simp_all add: json_dumps.simps lit_def)
  ultimately show "parse_val n (json_dumps k (JList xs) @ rest) = Some (JList xs, rest)"
    unfolding j by (simp add: m parse_ws)
qed

lemma read_obj:
  assumes "d \<noteq> []" "distinct (map fst d)" "\<And>kv. kv \<in> set d \<Longrightarrow> list_all is_scalar (fst kv)"
    "\<And>kv. kv \<in> set d \<Longrightarrow> read_as (json_dumps (Suc k) (snd kv)) (snd kv)"
  shows "read_as (json_dumps k (JObj d)) (JObj d)"
  unfolding read_as_def
proof (intro allI impI)
  fix n rest assume n: "length (json_dumps k (JObj d)) < n" and "delim rest"
  let ?ts = "map (\<lambda>kv. ascii_str (fst kv) @ lit '': '' @ json_dumps (Suc k) (snd kv)) d" and ?w = "newline (Suc k)"
  let ?body = "py_join (44 # ?w) ?ts @ newline k @ 125 # rest"
  have j: "json_dumps k (JObj d) @ rest = 123 # ?w @ ?body"
    using assms(1) by (simp add: json_dumps.simps lit_def)
  obtain m where m: "n = Suc m" using n by (cases n) auto
  obtain u where u: "py_join (44 # ?w) ?ts = 34 # u"
    using assms(1) py_join_head [of ?ts 34] by (auto simp: hd_map ascii_str_def)
  have "expect 125 (?w @ ?body) = None" by (simp add: expect_ws u expect_Cons)
  moreover have "list_all2 (\<lambda>t kv. \<exists>u. t = ascii_str (fst kv) @ lit '': '' @ u \<and> read_as u (snd kv)
       \<and> list_all is_scalar (fst kv)) ?ts d"
    using assms(3,4) by (auto simp: list_all2_conv_all_nth)
  then have "parse_items m ?body = Some (d, rest)"
    using assms(1) n m by (intro parse_items_read) (simp_all add: json_dumps.simps lit_def)
  ultimately show "parse_val n (json_dumps k (JObj d) @ rest) = Some (JObj d, rest)"
    unfolding j using fold_update_distinct [of "[]" d] assms(2) by (simp add: m parse_ws)
qed

lemma read_as_dump: "json_dumps k v = jdump v \<Longrightarrow> dumpable v \<Longrightarrow> read_as (json_dumps k v) v"
  using dump_reads_back by (simp add: read_as_def reads_back_def)

lemma dumps_read: "dumpable v \<Longrightarrow> read_as (json_dumps k v) v"
proof (induction v arbitrary: k)
  case (JStr s)
  show ?case unfolding read_as_def
  proof (intro allI impI)
    fix n rest assume "length (json_dumps k (JStr s)) < n"
    then obtain m where "n = Suc m" by (cases n) auto
    then show "parse_val n (json_dumps k (JStr s) @ rest) = Some (JStr s, rest)"
      using JStr by (simp add: json_dumps.simps ascii_str_def parse_str_ascii)
  qed
next
  case (JList xs)
  show ?case
  proof (cases "xs = []")
    case True
    then show ?thesis by (intro read_as_dump) (simp_all add: json_dumps.simps lit_def)
  next
    case False
    then show ?thesis using JList by (intro read_list) (auto simp: list_all_iff)
  qed
next
  case (JObj d)
  show ?case
  proof (cases "d = []")
    case True
    then show ?thesis by (intro read_as_dump) (simp_all add: json_dumps.simps lit_def)
  next
    case False
    then show ?thesis using JObj by (intro read_obj) (auto simp: list_all_iff)
  qed
qed (intro read_as_dump; simp add: json_dumps.simps)+

lemma json_loads_dumps: "dumpable v \<Longrightarrow> json_loads (json_dumps k v) = Some v"
  using read_asD [OF dumps_read, of v k "Suc (length (json_dumps k v))" "[]"]
  by (simp add: json_loads_def skip_ws_def)

interpretation indented: codec "json_dumps k" json_loads dumpable for k
  by unfold_locales (rule json_loads_dumps)

end
