(* ===== verification/Mcp_Props.thy ===== *)
theory Mcp_Props
  imports Mcp_Restart Json_Indent
begin

text \<open>
  The properties of the server: live sessions own every resource, a command's answer is what
  the trajectory records, finishing ends a session whatever happens, and an interrupted start leaks its container.
\<close>

section \<open>A command on a session\<close>

text \<open>The file holds the events \<open>evs\<close> and then only connection attempts the proxy reported.\<close>

definition grown :: "'e env_scheme \<Rightarrow> path \<Rightarrow> trajectory_event list \<Rightarrow> 'z tstate_scheme \<Rightarrow> bool" where
  "grown E p evs s \<longleftrightarrow>
     (\<exists>egr. events_of E p (evs @ egr) s \<and> list_all (\<lambda>e. ev_type e = Egress_attempt) egr)"

lemma same_files_grown: "keeps same_files m \<Longrightarrow> preserves (grown E p evs) m"
  by (erule keeps_mono) (auto simp: grown_def dest: same_files_events)

lemma record_egress_grown: "preserves (grown E p evs) (record_egress E d)"
proof (rule keepsI, rule impI)
  fix s assume "grown E p evs s"
  then obtain egr where e: "events_of E p (evs @ egr) s" "list_all (\<lambda>e. ev_type e = Egress_attempt) egr"
    by (auto simp: grown_def)
  have more: "grown E p evs t" if "events_of E p ((evs @ egr) @ [ev]) t" "ev_type ev = Egress_attempt" for ev t
    unfolding grown_def by (rule exI [of _ "egr @ [ev]"]) (use that e(2) in simp)
  have same: "grown E p evs t" if "events_of E p (evs @ egr) t" for t
    using that e(2) by (auto simp: grown_def)
  have "wp (record_egress E d) (\<lambda>_. grown E p evs) (\<lambda>_. grown E p evs) s"
    unfolding record_egress_def wp_bind wp_ret
    by (rule wp_mono [OF write_event_events [OF e(1)]]) (use more same in auto)
  then show "grown E p evs (snd (record_egress E d s))" by (simp add: wp_snd)
qed

lemma exec_grown: "preserves (grown E p evs) (exec E (record_egress E) cmd tmo)"
proof -
  have "preserves (grown E p evs) (proxied (record_egress E) ds)" for ds
    by (intro proxied_keeps record_egress_grown) simp_all
  moreover have "preserves (grown E p evs) (docker E c)" for c
    by (intro same_files_grown docker_same_files)
  ultimately show ?thesis
    by (auto simp: exec_def Let_def intro!: keeps_intros split: if_splits option.split)
qed

lemma exec_write_wp:
  assumes "events_of E p evs s"
  shows "wp (bind (exec E (record_egress E) cmd None) (\<lambda>r. write_event E ty (dump_command r)))
    (\<lambda>ev t. \<exists>egr. events_of E p (evs @ egr @ [ev]) t \<and> list_all (\<lambda>e. ev_type e = Egress_attempt) egr
       \<and> ev_type ev = ty \<and> map_of (ev_data ev) (lit ''cmd'') = Some (JStr cmd)) (\<lambda>_ _. True) s"
proof -
  have "grown E p evs s" using assms unfolding grown_def by (intro exI [of _ "[]"]) simp
  then have "wp (exec E (record_egress E) cmd None) (\<lambda>r t. grown E p evs t \<and> cr_cmd r = cmd) (\<lambda>_ _. True) s"
    by (intro wp_mono [OF wp_conj [OF wp_preserves [OF exec_grown] exec_cmd]]) auto
  then show ?thesis unfolding wp_bind
  proof (rule wp_mono)
    fix r :: command_result and t assume "grown E p evs t \<and> cr_cmd r = cmd"
    then obtain egr where e: "events_of E p (evs @ egr) t" "list_all (\<lambda>e. ev_type e = Egress_attempt) egr"
      "cr_cmd r = cmd" by (auto simp: grown_def)
    show "wp (write_event E ty (dump_command r)) (\<lambda>ev t. \<exists>egr. events_of E p (evs @ egr @ [ev]) t
        \<and> list_all (\<lambda>e. ev_type e = Egress_attempt) egr
        \<and> ev_type ev = ty \<and> map_of (ev_data ev) (lit ''cmd'') = Some (JStr cmd)) (\<lambda>_ _. True) t"
      by (rule wp_mono [OF write_event_events [OF e(1)]])
        (use e(2,3) in \<open>auto simp: recorded_def dump_command_def\<close>)
  qed simp
qed


lemma exec_tool_recorded:
  assumes se: "sessions s sid = Some se" and e: "events_of E p evs (load se s)"
    and x: "exec_tool E sid cmd s = (Inr v, t)"
  shows "\<exists>c egr ev se'. texts t p = Some c \<and> renders E (evs @ egr @ [ev]) c \<and> numbered (evs @ egr @ [ev])
    \<and> list_all (\<lambda>e. ev_type e = Egress_attempt) egr \<and> ev_type ev = Agent_command
    \<and> map_of (ev_data ev) (lit ''cmd'') = Some (JStr cmd) \<and> v = JObj (ev_data ev)
    \<and> sessions t = (sessions s)(sid \<mapsto> se') \<and> se_count se' = Suc (se_count se)"
proof -
  let ?m = "bind (exec E (record_egress E) cmd None) (\<lambda>r. write_event E Agent_command (dump_command r))"
  obtain r u where m: "?m (load se s) = (r, u)" by (cases "?m (load se s)")
  have "keeps same_rest ?m" by (intro keeps_intros) simp_all
  then have "same_rest (load se s) u" using m by (rule keepsD)
  from same_rest_sel [OF this] have u: "sessions u = sessions s" by (simp add: load_def)
  obtain ev where r: "r = Inr ev" using x m se
    by (cases r) (auto simp: exec_tool_def on_session_def bind_def)
  obtain egr where g: "events_of E p (evs @ egr @ [ev]) u" "list_all (\<lambda>e. ev_type e = Egress_attempt) egr"
    "ev_type ev = Agent_command" "map_of (ev_data ev) (lit ''cmd'') = Some (JStr cmd)"
    using wp_Inr [OF exec_write_wp [OF e] m [unfolded r]] by blast
  have v: "v = JObj (ev_data ev)" "texts t = texts u"
    "sessions t = (sessions u)(sid := Some (se\<lparr>se_sandbox := sb u, se_writer := wr u, se_count := Suc (se_count se)\<rparr>))"
    using x m se r by (auto simp: exec_tool_def on_session_def bind_def store_def count_command_def)
  obtain c where "texts u p = Some c" "renders E (evs @ egr @ [ev]) c" "numbered (evs @ egr @ [ev])"
    using g(1) by (auto simp: events_of_def)
  with g v u show ?thesis
    by (intro exI [of _ c] exI [of _ egr] exI [of _ ev]
        exI [of _ "se\<lparr>se_sandbox := sb u, se_writer := wr u, se_count := Suc (se_count se)\<rparr>"]) simp
qed

section \<open>Finishing\<close>

definition same_box :: "'z sstate_scheme \<Rightarrow> 'z sstate_scheme \<Rightarrow> bool" where
  "same_box s t \<longleftrightarrow> sb t = sb s"

lemma same_box_refl [simp]: "reflp same_box"
  and same_box_trans [simp]: "transp same_box"
  by (auto simp: same_box_def reflp_def transp_def)

lemma same_sandbox_box: "keeps same_sandbox m \<Longrightarrow> keeps same_box m"
  by (erule keeps_mono) (simp add: same_sandbox_def same_box_def)

lemmas write_box [keeps_intros] = same_sandbox_box [OF write_event_same_sandbox]
  and log_box [keeps_intros] = same_sandbox_box [OF log_event_same_sandbox]

lemma docker_box [keeps_intros]: "keeps same_box (docker E c)"
  by (rule keepsI) (simp add: docker_def Let_def same_box_def)

lemma exec_box [keeps_intros]: "keeps same_box (exec E (record_egress E) cmd tmo)"
proof -
  have "keeps same_box (proxied (record_egress E) ds)" for ds
    by (intro proxied_keeps same_sandbox_box record_egress_same_sandbox) simp_all
  then show ?thesis
    by (auto simp: exec_def Let_def intro!: keeps_intros split: if_splits option.split)
qed

lemma run_verify_box [keeps_intros]: "keeps same_box (run_verify E cmds fs)"
  by (induction cmds arbitrary: fs)
    (auto simp: exec_and_record_def intro!: keeps_intros)

lemma verify_session_box: "keeps same_box (verify_session E se)"
  by (auto simp: verify_session_def intro!: keeps_intros split: prod.split)

definition log_grows :: "'z sstate_scheme \<Rightarrow> 'z sstate_scheme \<Rightarrow> bool" where
  "log_grows s t \<longleftrightarrow> removed (dcalls s) \<subseteq> removed (dcalls t)"

lemma log_grows_refl [simp]: "reflp log_grows"
  and log_grows_trans [simp]: "transp log_grows"
  by (auto simp: log_grows_def reflp_def transp_def)

lemma docker_do_grows [keeps_intros]: "keeps log_grows (docker_do E c)"
  by (rule keepsI) (simp add: docker_do_def docker_def bind_def log_grows_def Let_def split: sum.split)

lemma set_sb_grows [keeps_intros]: "keeps log_grows (modify (set_sb f))"
  by (rule keeps_modify) (simp add: log_grows_def)

lemma discard_removes: "wp (discard E c) (\<lambda>_ t. set_option c \<subseteq> removed (dcalls t)) (\<lambda>_ _. True) s"
  by (auto simp: discard_def wp_simps split: option.split sum.split)

lemma stop_removes:
  "wp (stop E) (\<lambda>_ t. set_option (sb_container (sb s)) \<subseteq> removed (dcalls t)) (\<lambda>_ _. True) s"
proof -
  have g: "keeps log_grows (seq (delete_snapshots E) (seq (teardown_proxy E)
      (bind (get (\<lambda>s. sb_client (sb s))) (\<lambda>client.
         if client then seq (docker_do E Close_client) (modify (set_sb (\<lambda>b. b\<lparr>sb_client := False\<rparr>)))
         else ret ()))))"
    by (auto simp: delete_snapshots_def teardown_proxy_def intro!: keeps_intros split: option.split)
  show ?thesis
    unfolding stop_def wp_bind wp_get wp_seq [of "modify f" for f] wp_modify wp_seq [of "discard E c" for c]
    by (rule wp_mono [OF discard_removes], rule wp_mono [OF wp_keeps [OF g]])
      (auto simp: log_grows_def)
qed


lemma tracked_all: "clean (sb s) \<Longrightarrow> tracked UNIV UNIV UNIV s"
  by (auto simp: tracked_def clean_def)

text \<open>Stopping in a clean state returns, gives the container back and leaves the tables alone.\<close>

lemma stop_clean:
  assumes "daemon_ok E" "clean (sb s)"
  shows "wp (stop E) (\<lambda>_ t. set_option (sb_container (sb s)) \<subseteq> removed (dcalls t) \<and> same_rest s t)
    (\<lambda>_ _. False) s"
  using wp_conj [OF wp_conj [OF stop_removes wp_keeps [OF stop_rest]]
    stop_tracked [OF tracked_all [OF assms(2)] assms(1), where X = "\<lambda>_ _. False"]]
  by (rule wp_mono) auto

lemma delete_session_file_wp:
  "wp (delete_session_file E sid) (\<lambda>_ t. sessions t = sessions s \<and> dcalls t = dcalls s
     \<and> (v_locked E (desc_name sid) \<or> map_of (descs t) (desc_name sid) = None)) (\<lambda>_ _. False) s"
  by (simp add: delete_session_file_def try_unlink_def unlink_def wp_simps delete_conv)

lemma finish_task_ends:
  assumes ok: "daemon_ok E" and se: "sessions s sid = Some se" "clean (se_sandbox se)"
  shows "wp (finish_task E sid)
    (\<lambda>_ t. sessions t = (sessions s)(sid := None)
       \<and> set_option (sb_container (se_sandbox se)) \<subseteq> removed (dcalls t)
       \<and> (v_locked E (desc_name sid) \<or> map_of (descs t) (desc_name sid) = None))
    (\<lambda>_ t. sessions t = (sessions s)(sid := None)
       \<and> set_option (sb_container (se_sandbox se)) \<subseteq> removed (dcalls t)
       \<and> (v_locked E (desc_name sid) \<or> map_of (descs t) (desc_name sid) = None)) s"
proof -
  let ?s = "load se (s\<lparr>sessions := (sessions s)(sid := None)\<rparr>)"
  let ?Q = "\<lambda>t. sessions t = (sessions s)(sid := None)
       \<and> set_option (sb_container (se_sandbox se)) \<subseteq> removed (dcalls t)
       \<and> (v_locked E (desc_name sid) \<or> map_of (descs t) (desc_name sid) = None)"
  let ?K = "\<lambda>t. sb t = se_sandbox se \<and> sessions t = (sessions s)(sid := None)"
  have k: "?K t" if "same_box ?s t \<and> same_table ?s t" for t
    using that by (simp add: same_box_def same_table_def load_def)
  have tab: "keeps same_table (verify_session E se)"
    using verify_session_safe by (simp add: safe_def)
  have v: "wp (verify_session E se) (\<lambda>_. ?K) (\<lambda>_. ?K) ?s"
    by (rule wp_mono [OF wp_conj [OF wp_keeps [OF verify_session_box] wp_keeps [OF tab]]]) (erule k)+
  have c: "wp (seq (stop E) (seq close_writer (delete_session_file E sid))) (\<lambda>_. ?Q) (\<lambda>_ _. False) t"
    if "?K t" for t
  proof -
    have "clean (sb t)" using that se(2) by simp
    note st = stop_clean [OF ok this]
    have "?K t \<Longrightarrow> same_rest t u \<Longrightarrow> sessions u = (sessions s)(sid := None)" for u
      using same_rest_sel [of t u] by simp
    then show ?thesis using that unfolding wp_seq close_writer_def wp_modify
      by (intro wp_mono [OF st] wp_mono [OF delete_session_file_wp]) (auto simp: set_wr_def)
  qed
  have f: "wp (seq (stop E) (seq close_writer (delete_session_file E sid))) (\<lambda>_. ?Q) (\<lambda>_. ?Q) t" if "?K t" for t
    by (rule wp_mono [OF c [OF that]]) auto
  have "wp (try_finally (verify_session E se) (seq (stop E) (seq close_writer (delete_session_file E sid))))
      (\<lambda>_. ?Q) (\<lambda>_. ?Q) ?s"
    unfolding wp_try_finally by (rule wp_mono [OF v]) (erule f)+
  with se(1) show ?thesis by (simp add: finish_task_def pop_session_def wp_def)
qed


section \<open>A concrete server\<close>

definition mcp_dir :: "task \<Rightarrow> taskdir" where
  "mcp_dir task = \<lparr>td_exists = True, td_entries = [[lit ''t.yaml'']], td_read = (\<lambda>_. Some (Inr [])),
     td_yaml = (\<lambda>_. Inr (dump_task task)), td_lax_int = (\<lambda>v. case v of JInt n \<Rightarrow> Some n | _ \<Rightarrow> None),
     td_quote = (\<lambda>s. s), td_show_task = (\<lambda>_. [])\<rparr>"

definition mcp_sid :: pystr where
  "mcp_sid = [97]"

definition mcp_env :: "task \<Rightarrow> (dlog \<Rightarrow> dcall \<Rightarrow> exn + dresult) \<Rightarrow> venv" where
  "mcp_env task daemon = senv.extend (run_senv\<lparr>s_daemon := daemon, s_uuid := (\<lambda>n. replicate (Suc n) 97)\<rparr>)
     \<lparr>v_root = [], v_cwd = [], v_tasks = mcp_dir task, v_tasks_dir = [], v_locked = (\<lambda>_. False)\<rparr>"

definition mcp_idle :: srv where
  "mcp_idle = sstate.extend run_start \<lparr>sessions = Map.empty, descs = []\<rparr>"

lemma mcp_env_sel [simp]: "s_daemon (mcp_env task daemon) = daemon"
  "s_uuid (mcp_env task daemon) n = replicate (Suc n) 97"
  "e_dump (mcp_env task daemon) = json_line" "e_clock (mcp_env task daemon) = e_clock demo_env"
  "e_loads (mcp_env task daemon) = json_loads" "e_sha (mcp_env task daemon) = (\<lambda>_. lit ''h'')"
  "v_root (mcp_env task daemon) = []" "v_tasks (mcp_env task daemon) = mcp_dir task"
  "v_locked (mcp_env task daemon) x = False" "e_lax_int (mcp_env task daemon) (JInt i) = Some i"
  by (simp_all add: mcp_env_def senv.defs run_senv_def env.defs json_env_def)

lemma mcp_idle_sel [simp]: "dcalls mcp_idle = []" "sessions mcp_idle = Map.empty" "texts mcp_idle = Map.empty"
  "ticks mcp_idle = 0" "uuids mcp_idle = 0" "descs mcp_idle = []"
  by (simp_all add: mcp_idle_def run_start_def demo_start_def sstate.defs tstate.defs)

lemma mcp_daemon_ok: "daemon_ok (mcp_env task demo_daemon)"
  by (auto simp: daemon_ok_def demo_daemon_def split: dcall.splits)

lemma mcp_inj: "inj (s_uuid (mcp_env task daemon))"
proof (rule injI)
  fix m n assume "s_uuid (mcp_env task daemon) m = s_uuid (mcp_env task daemon) n"
  then have "length (replicate (Suc m) (97 :: nat)) = length (replicate (Suc n) (97 :: nat))"
    by (simp only: mcp_env_sel)
  then show "m = n" by simp
qed

lemma mcp_codec: "codec_ok (mcp_env task daemon)"
  by (rule json_codec) simp_all

lemma mcp_find:
  assumes "wf_task task" "tk_id task = i"
  shows "find (mcp_env task daemon) i = ret task"
proof -
  have "validate_task (\<lambda>v. case v of JInt n \<Rightarrow> Some n | _ \<Rightarrow> None) (dump_task task) = Inr task"
    using assms(1) by (intro validate_dump_task) simp_all
  then have l: "load_task (mcp_dir task) p = Inr task" for p
    by (simp add: load_task_def mcp_dir_def dump_task_def)
  have "yaml_files (mcp_dir task) = [[lit ''t.yaml'']]"
    by (simp add: yaml_files_def mcp_dir_def named_def ends_with_iff lit_def)
  then have "discover_tasks (mcp_dir task) d = Inr [task]" for d
    using l by (simp add: discover_tasks_def) (simp add: mcp_dir_def)
  then show ?thesis using assms(2) by (simp add: find_def find_task_def)
qed

lemma run_task_wf: "wf_task run_task" "tk_id run_task = lit ''t''"
  by (simp_all add: wf_task_def run_task_def demo_task_def lit_def id_start_def)

text \<open>Logging in an instance that prints JSON.\<close>

lemma json_log_wp:
  assumes "e_dump E = json_line" "writing s" "ty \<notin> CAPPED_EVENT_TYPES" "dumpable (JObj d)"
    "\<And>u. writing u \<Longrightarrow> same_sandbox s u \<Longrightarrow> Q () u"
  shows "wp (log_event E ty d) Q X s"
  unfolding log_event_def wp_bind
  by (rule json_write_wp [OF assms(1,2,4)])
    (use assms(3,5) in \<open>simp_all add: cap_event_data_def bind_def py_defs wp_simps split: option.split\<close>)

lemma mcp_open: "wp (open_writer (mcp_env task daemon)) (\<lambda>_ t. writing t \<and> dcalls t = [] \<and> sessions t = Map.empty
      \<and> uuids t = 0 \<and> descs t = []) (\<lambda>_ _. False)
    (mcp_idle\<lparr>ticks := Suc 0, wr := new_writer p (Some d) DEFAULT_MAX_BYTES\<rparr>)"
  by (simp add: wp_def open_writer_new_file new_writer_def writing_def create_text_def set_wr_def)


lemma mcp_box_start:
  assumes "writing (t :: srv)" "dcalls t = []" "sb t = new_sandbox task True" "ns_mode (tk_network task) = Mode_none"
    "\<And>c. daemon [(Connect_daemon, Inr Done)] (Create_container c) = Inr (Container (lit ''c1''))"
    "daemon [] Connect_daemon = Inr Done" "\<And>log. daemon log (Start_container (lit ''c1'')) = Inr Done"
  shows "wp (start (mcp_env task daemon)) (\<lambda>_ u. writing u \<and> sb_container (sb u) = Some (lit ''c1'')
      \<and> sb_proxy (sb u) = None \<and> sb_task (sb u) = task \<and> created (dcalls u) = {lit ''c1''} \<and> removed (dcalls u) = {}
      \<and> sessions u = sessions t \<and> uuids t \<le> uuids u) (\<lambda>_ _. False) t"
proof -
  have a: "wp (start (mcp_env task daemon)) (\<lambda>_ u. writing u \<and> sb_container (sb u) = Some (lit ''c1'')
      \<and> sb_proxy (sb u) = None \<and> sb_task (sb u) = task
      \<and> created (dcalls u) = {lit ''c1''} \<and> removed (dcalls u) = {}) (\<lambda>_ _. False) t"
    using assms by (simp add: start_def from_env_def start_proxy_def start_create_def start_run_def
      create_container_def wp_simps new_sandbox_def make_container_kwargs_def network_kwargs_def Let_def writing_def)
  have b: "wp (start (mcp_env task daemon)) (\<lambda>_ u. sessions u = sessions t \<and> uuids t \<le> uuids u)
      (\<lambda>_ _. True) t"
    by (rule wp_mono [OF wp_keeps [OF start_rest]]) (auto dest: same_more_sessions simp: same_rest_def)
  show ?thesis by (rule wp_mono [OF wp_conj [OF a b]]) auto
qed

definition one_session :: "srv \<Rightarrow> bool" where
  "one_session s \<longleftrightarrow> (\<exists>se i. sessions s = [i \<mapsto> se] \<and> sb_container (se_sandbox se) = Some (lit ''c1''))"

lemma mcp_started: "wp (start_task (mcp_env run_task demo_daemon) (lit ''t''))
    (\<lambda>_. one_session) (\<lambda>_ _. False) mcp_idle"
proof -
  let ?E = "mcp_env run_task demo_daemon"
  have st: "wp (start ?E) (\<lambda>_ u. writing u \<and> sb_container (sb u) = Some (lit ''c1'') \<and> sessions u = Map.empty)
      (\<lambda>_ _. False) (t\<lparr>sb := new_sandbox run_task True\<rparr>)"
    if "writing t" "dcalls t = []" "sessions t = Map.empty" for t :: srv
    by (rule wp_mono [OF mcp_box_start])
      (use that in \<open>auto simp: writing_def run_task_def demo_daemon_def\<close>)
  have o: "wp (open_session ?E run_task p) (\<lambda>_. one_session) (\<lambda>_ _. False) t"
    if "sb_container (sb t) = Some (lit ''c1'')" "sessions t = Map.empty" for t :: srv and p
    using that by (auto simp: one_session_def open_session_def persist_session_def wp_simps wp_now_iso wp_new_uuid
        intro!: exI [of _ "\<lparr>se_task = run_task, se_sandbox = sb t, se_writer = wr t, se_path = p, se_count = 0\<rparr>"])
  have l: "wp (log_event ?E Run_started (started_data run_task cid)) (\<lambda>_ u. sb_container (sb u) = Some (lit ''c1'')
        \<and> sessions u = Map.empty) (\<lambda>_ _. False) t"
    if "writing t" "sb_container (sb t) = Some (lit ''c1'')" "sessions t = Map.empty" "cid = Some (lit ''c1'')" for t :: srv and cid
    by (rule json_log_wp)
      (use that in \<open>auto dest: same_more_sessions simp: CAPPED_EVENT_TYPES_def started_data_def dump_network_def str_list_def
         opt_str_def same_sandbox_def same_rest_def run_task_def demo_task_def\<close>)
  have su: "tk_setup run_task = []" by (simp add: run_task_def demo_task_def)
  have ss: "wp (start_session ?E run_task p) (\<lambda>_. one_session) (\<lambda>_ _. False) (t\<lparr>sb := new_sandbox run_task True\<rparr>)"
    if "writing t" "dcalls t = []" "sessions t = Map.empty" for t :: srv and p
    unfolding start_session_def wp_seq [of "try_except m h" for m h] wp_try_except
    by (rule wp_mono [OF st [OF that]])
      (auto simp: wp_simps su intro!: wp_mono [OF l] o)
  show ?thesis
    unfolding start_task_def mcp_find [OF run_task_wf] bind_ret trajectory_path_def wp_bind wp_now_iso wp_ret
      wp_seq [of "modify f" for f] wp_modify mcp_env_sel mcp_idle_sel wp_seq [of "open_writer E" for E]
    by (rule wp_mono [OF mcp_open]) (auto simp: wp_simps intro: ss)
qed


definition leak_task :: task where
  "leak_task = run_task\<lparr>tk_setup := [lit ''s'']\<rparr>"

definition refusing_daemon :: "dlog \<Rightarrow> dcall \<Rightarrow> exn + dresult" where
  "refusing_daemon log c = (case c of Exec_run i l w \<Rightarrow> Inl (Api_Error []) | _ \<Rightarrow> demo_daemon log c)"

definition leaked :: "srv \<Rightarrow> bool" where
  "leaked t \<longleftrightarrow> sessions t = Map.empty \<and> lit ''c1'' \<in> created (dcalls t) \<and> lit ''c1'' \<notin> removed (dcalls t)"

lemma mcp_leak: "wp (start_task (mcp_env leak_task refusing_daemon) (lit ''t''))
    (\<lambda>_ _. False) (\<lambda>e t. is_sandbox_error e \<and> leaked t) mcp_idle"
proof -
  let ?E = "mcp_env leak_task refusing_daemon"
  have wf: "wf_task leak_task" "tk_id leak_task = lit ''t''"
    using run_task_wf by (simp_all add: leak_task_def wf_task_def)
  have su: "tk_setup leak_task = [lit ''s'']" by (simp add: leak_task_def)
  have st: "wp (start ?E) (\<lambda>_ u. writing u \<and> sb_container (sb u) = Some (lit ''c1'') \<and> sb_task (sb u) = leak_task
      \<and> leaked u) (\<lambda>_ _. False) (t\<lparr>sb := new_sandbox leak_task True\<rparr>)"
    if "writing t" "dcalls t = []" "sessions t = Map.empty" for t :: srv
    by (rule wp_mono [OF mcp_box_start])
      (use that in \<open>auto simp: writing_def leak_task_def run_task_def demo_daemon_def refusing_daemon_def leaked_def\<close>)
  have l: "wp (log_event ?E Run_started (started_data leak_task cid)) (\<lambda>_ u. sb_container (sb u) = Some (lit ''c1'')
        \<and> leaked u) (\<lambda>_ _. False) t"
    if "writing t" "sb_container (sb t) = Some (lit ''c1'')" "leaked t" "cid = Some (lit ''c1'')" for t :: srv and cid
    by (rule json_log_wp)
      (use that in \<open>auto dest: same_more_sessions simp: CAPPED_EVENT_TYPES_def started_data_def dump_network_def
         str_list_def opt_str_def same_sandbox_def leaked_def leak_task_def run_task_def demo_task_def\<close>)
  have x: "wp (run_setup ?E [lit ''s'']) Q (\<lambda>e t. is_sandbox_error e \<and> leaked t) t"
    if "sb_container (sb t) = Some (lit ''c1'')" "leaked t" for Q and t :: srv
  proof -
    have "leaked (answered (Exec_run c l w) r t)" for c l w r
      using that(2) same_rest_sel [of t "answered (Exec_run c l w) r t"]
      by (auto simp: leaked_def split: sum.split)
    then show ?thesis using that
      by (simp add: exec_and_record_def exec_def wp_simps Let_def refusing_daemon_def)
  qed
  have ss: "wp (start_session ?E leak_task p) (\<lambda>_ _. False) (\<lambda>e t. is_sandbox_error e \<and> leaked t)
      (t\<lparr>sb := new_sandbox leak_task True\<rparr>)"
    if "writing t" "dcalls t = []" "sessions t = Map.empty" for t :: srv and p
    unfolding start_session_def wp_seq [of "try_except m h" for m h] wp_try_except su wp_bind
    by (rule wp_mono [OF st [OF that]])
      (auto simp: wp_simps simp del: run_setup.simps intro!: wp_mono [OF l] x)
  show ?thesis
    unfolding start_task_def mcp_find [OF wf] bind_ret trajectory_path_def wp_bind wp_now_iso wp_ret
      wp_seq [of "modify f" for f] wp_modify mcp_env_sel mcp_idle_sel wp_seq [of "open_writer E" for E]
    by (rule wp_mono [OF mcp_open]) (auto simp: wp_simps intro: ss)
qed


text \<open>A live session, by hand: a task without a proxy, its container, an empty trajectory.\<close>

definition mcp_path :: path where
  "mcp_path = stamp_path run_task [] (utcnow_iso (e_clock demo_env 0))"

definition mcp_session :: session where
  "mcp_session = \<lparr>se_task = run_task,
     se_sandbox = (new_sandbox run_task True)\<lparr>sb_client := True, sb_container := Some (lit ''c1'')\<rparr>,
     se_writer = (new_writer mcp_path (Some (overflow_dir [])) DEFAULT_MAX_BYTES)\<lparr>w_fh := True\<rparr>,
     se_path = mcp_path, se_count = 0\<rparr>"

definition mcp_payload :: jval where
  "mcp_payload = JObj (descriptor mcp_sid run_task (Some (lit ''c1'')) mcp_path [])"

definition mcp_live :: srv where
  "mcp_live = mcp_idle\<lparr>sessions := [mcp_sid \<mapsto> mcp_session], texts := [mcp_path \<mapsto> []], uuids := 1,
     descs := [(desc_name mcp_sid, Inr (json_dumps 0 mcp_payload))]\<rparr>"

lemma mcp_live_sel [simp]: "sessions mcp_live = [mcp_sid \<mapsto> mcp_session]" "texts mcp_live = [mcp_path \<mapsto> []]"
  "dcalls mcp_live = []" "uuids mcp_live = 1" "descs mcp_live = [(desc_name mcp_sid, Inr (json_dumps 0 mcp_payload))]"
  by (simp_all add: mcp_live_def)

lemma run_task_dumpable: "dumpable (dump_task run_task)"
  by (simp add: run_task_def demo_task_def dump_task_def dump_network_def str_list_def opt_str_def lit_def is_scalar_def)

lemma mcp_payload_loads: "json_loads (json_dumps 0 mcp_payload) = Some mcp_payload"
proof (rule indented.dec_enc)
  have "list_all (\<lambda>p. good_part p \<and> list_all is_scalar p) mcp_path"
    unfolding mcp_path_def by (rule stamp_path_plain) (simp_all add: run_task_wf)
  from path_str_scalar [OF this] show "dumpable mcp_payload"
    by (simp add: mcp_payload_def descriptor_def run_task_dumpable mcp_sid_def lit_def opt_str_def is_scalar_def)
      (simp add: run_task_def is_scalar_def)
qed

lemma mcp_described:
  "described (mcp_env run_task demo_daemon) mcp_sid mcp_session (json_dumps 0 mcp_payload)"
  unfolding described_def
  by (rule exI [of _ "lit ''c1''"], rule exI [of _ "[]"])
    (simp add: mcp_session_def mcp_payload_loads, simp add: mcp_payload_def)

lemma mcp_live_owned: "owned (mcp_env run_task demo_daemon) mcp_live"
  by (simp add: owned_def clean_def mcp_session_def mcp_sid_def)

lemma mcp_live_events: "events_of (mcp_env run_task demo_daemon) mcp_path [] (load mcp_session mcp_live)"
  by (simp add: events_of_def load_def mcp_session_def new_writer_def DEFAULT_MAX_BYTES_def)

lemma mcp_exec: "wp (exec_tool (mcp_env run_task demo_daemon) mcp_sid (lit ''v'')) (\<lambda>_ _. True) (\<lambda>_ _. False) mcp_live"
proof -
  let ?E = "mcp_env run_task demo_daemon" and ?s = "load mcp_session mcp_live"
  have d: "decode_stream (Some [97]) = [97]" "decode_stream None = []" by code_simp+
  have w: "writing (answered q r ?s)" for q r
    by (simp add: writing_def load_def mcp_session_def new_writer_def)
  have cap: "cap_event_data ?E Agent_command (dump_command
    \<lparr>cr_cmd = c, cr_exit_code = n, cr_stdout = [97], cr_stderr = [], cr_duration_ms = m\<rparr>) t
  = (Inr (dump_command \<lparr>cr_cmd = c, cr_exit_code = n, cr_stdout = [97], cr_stderr = [],
      cr_duration_ms = m\<rparr>), t)" if "writing t" for c n m and t :: srv
    using that by (auto simp: cap_event_data_def writing_def cap_command_data_def CAPPED_FIELDS_def cap_field_def
      dump_command_def cap_stream_eq enc1_def is_scalar_def DEFAULT_MAX_BYTES_def py_defs split: option.split)
  have "wp (bind (exec ?E (record_egress ?E) (lit ''v'') None) (\<lambda>r. write_event ?E Agent_command (dump_command r)))
      (\<lambda>_ _. True) (\<lambda>_ _. False) ?s"
    using w
    by (auto simp: exec_def wp_simps Let_def demo_daemon_def d load_def mcp_session_def new_sandbox_def
        dump_command_def is_scalar_def
        intro!: json_write_wp cap [unfolded dump_command_def, simplified])
  from wp_return [OF this] obtain ev u where m: "bind (exec ?E (record_egress ?E) (lit ''v'') None)
      (\<lambda>r. write_event ?E Agent_command (dump_command r)) ?s = (Inr ev, u)" by auto
  then have "on_session mcp_sid (\<lambda>_. bind (exec ?E (record_egress ?E) (lit ''v'') None)
      (\<lambda>r. write_event ?E Agent_command (dump_command r))) mcp_live = (Inr ev, store mcp_sid mcp_session u)"
    by (simp add: on_session_def)
  then show ?thesis
    by (simp add: exec_tool_def wp_bind wp_def [of "on_session i m" for i m] wp_seq wp_modify wp_ret
        count_command_def)
qed


section \<open>Properties\<close>



text \<open>C21. A command run for the agent is answered with what the trajectory records of it: after the call
  the session's file reads back as the earlier events, the connection attempts the proxy saw,
  and one agent_command event with that command, whose data is the answer. The session's
  command count goes up by one and no other session changes.\<close>

theorem exec_answers_what_is_recorded:
  assumes "codec_ok E" "sessions s sid = Some se" "events_of E p evs (load se s)"
    and "exec_tool E sid cmd s = (Inr v, t)"
  shows "\<exists>c egr ev se'. texts t p = Some c \<and> read_trajectory E c = Inr (evs @ egr @ [ev])
    \<and> list_all (\<lambda>e. ev_type e = Egress_attempt) egr \<and> ev_type ev = Agent_command
    \<and> map_of (ev_data ev) (lit ''cmd'') = Some (JStr cmd) \<and> v = JObj (ev_data ev)
    \<and> sessions t = (sessions s)(sid \<mapsto> se') \<and> se_count se' = Suc (se_count se)"
  using exec_tool_recorded [OF assms(2-4)] read_rendered [OF assms(1)] by fast

theorem exec_answers_what_is_recorded_witness:
  "\<exists>v (t :: srv) c egr ev se'. texts t mcp_path = Some c
    \<and> read_trajectory (mcp_env run_task demo_daemon) c = Inr ([] @ egr @ [ev])
    \<and> list_all (\<lambda>e. ev_type e = Egress_attempt) egr \<and> ev_type ev = Agent_command
    \<and> map_of (ev_data ev) (lit ''cmd'') = Some (JStr (lit ''v'')) \<and> v = JObj (ev_data ev)
    \<and> sessions t = (sessions mcp_live)(mcp_sid \<mapsto> se') \<and> se_count se' = Suc 0"
proof -
  obtain v t where t: "exec_tool (mcp_env run_task demo_daemon) mcp_sid (lit ''v'') mcp_live = (Inr v, t)"
    using wp_return [OF mcp_exec] by blast
  have se: "sessions mcp_live mcp_sid = Some mcp_session" by simp
  have n: "se_count mcp_session = 0" by (simp add: mcp_session_def)
  show ?thesis
    by (rule exI [of _ v], rule exI [of _ t])
      (rule exec_answers_what_is_recorded [OF mcp_codec se mcp_live_events t, unfolded n])
qed

text \<open>C25. Finishing always ends the session. Whether the verify commands pass, fail or break off with an
  exception, finish_task comes to its end with the session gone from the table, the removal of
  its container requested and its descriptor deleted unless the file system refuses; a
  later call on it is refused, and the other sessions are untouched.\<close>

theorem finish_task_always_ends:
  assumes "daemon_ok E" "owned E s" "sessions s sid = Some se"
  shows "(case finish_task E sid s of (r, t) \<Rightarrow>
    sessions t = (sessions s)(sid := None)
    \<and> set_option (sb_container (se_sandbox se)) \<subseteq> removed (dcalls t)
    \<and> (v_locked E (desc_name sid) \<or> map_of (descs t) (desc_name sid) = None)
    \<and> exec_tool E sid cmd t = (Inl (unknown_session sid), t)
    \<and> finish_task E sid t = (Inl (unknown_session sid), t))"
proof -
  have "clean (se_sandbox se)" using assms(2,3) by (auto simp: owned_def ran_def)
  from finish_task_ends [OF assms(1,3) this] show ?thesis
    by (auto simp: wp_def exec_tool_def finish_task_def [of E sid] on_session_def pop_session_def bind_def
        split: prod.splits sum.splits)
qed

theorem finish_task_always_ends_witness:
  "(case finish_task (mcp_env run_task demo_daemon) mcp_sid mcp_live of (r, t) \<Rightarrow>
    sessions t = (sessions mcp_live)(mcp_sid := None)
    \<and> set_option (sb_container (se_sandbox mcp_session)) \<subseteq> removed (dcalls t)
    \<and> (v_locked (mcp_env run_task demo_daemon) (desc_name mcp_sid) \<or> map_of (descs t) (desc_name mcp_sid) = None)
    \<and> exec_tool (mcp_env run_task demo_daemon) mcp_sid (lit ''v'') t = (Inl (unknown_session mcp_sid), t)
    \<and> finish_task (mcp_env run_task demo_daemon) mcp_sid t = (Inl (unknown_session mcp_sid), t))"
  by (rule finish_task_always_ends [OF mcp_daemon_ok mcp_live_owned]) simp


end
