(* ===== verification/Cli_Reap.thy ===== *)
theory Cli_Reap
  imports Cli_Batch Mcp_Props
begin

text \<open>
  \<^verbatim>\<open>cli.py\<close>, the \<^verbatim>\<open>reap\<close> subcommand: it removes the containers and snapshot images that no
  session descriptor accounts for, and old logs of batches. What the daemon lists, the files of
  the two directories and which removal fails are parameters; the state is the list of the
  removals asked for and the output.
\<close>

section \<open>The code\<close>

record rcontainer =
  rc_id :: pystr
  rc_tags :: "pystr list"
  rc_status :: pystr
  rc_exit :: "int option"
  rc_labels :: "(pystr \<times> pystr) list"

text \<open>The attributes of an image are None when the SDK raises on reading them.\<close>

record rimage =
  ri_id :: pystr
  ri_tags :: "pystr list"
  ri_attrs :: "dict option"

datatype removal = Remove_container_now pystr | Remove_image_now pystr | Delete_log path

record reap_env =
  rv_cli :: cenv
  rv_root :: path
  rv_daemon :: "exn option"
  rv_labelled :: "exn + rcontainer list"
  rv_ancestor :: "exn + rcontainer list"
  rv_snapshots :: "exn + rimage list"
  rv_sessions :: "(pystr \<times> (exn + pystr)) list"
  rv_logs :: "(path \<times> int) list"
  rv_now :: int
  rv_fails :: "removal \<Rightarrow> exn option"

record reap_args =
  rg_dry_run :: bool
  rg_older_than :: int

record rstate =
  rp_removals :: "removal list"
  rp_stdout :: "pystr list"
  rp_stderr :: "pystr list"

definition reap_print :: "pystr list \<Rightarrow> (rstate, unit) py" where
  "reap_print ls = modify (\<lambda>s. s\<lparr>rp_stdout := rp_stdout s @ ls\<rparr>)"

definition warn :: "pystr \<Rightarrow> (rstate, unit) py" where
  "warn l = modify (\<lambda>s. s\<lparr>rp_stderr := rp_stderr s @ [l]\<rparr>)"

subsection \<open>What is live\<close>

text \<open>
  The values one key has in the descriptors. A descriptor that cannot be opened or parsed is
  skipped; one that is not an object raises.
\<close>

definition read_descriptor :: "reap_env \<Rightarrow> exn + pystr \<Rightarrow> exn + dict option" where
  "read_descriptor R content = (case content of
     Inl e \<Rightarrow> if is_os_error e then Inr None else Inl e
   | Inr text \<Rightarrow> (case e_loads (rv_cli R) text of
       None \<Rightarrow> Inr None | Some (JObj payload) \<Rightarrow> Inr (Some payload) | Some _ \<Rightarrow> Inl Attribute_Error))"

definition live_value :: "reap_env \<Rightarrow> string \<Rightarrow> dict option \<Rightarrow> pystr list" where
  "live_value R k d = (case d of None \<Rightarrow> []
   | Some payload \<Rightarrow> (let v = dict_get payload k JNull in
       if truthy (c_ftrue (rv_cli R)) v then [py_str (c_quote (rv_cli R)) v] else []))"

fun live_values :: "reap_env \<Rightarrow> string \<Rightarrow> (pystr \<times> (exn + pystr)) list \<Rightarrow> exn + pystr list" where
  "live_values R k [] = Inr []"
| "live_values R k ((name, content) # fs) = (case read_descriptor R content of
     Inl e \<Rightarrow> Inl e
   | Inr d \<Rightarrow> (case live_values R k fs of Inl e \<Rightarrow> Inl e | Inr vs \<Rightarrow> Inr (live_value R k d @ vs)))"

definition session_files :: "reap_env \<Rightarrow> (pystr \<times> (exn + pystr)) list" where
  "session_files R = filter (\<lambda>f. is_desc (fst f)) (rv_sessions R)"

definition live_session_container_ids :: "reap_env \<Rightarrow> exn + pystr list" where
  "live_session_container_ids R = live_values R ''container_id'' (session_files R)"

definition live_session_ids :: "reap_env \<Rightarrow> exn + pystr list" where
  "live_session_ids R = live_values R ''session_id'' (session_files R)"

subsection \<open>What is not\<close>

definition short_id :: "rcontainer \<Rightarrow> pystr" where
  "short_id c = take 12 (rc_id c)"

definition listing :: "string \<Rightarrow> exn + 'a list \<Rightarrow> (rstate, 'a list) py" where
  "listing what r = (case r of
     Inr xs \<Rightarrow> ret xs
   | Inl e \<Rightarrow> seq (warn (lit ''warning: '' @ lit what @ lit '' failed: '' @ exn_text e)) (ret []))"

definition find_prehnite_containers :: "reap_env \<Rightarrow> (rstate, rcontainer list) py" where
  "find_prehnite_containers R = bind (listing ''label filter'' (rv_labelled R)) (\<lambda>xs.
     bind (listing ''ancestor filter'' (rv_ancestor R)) (\<lambda>ys.
       ret (map snd (foldl (\<lambda>seen c. AList.update (rc_id c) c seen) [] (xs @ ys)))))"

fun sub_dict :: "jval option \<Rightarrow> dict" where
  "sub_dict (Some (JObj d)) = d"
| "sub_dict _ = []"

definition image_labels :: "reap_env \<Rightarrow> rimage \<Rightarrow> (pystr \<times> pystr) list" where
  "image_labels R img = (let attrs = (case ri_attrs img of None \<Rightarrow> [] | Some d \<Rightarrow> d);
       config = sub_dict (map_of attrs (lit ''Config'')) in
     map (\<lambda>(k, v). (k, py_str (c_quote (rv_cli R)) v)) (sub_dict (map_of config (lit ''Labels''))))"

definition session_label :: "reap_env \<Rightarrow> rimage \<Rightarrow> pystr option" where
  "session_label R img = map_of (image_labels R img) (lit ''prehnite.session_id'')"

definition is_orphan_snapshot :: "reap_env \<Rightarrow> pystr list \<Rightarrow> rimage \<Rightarrow> bool" where
  "is_orphan_snapshot R live img = (case session_label R img of
     None \<Rightarrow> True | Some sid \<Rightarrow> sid = [] \<or> sid \<notin> set live)"

definition find_orphan_snapshot_images :: "reap_env \<Rightarrow> pystr list \<Rightarrow> (rstate, rimage list) py" where
  "find_orphan_snapshot_images R live = bind (listing ''snapshot image listing'' (rv_snapshots R)) (\<lambda>imgs.
     ret (filter (is_orphan_snapshot R live) imgs))"

definition find_stale_logs :: "reap_env \<Rightarrow> int \<Rightarrow> path list" where
  "find_stale_logs R older_than = sort (map fst (filter (\<lambda>(p, mtime).
     butlast p = rv_root R @ [lit ''batch-logs''] \<and> named ''.log'' p \<and> mtime < rv_now R - older_than) (rv_logs R)))"

subsection \<open>Output\<close>

definition image_tag :: "rcontainer \<Rightarrow> pystr" where
  "image_tag c = (case rc_tags c of [] \<Rightarrow> lit ''(untagged)'' | t # _ \<Rightarrow> t)"

definition status_disp :: "rcontainer \<Rightarrow> pystr" where
  "status_disp c = (let state = (if rc_status c = [] then lit ''?'' else rc_status c) in
     case rc_exit c of None \<Rightarrow> state
     | Some ec \<Rightarrow> if state = lit ''running'' then state else state @ lit '' ('' @ py_str_int ec @ lit '')'')"

definition task_label :: "rcontainer \<Rightarrow> pystr" where
  "task_label c = (case map_of (rc_labels c) (lit ''prehnite.task_id'') of
     None \<Rightarrow> [] | Some t \<Rightarrow> if t = [] then [] else lit ''task='' @ t)"

definition reap_plan :: "reap_env \<Rightarrow> bool \<Rightarrow> rcontainer list \<Rightarrow> rimage list \<Rightarrow> path list \<Rightarrow> pystr list" where
  "reap_plan R dry_run cs imgs logs =
     (if cs = [] \<and> imgs = [] \<and> logs = [] then [lit ''nothing to reap. host is clean.'']
      else (if cs = [] then [] else (lit ''Containers to reap ('' @ nat_text (length cs) @ lit ''):'')
              # map (\<lambda>c. lit ''  '' @ short_id c @ lit ''  '' @ image_tag c @ lit ''  '' @ status_disp c
                     @ lit ''  '' @ task_label c) cs)
        @ (if imgs = [] then [] else ([10] @ lit ''Snapshot images to reap ('' @ nat_text (length imgs) @ lit ''):'')
              # map (\<lambda>img. lit ''  '' @ (case ri_tags img of [] \<Rightarrow> lit ''(untagged)'' | t # _ \<Rightarrow> t)
                     @ lit ''  session='' @ (case session_label R img of None \<Rightarrow> lit ''(no session label)'' | Some s \<Rightarrow> s)) imgs)
        @ (if logs = [] then [] else ([10] @ lit ''batch-logs to delete ('' @ nat_text (length logs) @ lit ''):'')
              # map (\<lambda>p. lit ''  '' @ relative_to p (rv_root R)) logs)
        @ (if dry_run then [[10] @ lit ''(dry-run; nothing changed.)''] else []))"

subsection \<open>Removing\<close>

definition request :: "reap_env \<Rightarrow> removal \<Rightarrow> (rstate, unit) py" where
  "request R x = seq (modify (\<lambda>s. s\<lparr>rp_removals := rp_removals s @ [x]\<rparr>))
     (case rv_fails R x of None \<Rightarrow> ret () | Some e \<Rightarrow> raise e)"

text \<open>One of the three loops: failures of the expected kind are warned about and not counted.\<close>

fun remove_all :: "reap_env \<Rightarrow> (exn \<Rightarrow> bool) \<Rightarrow> (removal \<times> pystr) list \<Rightarrow> nat \<Rightarrow> (rstate, nat) py" where
  "remove_all R expected [] n = ret n"
| "remove_all R expected ((x, what) # xs) n = bind
     (try_except (seq (request R x) (ret (Suc n)))
       (\<lambda>e. if expected e then Some (seq (warn (lit ''  warning: could not '' @ what @ lit '': '' @ exn_text e)) (ret n))
             else None))
     (remove_all R expected xs)"

definition container_removals :: "rcontainer list \<Rightarrow> (removal \<times> pystr) list" where
  "container_removals cs = map (\<lambda>c. (Remove_container_now (rc_id c), lit ''remove '' @ short_id c)) cs"

definition image_removals :: "rimage list \<Rightarrow> (removal \<times> pystr) list" where
  "image_removals imgs = map (\<lambda>img. (Remove_image_now (ri_id img), lit ''remove snapshot '' @ ri_id img)) imgs"

definition log_removals :: "path list \<Rightarrow> (removal \<times> pystr) list" where
  "log_removals logs = map (\<lambda>p. (Delete_log p, lit ''delete '' @ path_str p)) logs"

definition reap :: "reap_env \<Rightarrow> rcontainer list \<Rightarrow> rimage list \<Rightarrow> path list \<Rightarrow> (rstate, int) py" where
  "reap R cs imgs logs =
     bind (remove_all R is_api_error (container_removals cs) 0) (\<lambda>reaped_containers.
     bind (remove_all R is_api_error (image_removals imgs) 0) (\<lambda>reaped_snapshots.
     bind (remove_all R is_os_error (log_removals logs) 0) (\<lambda>deleted_logs.
       seq (reap_print [[], lit ''Reaped '' @ nat_text reaped_containers @ lit '' containers, ''
              @ nat_text reaped_snapshots @ lit '' snapshots, and '' @ nat_text deleted_logs @ lit '' batch logs.''])
         (ret 0))))"

definition is_orphan_container :: "pystr list \<Rightarrow> rcontainer \<Rightarrow> bool" where
  "is_orphan_container live c \<longleftrightarrow> short_id c \<notin> set live \<and> rc_id c \<notin> set live"

definition reap_with :: "reap_env \<Rightarrow> reap_args \<Rightarrow> pystr list \<Rightarrow> pystr list \<Rightarrow> (rstate, int) py" where
  "reap_with R A live_sessions live_containers =
     bind (find_prehnite_containers R) (\<lambda>candidates.
       let orphans = filter (is_orphan_container live_containers) candidates in
       bind (find_orphan_snapshot_images R live_sessions) (\<lambda>snapshots.
         let logs = find_stale_logs R (rg_older_than A) in
         seq (reap_print (reap_plan R (rg_dry_run A) orphans snapshots logs))
           (if rg_dry_run A then ret 0 else reap R orphans snapshots logs)))"

definition cmd_reap :: "reap_env \<Rightarrow> reap_args \<Rightarrow> (rstate, int) py" where
  "cmd_reap R A = (case rv_daemon R of
     Some e \<Rightarrow> if is_docker_exception e
       then seq (warn (lit ''error: could not reach Docker daemon: '' @ exn_text e)) (ret 2) else raise e
   | None \<Rightarrow> (case live_session_ids R of Inl e \<Rightarrow> raise e
     | Inr sids \<Rightarrow> (case live_session_container_ids R of Inl e \<Rightarrow> raise e
       | Inr cids \<Rightarrow> reap_with R A sids cids)))"

section \<open>What a reap may ask for\<close>

definition may_remove :: "reap_env \<Rightarrow> reap_args \<Rightarrow> pystr list \<Rightarrow> pystr list \<Rightarrow> removal \<Rightarrow> bool" where
  "may_remove R A sids cids x \<longleftrightarrow> \<not> rg_dry_run A \<and> (case x of
     Remove_container_now i \<Rightarrow> i \<notin> set cids \<and> take 12 i \<notin> set cids
   | Remove_image_now i \<Rightarrow> (\<exists>img. ri_id img = i \<and> is_orphan_snapshot R sids img
        \<and> (\<exists>imgs. rv_snapshots R = Inr imgs \<and> img \<in> set imgs))
   | Delete_log p \<Rightarrow> p \<in> set (find_stale_logs R (rg_older_than A)))"

definition asks_only :: "(removal \<Rightarrow> bool) \<Rightarrow> rstate \<Rightarrow> bool" where
  "asks_only P s \<longleftrightarrow> list_all P (rp_removals s)"

lemma remove_all_asks: "list_all (\<lambda>x. P (fst x)) xs \<Longrightarrow> preserves (asks_only P) (remove_all R ex xs n)"
  by (induction R ex xs n rule: remove_all.induct)
    (auto simp: asks_only_def request_def warn_def intro!: keeps_intros split: option.split if_splits)

lemma reap_print_asks [keeps_intros]: "preserves (asks_only P) (reap_print ls)"
  and warn_asks [keeps_intros]: "preserves (asks_only P) (warn l)"
  by (simp_all add: reap_print_def warn_def asks_only_def keeps_def)

lemma listing_wp:
  "wp (listing what r) (\<lambda>xs t. rp_removals t = rp_removals s \<and> (xs = [] \<or> r = Inr xs)) (\<lambda>_ _. False) s"
  by (simp add: listing_def warn_def wp_simps split: sum.split)

lemma reap_asks:
  assumes "list_all (is_orphan_container cids) cs" "\<not> rg_dry_run A" "logs = find_stale_logs R (rg_older_than A)"
    and "list_all (\<lambda>img. is_orphan_snapshot R sids img \<and> (\<exists>imgs. rv_snapshots R = Inr imgs \<and> img \<in> set imgs)) imgs"
  shows "preserves (asks_only (may_remove R A sids cids)) (reap R cs imgs logs)"
  unfolding reap_def using assms
  by (intro keeps_intros remove_all_asks)
    (auto simp: list_all_iff container_removals_def image_removals_def log_removals_def may_remove_def
      is_orphan_container_def short_id_def)

lemma reap_with_asks:
  assumes "rp_removals s = []"
  shows "wp (reap_with R A sids cids) (\<lambda>_. asks_only (may_remove R A sids cids))
    (\<lambda>_. asks_only (may_remove R A sids cids)) s"
proof -
  let ?I = "asks_only (may_remove R A sids cids)"
  have b: "wp (seq (reap_print ls) (if rg_dry_run A then ret 0 else reap R (filter (is_orphan_container cids) cs)
      (filter (is_orphan_snapshot R sids) imgs) (find_stale_logs R (rg_older_than A)))) (\<lambda>_. ?I) (\<lambda>_. ?I) t"
    if "rp_removals t = []" "imgs = [] \<or> rv_snapshots R = Inr imgs" for ls cs imgs t
  proof (rule wp_preserves)
    show "?I t" using that(1) by (simp add: asks_only_def)
    show "preserves ?I (seq (reap_print ls) (if rg_dry_run A then ret 0 else reap R (filter (is_orphan_container cids) cs)
      (filter (is_orphan_snapshot R sids) imgs) (find_stale_logs R (rg_older_than A))))"
      using that(2) by (auto intro!: keeps_intros reap_asks simp: list_all_iff)
  qed
  show ?thesis
    unfolding reap_with_def find_prehnite_containers_def find_orphan_snapshot_images_def wp_bind Let_def wp_ret
    by (rule wp_mono [OF listing_wp], rule wp_mono [OF listing_wp], rule wp_mono [OF listing_wp], rule b)
      (use assms in auto)
qed

lemma live_values_in:
  assumes "live_values R k fs = Inr vs" "(name, Inr text) \<in> set fs"
    and "e_loads (rv_cli R) text = Some (JObj payload)" "dict_get payload k JNull = JStr v" "v \<noteq> []"
  shows "v \<in> set vs"
  using assms
proof (induction fs arbitrary: vs)
  case (Cons f fs)
  obtain name' content where f: "f = (name', content)" by (cases f)
  obtain d ws where d: "read_descriptor R content = Inr d" "live_values R k fs = Inr ws" "vs = live_value R k d @ ws"
    using Cons.prems(1) by (auto simp: f split: sum.splits)
  show ?case
  proof (cases "f = (name, Inr text)")
    case True
    then have "d = Some payload" using d(1) f Cons.prems(3) by (simp add: read_descriptor_def)
    then show ?thesis using Cons.prems(4,5) d(3) by (simp add: live_value_def)
  next
    case False
    with Cons.IH [OF d(2)] Cons.prems d(3) show ?thesis by auto
  qed
qed simp

lemma cmd_reap_asks:
  assumes "cmd_reap R A u = (r, t)" "rp_removals u = []"
  shows "rp_removals t = [] \<or> (\<exists>sids cids. live_session_ids R = Inr sids \<and> live_session_container_ids R = Inr cids
     \<and> list_all (may_remove R A sids cids) (rp_removals t))"
proof -
  have "wp (cmd_reap R A) (\<lambda>_ t. rp_removals t = [] \<or> (\<exists>sids cids. live_session_ids R = Inr sids
      \<and> live_session_container_ids R = Inr cids \<and> list_all (may_remove R A sids cids) (rp_removals t)))
    (\<lambda>_ t. rp_removals t = [] \<or> (\<exists>sids cids. live_session_ids R = Inr sids
      \<and> live_session_container_ids R = Inr cids \<and> list_all (may_remove R A sids cids) (rp_removals t))) u"
    using assms(2)
    by (auto simp: cmd_reap_def warn_def wp_simps asks_only_def split: option.split sum.split
        intro!: wp_mono [OF reap_with_asks])
  from wpD [OF this assms(1)] show ?thesis by (cases r) auto
qed

text \<open>What one removal leaves alone, for a session and its container.\<close>

fun spares :: "reap_env \<Rightarrow> pystr \<Rightarrow> pystr \<Rightarrow> removal \<Rightarrow> bool" where
  "spares R sid cid (Remove_container_now i) \<longleftrightarrow> i \<noteq> cid"
| "spares R sid cid (Remove_image_now i) \<longleftrightarrow> (\<exists>imgs img. rv_snapshots R = Inr imgs \<and> img \<in> set imgs
     \<and> ri_id img = i \<and> session_label R img \<noteq> Some sid)"
| "spares R sid cid (Delete_log p) \<longleftrightarrow> named ''.log'' p"

lemma may_remove_spares:
  assumes "may_remove R A sids cids x" "sid \<in> set sids" "cid \<in> set cids" "sid \<noteq> []"
  shows "spares R sid cid x"
proof (cases x)
  case (Remove_image_now i)
  then obtain img imgs where "ri_id img = i" "is_orphan_snapshot R sids img" "rv_snapshots R = Inr imgs" "img \<in> set imgs"
    using assms(1) by (auto simp: may_remove_def)
  moreover from this have "session_label R img \<noteq> Some sid"
    using assms(2,4) by (auto simp: is_orphan_snapshot_def)
  ultimately show ?thesis using Remove_image_now by auto
qed (use assms in \<open>auto simp: may_remove_def find_stale_logs_def\<close>)

section \<open>One session\<close>

text \<open>A reap spares what a described session uses. Run against the descriptors of a server, it asks
  neither for the removal of the container that a live, described session runs in, nor for that
  of a snapshot image labelled with the session, whatever the daemon lists; every image it does
  ask for is one the daemon listed. And a dry run asks for nothing.\<close>

lemma reap_spares_live_session:
  assumes "sessions s sid = Some se" "map_of (descs s) (desc_name sid) = Some (Inr text)"
    and "described E sid se text" "sid \<noteq> []" "47 \<notin> set sid"
    and "sb_container (se_sandbox se) = Some cid" "cid \<noteq> []"
    and "rv_sessions R = descs s" "e_loads (rv_cli R) = e_loads E"
    and "cmd_reap R A u = (r, t)" "rp_removals u = []"
  shows "list_all (spares R sid cid) (rp_removals t) \<and> (rg_dry_run A \<longrightarrow> rp_removals t = [])"
proof -
  obtain now where d: "e_loads (rv_cli R) text = Some (JObj (descriptor sid (se_task se) (Some cid) (se_path se) now))"
    using assms(3,6,9) by (auto simp: described_def)
  have f: "(desc_name sid, Inr text) \<in> set (session_files R)"
    using map_of_SomeD [OF assms(2)] assms(5,8)
    by (auto simp: session_files_def is_desc_def desc_name_def ends_with_iff lit_def)
  have v: "dict_get (descriptor sid (se_task se) (Some cid) (se_path se) now) ''session_id'' JNull = JStr sid"
    "dict_get (descriptor sid (se_task se) (Some cid) (se_path se) now) ''container_id'' JNull = JStr cid"
    by (simp_all add: descriptor_def dict_get_def opt_str_def)
  from cmd_reap_asks [OF assms(10,11)] show ?thesis
  proof (elim disjE exE conjE)
    fix sids cids
    assume l: "live_session_ids R = Inr sids" "live_session_container_ids R = Inr cids"
      and m: "list_all (may_remove R A sids cids) (rp_removals t)"
    have "sid \<in> set sids" "cid \<in> set cids"
      using live_values_in [OF _ f d v(1) assms(4)] live_values_in [OF _ f d v(2) assms(7)] l
      by (simp_all add: live_session_ids_def live_session_container_ids_def)
    then have "list_all (spares R sid cid) (rp_removals t)"
      using list.pred_mono_strong [OF m] may_remove_spares assms(4) by blast
    moreover have "rg_dry_run A \<Longrightarrow> rp_removals t = []"
      using m by (cases "rp_removals t") (simp_all add: may_remove_def)
    ultimately show ?thesis by blast
  qed simp
qed

text \<open>The session at hand and a stray container: the stray one is asked for, the session's is not.\<close>

definition reap_demo :: reap_env where
  "reap_demo = \<lparr>rv_cli = env.extend (env.truncate (mcp_env run_task demo_daemon))
       \<lparr>c_quote = (\<lambda>s. s), c_ftrue = (\<lambda>_. True), c_fromiso = (\<lambda>_. None), c_round1 = (\<lambda>_. [])\<rparr>,
     rv_root = [], rv_daemon = None,
     rv_labelled = Inr (map (\<lambda>i. \<lparr>rc_id = i, rc_tags = [], rc_status = [], rc_exit = None, rc_labels = []\<rparr>)
       [lit ''c1'', lit ''c2'']),
     rv_ancestor = Inr [], rv_snapshots = Inr [], rv_sessions = descs mcp_live, rv_logs = [], rv_now = 0,
     rv_fails = (\<lambda>_. None)\<rparr>"

definition reap_blank :: rstate where
  "reap_blank = \<lparr>rp_removals = [], rp_stdout = [], rp_stderr = []\<rparr>"

definition reap_now :: reap_args where
  "reap_now = \<lparr>rg_dry_run = False, rg_older_than = 0\<rparr>"

lemma reap_demo_loads: "e_loads (rv_cli reap_demo) = e_loads (mcp_env run_task demo_daemon)"
  by (simp add: reap_demo_def env.defs)

lemma reap_demo_live: "live_session_ids reap_demo = Inr [mcp_sid]"
  "live_session_container_ids reap_demo = Inr [lit ''c1'']"
proof -
  have f: "session_files reap_demo = descs mcp_live"
    by (simp add: session_files_def reap_demo_def is_desc_def desc_name_def ends_with_iff lit_def mcp_sid_def)
  have d: "read_descriptor reap_demo (Inr (json_dumps 0 mcp_payload))
      = Inr (Some (descriptor mcp_sid run_task (Some (lit ''c1'')) mcp_path []))"
    by (simp add: read_descriptor_def reap_demo_loads mcp_payload_loads) (simp add: mcp_payload_def)
  have v: "live_value reap_demo ''session_id'' (Some (descriptor mcp_sid run_task (Some (lit ''c1'')) mcp_path [])) = [mcp_sid]"
    "live_value reap_demo ''container_id'' (Some (descriptor mcp_sid run_task (Some (lit ''c1'')) mcp_path [])) = [lit ''c1'']"
    by (simp_all add: live_value_def Let_def dict_get_def descriptor_def opt_str_def)
      (simp_all add: mcp_sid_def lit_def)
  show "live_session_ids reap_demo = Inr [mcp_sid]" "live_session_container_ids reap_demo = Inr [lit ''c1'']"
    by (simp_all add: live_session_ids_def live_session_container_ids_def f d v)
qed

lemma reap_demo_run:
  "\<exists>out. cmd_reap reap_demo reap_now reap_blank
    = (Inr 0, \<lparr>rp_removals = [Remove_container_now (lit ''c2'')], rp_stdout = out, rp_stderr = []\<rparr>)"
proof -
  have r: "rv_daemon reap_demo = None" "rv_snapshots reap_demo = Inr []" "rv_fails reap_demo = (\<lambda>_. None)"
    "rv_logs reap_demo = []" "rv_ancestor reap_demo = Inr []"
    by (simp_all add: reap_demo_def)
  have c: "rv_labelled reap_demo = Inr [\<lparr>rc_id = lit ''c1'', rc_tags = [], rc_status = [], rc_exit = None, rc_labels = []\<rparr>,
      \<lparr>rc_id = lit ''c2'', rc_tags = [], rc_status = [], rc_exit = None, rc_labels = []\<rparr>]"
    by (simp add: reap_demo_def)
  show ?thesis
    by (simp add: cmd_reap_def r c reap_demo_live reap_with_def find_prehnite_containers_def listing_def
        find_orphan_snapshot_images_def find_stale_logs_def is_orphan_container_def short_id_def reap_now_def
        reap_def request_def container_removals_def image_removals_def log_removals_def reap_print_def reap_blank_def
        Let_def bind_def seq_def try_except_def lit_def)
qed

end
