(* ===== verification/Mcp_Durable.thy ===== *)
theory Mcp_Durable
  imports Mcp_Props
begin

text \<open>
  What survives a crash of the server. Between two tool calls every live session has a trajectory
  file of its own, which its writer continues, and a descriptor on disk that describes it as it is;
  no other descriptor is there. So a server that is restarted after any sequence of tool calls
  resumes exactly the sessions that can be resumed.
\<close>

section \<open>Operations on one session leave the other files alone\<close>

definition logged :: "'e env_scheme \<Rightarrow> path \<Rightarrow> 'z tstate_scheme \<Rightarrow> bool" where
  "logged E p s \<longleftrightarrow> (\<exists>evs. events_of E p evs s)"

text \<open>Only the writer's own file is touched, it stays a readable log, and so do the tables.\<close>

definition tame :: "'e env_scheme \<Rightarrow> 'z sstate_scheme \<Rightarrow> 'z sstate_scheme \<Rightarrow> bool" where
  "tame E s t \<longleftrightarrow> w_path (wr t) = w_path (wr s) \<and> (\<forall>q. q \<noteq> w_path (wr s) \<longrightarrow> texts t q = texts s q)
     \<and> (\<forall>p. logged E p s \<longrightarrow> logged E p t) \<and> same_rest s t"

lemma tame_refl [simp]: "reflp (tame E)"
  and tame_trans [simp]: "transp (tame E)"
  by (auto simp: reflp_def transp_def tame_def same_rest_def)

lemma logged_path: "logged E p s \<Longrightarrow> w_path (wr s) = p"
  by (auto simp: logged_def events_of_def)

lemma logged_text: "logged E p s \<Longrightarrow> texts s p \<noteq> None"
  by (auto simp: logged_def events_of_def)

lemma logged_cong: "wr s = wr t \<Longrightarrow> texts s p = texts t p \<Longrightarrow> logged E p s \<longleftrightarrow> logged E p t"
  by (simp add: logged_def events_of_def)

lemma quiet_tame: "keeps same_files m \<Longrightarrow> keeps same_rest m \<Longrightarrow> keeps (tame E) m"
  unfolding keeps_def tame_def same_files_def by (metis logged_cong)

lemma write_event_tame [keeps_intros]: "keeps (tame E) (write_event E ty d)"
proof (rule keepsI)
  fix s :: "'z sstate_scheme"
  obtain r t where w: "write_event E ty d s = (r, t)" by (cases "write_event E ty d s")
  have "texts t q = texts s q" if "q \<noteq> w_path (wr s)" for q
  proof (cases r)
    case (Inl e)
    with w show ?thesis using write_event_Inl [of E ty d s e t] by simp
  next
    case (Inr ev)
    with w have "write_event E ty d s = (Inr ev, t)" by simp
    then show ?thesis using that by (elim write_event_Inr) (simp add: append_text_def)
  qed
  moreover have "logged E p t" if l: "logged E p s" for p
  proof -
    obtain evs where e: "events_of E p evs s" using l by (auto simp: logged_def)
    have "wp (write_event E ty d) (\<lambda>_. logged E p) (\<lambda>_. logged E p) s"
      by (rule wp_mono [OF write_event_events [OF e]]) (auto simp: logged_def)
    with w show ?thesis by (auto simp: wp_def split: sum.splits)
  qed
  moreover have "w_path (wr t) = w_path (wr s)" using write_event_wr [OF w] by auto
  moreover have "same_rest s t" by (rule keepsD [OF write_event_rest w])
  ultimately show "tame E s (snd (write_event E ty d s))" using w by (simp add: tame_def)
qed

lemma log_event_tame [keeps_intros]: "keeps (tame E) (log_event E ty d)"
  by (auto simp: log_event_def intro!: keeps_intros)

lemma record_egress_tame: "keeps (tame E) (record_egress E d)"
  by (auto simp: record_egress_def intro!: keeps_intros)

lemma docker_tame [keeps_intros]: "keeps (tame E) (docker E' c)"
  by (intro quiet_tame keeps_intros)

lemma exec_tame [keeps_intros]: "keeps (tame E) (exec E (record_egress E) cmd tmo)"
proof -
  have "keeps (tame E) (proxied (record_egress E) ds)" for ds
    by (intro proxied_keeps record_egress_tame) simp_all
  then show ?thesis
    by (auto simp: exec_def Let_def intro!: keeps_intros split: if_splits option.split)
qed

lemma exec_and_record_tame [keeps_intros]: "keeps (tame E) (exec_and_record E ty cmd)"
  by (auto simp: exec_and_record_def intro!: keeps_intros)

lemma run_setup_tame [keeps_intros]: "keeps (tame E) (run_setup E cmds)"
  by (induction cmds) (auto intro!: keeps_intros)

lemma run_verify_tame [keeps_intros]: "keeps (tame E) (run_verify E cmds fs)"
  by (induction cmds arbitrary: fs) (auto intro!: keeps_intros)

lemma sandbox_tame [keeps_intros]: "keeps (tame E) (start E')" "keeps (tame E) (stop E')"
  "keeps (tame E) (snapshot E' ls)" "keeps (tame E) (revert E' i)"
proof -
  show "keeps (tame E) (start E')" "keeps (tame E) (stop E')"
    by (intro quiet_tame start_same_files stop_same_files keeps_intros)+
  have "keeps same_files (new_uuid E')" by (rule keepsI) (simp add: new_uuid_def same_files_def)
  then have "keeps same_files (snapshot E' ls)"
    by (auto simp: snapshot_def intro!: keeps_intros split: if_splits option.split)
  then show "keeps (tame E) (snapshot E' ls)" by (intro quiet_tame keeps_intros)
  have "keeps same_files (revert E' i)"
    by (auto simp: revert_def revert_run_def intro!: keeps_intros split: if_splits)
  then show "keeps (tame E) (revert E' i)" by (intro quiet_tame keeps_intros)
qed

lemma verify_session_tame: "keeps (tame E) (verify_session E sess)"
  by (auto simp: verify_session_def intro!: keeps_intros split: prod.split)

section \<open>Files and descriptors\<close>

definition orderly :: "venv \<Rightarrow> srv \<Rightarrow> srv \<Rightarrow> bool" where
  "orderly E s t \<longleftrightarrow> w_path (wr t) = w_path (wr s) \<and> (\<forall>q. q \<noteq> w_path (wr s) \<longrightarrow> texts t q = texts s q)
     \<and> (\<forall>p. logged E p s \<longrightarrow> logged E p t) \<and> same_table s t"

definition same_container :: "'z sstate_scheme \<Rightarrow> 'z sstate_scheme \<Rightarrow> bool" where
  "same_container s t \<longleftrightarrow> sb_container (sb t) = sb_container (sb s)"

lemma orderly_refl [simp]: "reflp (orderly E)"
  and orderly_trans [simp]: "transp (orderly E)"
  and same_container_refl [simp]: "reflp same_container"
  and same_container_trans [simp]: "transp same_container"
  by (auto simp: reflp_def transp_def orderly_def same_table_def same_container_def)

lemma tame_orderly: "keeps (tame E) m \<Longrightarrow> keeps (orderly E) (m :: (srv, 'a) py)"
  by (erule keeps_mono)
    (use same_rest_sel in \<open>auto simp: tame_def orderly_def same_table_def same_rest_def\<close>)

lemma persist_session_orderly [keeps_intros]: "keeps (orderly E) (persist_session E' sid task p)"
  by (rule keepsI)
    (auto simp: persist_session_def now_iso_def py_defs orderly_def same_table_def logged_def events_of_def)

text \<open>What a live session is on its own, and its file among those of the others.\<close>

definition sound :: "venv \<Rightarrow> srv \<Rightarrow> pystr \<Rightarrow> session \<Rightarrow> bool" where
  "sound E s sid se \<longleftrightarrow> sid \<in> s_uuid E ` {..<uuids s} \<and> wf_task (se_task se) \<and> dumpable (dump_task (se_task se))
     \<and> clean (se_sandbox se) \<and> list_all (\<lambda>p. good_part p \<and> list_all is_scalar p) (se_path se) \<and> logged E (se_path se) (load se s)"

definition files_ok :: "venv \<Rightarrow> srv \<Rightarrow> bool" where
  "files_ok E s \<longleftrightarrow> (\<forall>sid se. sessions s sid = Some se \<longrightarrow> sound E s sid se)
     \<and> (\<forall>i j a b. sessions s i = Some a \<longrightarrow> sessions s j = Some b \<longrightarrow> i \<noteq> j \<longrightarrow> se_path a \<noteq> se_path b)"

definition disk_ok :: "venv \<Rightarrow> srv \<Rightarrow> bool" where
  "disk_ok E s \<longleftrightarrow> distinct (map fst (descs s))
     \<and> (\<forall>sid se. sessions s sid = Some se
          \<longrightarrow> (\<exists>text. map_of (descs s) (desc_name sid) = Some (Inr text) \<and> described E sid se text))
     \<and> (\<forall>n\<in>fst ` set (descs s). \<exists>sid\<in>dom (sessions s). n = desc_name sid)"

lemma files_store:
  assumes f: "files_ok E s" and se: "sessions s sid = Some se" and o: "orderly E (load se s) u"
    and n: "clean (sb u)"
  shows "files_ok E (store sid se u)"
proof -
  let ?t = "store sid se u"
  have tab: "sessions u = sessions s" "uuids s \<le> uuids u" using o by (simp_all add: orderly_def same_table_def load_def)
  have l: "logged E (se_path se) (load se s)" using f se by (simp add: files_ok_def sound_def)
  then have p: "w_path (se_writer se) = se_path se" using logged_path by (fastforce simp: load_def)
  have lu: "logged E (se_path se) u" using o l by (simp add: orderly_def)
  have other: "texts u q = texts s q" if "q \<noteq> se_path se" for q
    using o p that by (simp add: orderly_def load_def)
  have uu: "s_uuid E ` {..<uuids s} \<subseteq> s_uuid E ` {..<uuids u}" using tab(2) by auto
  have "sound E ?t i a'" if a: "sessions ?t i = Some a'" for i a'
  proof (cases "i = sid")
    case True
    with a have a': "a' = se\<lparr>se_sandbox := sb u, se_writer := wr u\<rparr>" by (simp add: store_def)
    have "logged E (se_path se) (load a' ?t)"
      using lu by (rule logged_cong [THEN iffD1, rotated 2]) (simp_all add: a' load_def store_def)
    moreover have "sound E s sid se" using f se by (simp add: files_ok_def)
    ultimately show ?thesis using True a' uu n by (auto simp: sound_def store_def)
  next
    case False
    with a tab have i: "sessions s i = Some a'" by (simp add: store_def)
    then have "se_path a' \<noteq> se_path se" using f se False by (auto simp: files_ok_def)
    then have "texts (load a' s) (se_path a') = texts (load a' ?t) (se_path a')"
      using other by (simp add: load_def store_def)
    moreover have "wr (load a' s) = wr (load a' ?t)" by (simp add: load_def)
    moreover have "sound E s i a'" using f i by (simp add: files_ok_def)
    ultimately show ?thesis using uu by (auto simp: sound_def store_def dest: logged_cong [THEN iffD1])
  qed
  moreover have "se_path a \<noteq> se_path b" if "sessions ?t i = Some a" "sessions ?t j = Some b" "i \<noteq> j" for i j a b
    using that f se tab by (auto simp: files_ok_def store_def split: if_splits)
  ultimately show ?thesis by (simp add: files_ok_def)
qed

lemma disk_store:
  assumes d: "disk_ok E s" and se: "sessions s sid = Some se" and r: "same_rest (load se s) u"
    and c: "sb_container (sb u) = sb_container (se_sandbox se)"
  shows "disk_ok E (store sid se u)"
proof -
  have "sessions u = sessions s" "descs u = descs s" using same_rest_sel [OF r] by (simp_all add: load_def)
  moreover have "described E sid (se\<lparr>se_sandbox := sb u, se_writer := wr u\<rparr>) = described E sid se"
    using c by (simp add: described_def fun_eq_iff)
  ultimately show ?thesis using d se by (auto simp: disk_ok_def store_def)
qed

section \<open>The surroundings\<close>

text \<open>
  What is asked of them: identifiers and container names that can be printed, descriptors that can
  be deleted, a root whose parts are names, tasks that can be printed, and a JSON reader that
  inverts \<^verbatim>\<open>json.dumps\<close>.
\<close>

definition steady :: "venv \<Rightarrow> bool" where
  "steady E \<longleftrightarrow> daemon_ok E \<and> inj (s_uuid E)
     \<and> (\<forall>n. s_uuid E n \<noteq> [] \<and> 47 \<notin> set (s_uuid E n) \<and> list_all is_scalar (s_uuid E n))
     \<and> (\<forall>log k i. s_daemon E log (Create_container k) = Inr (Container i) \<longrightarrow> list_all is_scalar i)
     \<and> (\<forall>name. \<not> v_locked E name)
     \<and> list_all (\<lambda>p. good_part p \<and> list_all is_scalar p) (v_root E)
     \<and> (\<forall>i t. find_task (v_tasks E) (v_tasks_dir E) i = Inr t \<longrightarrow> dumpable (dump_task t))
     \<and> (\<forall>d. dumpable (JObj d) \<longrightarrow> e_loads E (json_dumps 0 (JObj d)) = Some (JObj d))"

lemma described_written:
  assumes "steady E" "list_all is_scalar sid" "dumpable (dump_task (se_task se))"
    "list_all (\<lambda>p. good_part p \<and> list_all is_scalar p) (se_path se)"
    "sb_container (se_sandbox se) = Some cid" "list_all is_scalar cid"
  shows "described E sid se
    (json_dumps 0 (JObj (descriptor sid (se_task se) (Some cid) (se_path se) (utcnow_iso t))))"
proof -
  have "dumpable (JObj (descriptor sid (se_task se) (Some cid) (se_path se) (utcnow_iso t)))"
    using assms path_str_scalar utcnow_iso_scalar
    by (simp add: descriptor_def opt_str_def)
  then show ?thesis using assms(1,5) by (auto simp: described_def steady_def)
qed

lemma create_container_plain:
  "steady E \<Longrightarrow> wp (create_container E i) (\<lambda>c _. list_all is_scalar c) (\<lambda>_ _. True) s"
  by (auto simp: create_container_def wp_simps steady_def split: sum.split dresult.split)

lemma wp_then_raise: "wp m (\<lambda>_. wp (raise e) Q (\<lambda>_ _. True)) (\<lambda>_ _. True) s"
  by (rule wp_mono [OF wp_any]) (simp_all add: wp_raise)

lemma start_box:
  assumes "steady E" "sb_container (sb s) = None"
  shows "wp (start E) (\<lambda>_ t. \<exists>c. sb_container (sb t) = Some c \<and> list_all is_scalar c) (\<lambda>_ _. True) s"
proof -
  have c: "wp (start_create E) (\<lambda>c _. list_all is_scalar c) (\<lambda>_ _. True) t" for t
    unfolding start_create_def wp_bind wp_get wp_try_except
    by (rule wp_mono [OF create_container_plain [OF assms(1)]]) (auto simp: wp_seq wp_raise intro!: wp_then_raise)
  have r: "wp (start_run E c) (\<lambda>_ t. sb_container (sb t) = Some c) (\<lambda>_ _. True) t" for c t
    by (auto simp: start_run_def wp_simps intro!: wp_then_raise split: sum.split)
  have go: "wp (bind (start_create E) (start_run E)) (\<lambda>_ t. \<exists>c. sb_container (sb t) = Some c \<and> list_all is_scalar c)
      (\<lambda>_ _. True) t" for t
    unfolding wp_bind by (rule wp_mono [OF c], rule wp_mono [OF r]) auto
  have on: "wp (seq m k) Q (\<lambda>_ _. True) t" if "\<And>t. wp k Q (\<lambda>_ _. True) t" for m k Q t
    unfolding wp_seq by (rule wp_mono [OF wp_any]) (simp_all add: that)
  show ?thesis unfolding start_def wp_bind wp_get assms(2) by (simp add: on [OF on [OF go]])
qed

lemma revert_box:
  assumes "steady E"
  shows "wp (revert E i) (\<lambda>c t. sb_container (sb t) = Some c \<and> list_all is_scalar c) (\<lambda>_ _. True) s"
proof -
  have c: "wp (try_except (create_container E j) h) (\<lambda>c _. list_all is_scalar c) (\<lambda>_ _. True) t"
    if "\<And>e k. h e = Some k \<Longrightarrow> \<exists>e'. k = raise e'" for h j t
    unfolding wp_try_except
    by (rule wp_mono [OF create_container_plain [OF assms]]) (use that in \<open>fastforce simp: wp_raise split: option.split\<close>)+
  have r: "wp (revert_run E c) (\<lambda>d t. sb_container (sb t) = Some d \<and> d = c) (\<lambda>_ _. True) t" for c t
    by (auto simp: revert_run_def wp_simps wp_any split: sum.split)
  have go: "wp (discard E b) (\<lambda>_. wp (try_except (create_container E j) h) (\<lambda>c. wp (revert_run E c)
        (\<lambda>c t. sb_container (sb t) = Some c \<and> list_all is_scalar c) (\<lambda>_ _. True)) (\<lambda>_ _. True)) (\<lambda>_ _. True) t"
    if "\<And>e k. h e = Some k \<Longrightarrow> \<exists>e'. k = raise e'" for b j h t
    by (rule wp_mono [OF wp_any], rule wp_mono [OF c [OF that]], assumption, rule wp_mono [OF r]) auto
  show ?thesis
    unfolding revert_def wp_bind wp_get if_distrib [of "\<lambda>m. wp m Q X s" for Q X s] wp_raise wp_seq wp_modify
    by (auto intro!: go split: if_splits)
qed

section \<open>Calls on a session\<close>

definition durable :: "venv \<Rightarrow> srv \<Rightarrow> bool" where
  "durable E s \<longleftrightarrow> files_ok E s \<and> disk_ok E s"

lemma on_session_cases:
  assumes "on_session sid m s = (r, t)"
  obtains "sessions s sid = None" "t = s" "isl r"
  | se u where "sessions s sid = Some se" "m se (load se s) = (r, u)" "t = store sid se u"
  using assms by (auto simp: on_session_def split: option.splits prod.splits)

lemma tracked_clean: "tracked UNIV UNIV UNIV s = clean (sb s)"
  by (simp add: tracked_def clean_def)

lemma clean_keeps: "(\<And>P I J. preserves (tracked P I J) m) \<Longrightarrow> preserves (\<lambda>s. clean (sb s)) m"
  unfolding tracked_clean [symmetric] .

lemma wp_clean: "(\<And>P I J. preserves (tracked P I J) m) \<Longrightarrow> clean (sb s)
    \<Longrightarrow> wp m (\<lambda>_ t. clean (sb t)) (\<lambda>_ t. clean (sb t)) s"
  unfolding tracked_clean [symmetric] by (rule wp_preserves)

lemma on_session_durable:
  assumes tm: "\<And>se. keeps (tame E) (m se)" and c: "\<And>se. keeps same_container (m se)"
    and n: "\<And>P I J se. preserves (tracked P I J) (m se)"
  shows "preserves (durable E) (on_session sid m)"
proof (rule keepsI, rule impI)
  fix s assume s: "durable E s"
  obtain r t where t: "on_session sid m s = (r, t)" by (cases "on_session sid m s")
  from t have "durable E t"
  proof (cases rule: on_session_cases)
    case (2 se u)
    have "orderly E (load se s) u" using keepsD [OF tame_orderly [OF tm] 2(2)] .
    moreover have "same_rest (load se s) u" using keepsD [OF tm 2(2)] by (simp add: tame_def)
    moreover have "sb_container (sb u) = sb_container (se_sandbox se)"
      using keepsD [OF c 2(2)] by (simp add: same_container_def load_def)
    moreover have "clean (se_sandbox se)" using s 2(1) by (auto simp: durable_def files_ok_def sound_def)
    then have "clean (sb u)" using keepsD [OF clean_keeps [OF n] 2(2)] by (simp add: load_def)
    ultimately show ?thesis using files_store [OF _ 2(1)] disk_store [OF _ 2(1)] s
      unfolding 2(3) durable_def by blast
  qed (use s in simp)
  with t show "durable E (snd (on_session sid m s))" by simp
qed

lemma box_container: "keeps same_box m \<Longrightarrow> keeps same_container m"
  by (erule keeps_mono) (simp add: same_box_def same_container_def)

lemmas box_containers [keeps_intros] = box_container [OF exec_box] box_container [OF write_box]
  box_container [OF log_box] box_container [OF docker_box]

lemma snapshot_container [keeps_intros]:
  "keeps same_container (snapshot E ls :: ('z sstate_scheme, pystr) py)"
proof -
  have "keeps same_container (new_uuid E)" by (rule keepsI) (simp add: new_uuid_def same_container_def)
  moreover have "keeps same_container (docker_do E c)" for c
    by (auto simp: docker_do_def intro!: keeps_intros)
  moreover have "same_container s (set_sb (\<lambda>b. b\<lparr>sb_snapshots := sb_snapshots b @ [a]\<rparr>) s)" for a and s :: "'z sstate_scheme"
    by (simp add: same_container_def set_sb_def)
  ultimately show ?thesis
    by (auto simp: snapshot_def intro!: keeps_intros split: if_splits option.split)
qed

lemma run_setup_container [keeps_intros]: "keeps same_container (run_setup E cmds)"
  by (induction cmds) (auto simp: exec_and_record_def intro!: keeps_intros)

lemma count_command_durable: "preserves (durable E) (count_command sid)"
proof (rule keepsI, rule impI)
  fix s assume s: "durable E s"
  let ?t = "snd (count_command sid s)"
  have t: "sessions ?t = (sessions s)(sid := map_option (\<lambda>se. se\<lparr>se_count := Suc (se_count se)\<rparr>) (sessions s sid))"
    "texts ?t = texts s" "descs ?t = descs s" "uuids ?t = uuids s"
    by (simp_all add: count_command_def)
  have l: "logged E p (load (se\<lparr>se_count := n\<rparr>) s) = logged E p (load se s)" "logged E p (load se ?t) = logged E p (load se s)"
    for p se n by (rule logged_cong; simp add: load_def t)+
  have d: "described E i (se\<lparr>se_count := n\<rparr>) = described E i se" for i se n
    by (simp add: described_def fun_eq_iff)
  have so: "sound E ?t i se \<longleftrightarrow> sound E s i se" "sound E s i (se\<lparr>se_count := n\<rparr>) \<longleftrightarrow> sound E s i se" for i se n
    by (simp_all add: sound_def l t)
  have "files_ok E ?t" using s unfolding durable_def files_ok_def t(1) by (auto simp: so split: if_splits)
  have dm: "dom (sessions ?t) = dom (sessions s)" by (auto simp: t dom_def)
  have "\<exists>se0. sessions s i = Some se0 \<and> described E i se = described E i se0"
    if "sessions ?t i = Some se" for i se using that d by (auto simp: t split: if_splits)
  then have "\<exists>text. map_of (descs s) (desc_name i) = Some (Inr text) \<and> described E i se text"
    if "sessions ?t i = Some se" for i se using that s unfolding durable_def disk_ok_def by fastforce
  then have "disk_ok E ?t" using s unfolding durable_def disk_ok_def dm t(3) by blast
  with \<open>files_ok E ?t\<close> show "durable E ?t" by (simp add: durable_def)
qed

lemma session_tools_durable:
  shows "preserves (durable E) (exec_tool E sid cmd)" "preserves (durable E) (note_tool E sid th)"
    "preserves (durable E) (fork E sid)" "preserves (durable E) (read_tool E sid since branch)"
proof -
  show "preserves (durable E) (exec_tool E sid cmd)"
    by (auto simp: exec_tool_def intro!: keeps_intros on_session_durable count_command_durable)
  show "preserves (durable E) (note_tool E sid th)"
    by (auto simp: note_tool_def intro!: keeps_intros on_session_durable)
  show "preserves (durable E) (fork E sid)"
    by (auto simp: fork_def intro!: keeps_intros on_session_durable)
  have r: "keeps R (read_file E p)" if "reflp R" for p and R :: "srv \<Rightarrow> srv \<Rightarrow> bool"
    by (rule keepsI) (simp add: read_file_def reflpD [OF that])
  show "preserves (durable E) (read_tool E sid since branch)"
    by (auto simp: read_tool_def intro!: keeps_intros on_session_durable r)
qed


section \<open>A descriptor is written\<close>

lemma disk_describe:
  assumes d: "disk_ok E s" and m: "sessions t = (sessions s)(sid \<mapsto> se)"
    and t: "descs t = AList.update (desc_name sid) (Inr text) (descs s)" "described E sid se text"
  shows "disk_ok E t"
proof -
  have "\<exists>text. map_of (descs t) (desc_name i) = Some (Inr text) \<and> described E i a text"
    if "sessions t i = Some a" for i a
    using that d t by (cases "i = sid") (auto simp: disk_ok_def m update_conv' simp del: map_of_eq_Some_iff)
  moreover have "\<exists>i\<in>dom (sessions t). n = desc_name i" if "n \<in> fst ` set (descs t)" for n
    using that d unfolding disk_ok_def m t(1) dom_update by auto
  moreover have "distinct (map fst (descs t))"
    using d unfolding disk_ok_def t(1) by (blast intro: distinct_update)
  ultimately show ?thesis by (simp add: disk_ok_def)
qed

lemma log_event_keeps: "wp (log_event E ty d) (\<lambda>_ u. tame E s u \<and> same_container s u) (\<lambda>_ _. True) s"
  by (rule wp_mono [OF wp_conj [OF wp_keeps [OF log_event_tame] wp_keeps [OF box_containers(3)]]]) auto

lemma described_writer [simp]: "described E sid (se\<lparr>se_writer := w\<rparr>) = described E sid se"
  by (simp add: described_def fun_eq_iff)

lemma persist_writes:
  assumes "steady E" "list_all is_scalar sid" "dumpable (dump_task (se_task se))"
    "list_all (\<lambda>p. good_part p \<and> list_all is_scalar p) (se_path se)"
    "sb_container (sb s) = Some cid" "list_all is_scalar cid"
  shows "wp (persist_session E sid (se_task se) (se_path se)) (\<lambda>_ u. sb u = sb s \<and>
      (\<exists>text. descs u = AList.update (desc_name sid) (Inr text) (descs s)
        \<and> described E sid (se\<lparr>se_sandbox := sb s\<rparr>) text)) (\<lambda>_ _. False) s"
  using described_written [of E sid "se\<lparr>se_sandbox := sb s\<rparr>" cid] assms
  by (auto simp: persist_session_def wp_simps wp_now_iso)


lemma sound_id: "steady E \<Longrightarrow> sound E s sid se \<Longrightarrow> sid \<noteq> [] \<and> 47 \<notin> set sid \<and> list_all is_scalar sid"
  by (auto simp: steady_def sound_def)

text \<open>What a revert does to the session in the registers.\<close>

definition reverting :: "venv \<Rightarrow> pystr \<Rightarrow> pystr \<Rightarrow> session \<Rightarrow> (srv, jval) py" where
  "reverting E sid i se = bind (get (\<lambda>s. sb_container (sb s))) (\<lambda>previous.
     bind (revert E i) (\<lambda>new_cid.
       seq (log_event E Session_reverted [(lit ''snapshot_id'', JStr i),
              (lit ''previous_container_id'', opt_str previous), (lit ''new_container_id'', JStr new_cid)])
         (seq (persist_session E sid (se_task se) (se_path se))
           (ret (JObj [(lit ''container_id'', JStr new_cid)])))))"

lemma revert_tool_eq: "revert_tool E sid i = on_session sid (reverting E sid i)"
  by (simp add: revert_tool_def reverting_def [abs_def])

lemma reverting_tracked: "daemon_ok E \<Longrightarrow> preserves (tracked P I J) (reverting E sid i se)"
  unfolding reverting_def by (intro keeps_intros revert_tracked_keeps) simp_all

lemma revert_tool_durable:
  assumes E: "steady E" and s: "durable E s"
  shows "wp (revert_tool E sid i) (\<lambda>_. durable E) (\<lambda>_ _. True) s"
proof (cases "sessions s sid")
  case None
  then show ?thesis by (simp add: revert_tool_def on_session_def wp_def)
next
  case (Some se)
  let ?s = "load se s" and ?se = "\<lambda>u. se\<lparr>se_sandbox := sb u, se_writer := wr u\<rparr>"
  have so: "sound E s sid se" using s Some by (simp add: durable_def files_ok_def)
  have pw: "wp (persist_session E sid (se_task se) (se_path se)) (\<lambda>_ u. sb u = sb t \<and>
      (\<exists>text. descs u = AList.update (desc_name sid) (Inr text) (descs t)
        \<and> described E sid (se\<lparr>se_sandbox := sb t\<rparr>) text)) (\<lambda>_ _. False) t"
    if "sb_container (sb t) = Some c" "list_all is_scalar c" for t c
    using persist_writes [OF E _ _ _ that] so sound_id [OF E so] by (auto simp: sound_def)
  have rv: "wp (revert E i) (\<lambda>c t. sb_container (sb t) = Some c \<and> list_all is_scalar c \<and> descs t = descs s)
      (\<lambda>_ _. True) ?s"
    by (rule wp_mono [OF wp_conj [OF revert_box [OF E] wp_keeps [OF revert_rest]]])
      (use same_rest_sel in \<open>auto simp: load_def\<close>)
  have lg: "wp (log_event E ty x) (\<lambda>_ u. sb_container (sb u) = sb_container (sb t) \<and> descs u = descs t)
      (\<lambda>_ _. True) t" for ty x and t :: srv
    by (rule wp_mono [OF log_event_keeps]) (use same_rest_sel in \<open>auto simp: tame_def same_container_def\<close>)
  have d: "wp (reverting E sid i se) (\<lambda>_ u. \<exists>text. descs u = AList.update (desc_name sid) (Inr text) (descs s)
      \<and> described E sid (se\<lparr>se_sandbox := sb u\<rparr>) text) (\<lambda>_ _. True) ?s"
    unfolding reverting_def wp_bind wp_get wp_seq wp_ret
  proof (rule wp_mono [OF rv], rule wp_mono [OF lg])
    fix c t b and u :: srv
    assume "sb_container (sb t) = Some c \<and> list_all is_scalar c \<and> descs t = descs s"
      and "sb_container (sb u) = sb_container (sb t) \<and> descs u = descs t"
    then show "wp (persist_session E sid (se_task se) (se_path se)) (\<lambda>_ v.
        \<exists>text. descs v = AList.update (desc_name sid) (Inr text) (descs s)
          \<and> described E sid (se\<lparr>se_sandbox := sb v\<rparr>) text) (\<lambda>_ _. True) u"
      by (intro wp_mono [OF pw [of u c]]) auto
  qed simp_all
  have o: "keeps (orderly E) (reverting E sid i se)"
    unfolding reverting_def by (intro keeps_intros tame_orderly) simp_all
  have "daemon_ok E" using E by (simp add: steady_def)
  then have n: "wp (reverting E sid i se) (\<lambda>_ u. clean (sb u)) (\<lambda>_ u. clean (sb u)) ?s"
    by (intro wp_clean reverting_tracked) (use so in \<open>simp_all add: sound_def load_def\<close>)
  have "wp (reverting E sid i se) (\<lambda>_ u. durable E (store sid se u)) (\<lambda>_ _. True) ?s"
  proof (rule wp_mono [OF wp_conj [OF wp_conj [OF d n] wp_keeps [OF o]]])
    fix b u
    assume u: "((\<exists>text. descs u = AList.update (desc_name sid) (Inr text) (descs s)
      \<and> described E sid (se\<lparr>se_sandbox := sb u\<rparr>) text) \<and> clean (sb u)) \<and> orderly E ?s u"
    then have "files_ok E (store sid se u)" using s Some by (auto simp: durable_def intro: files_store)
    moreover have "sessions u = sessions s" using u by (simp add: orderly_def same_table_def load_def)
    then have "disk_ok E (store sid se u)" using u s
      by (auto simp: durable_def store_def intro!: disk_describe [of E s _ sid "se\<lparr>se_sandbox := sb u, se_writer := wr u\<rparr>"])
    ultimately show "durable E (store sid se u)" by (simp add: durable_def)
  qed simp
  then show ?thesis using Some by (simp add: revert_tool_eq on_session_def wp_def split: prod.splits sum.splits)
qed


section \<open>Sessions end\<close>

definition apart :: "srv \<Rightarrow> srv \<Rightarrow> bool" where
  "apart s t \<longleftrightarrow> w_path (wr t) = w_path (wr s) \<and> (\<forall>q. q \<noteq> w_path (wr s) \<longrightarrow> texts t q = texts s q)
     \<and> sessions t = sessions s \<and> uuids s \<le> uuids t"

lemma apart_trans: "apart s t \<Longrightarrow> apart t u \<Longrightarrow> apart s u"
  by (auto simp: apart_def)

lemma tame_apart: "tame E s (t :: srv) \<Longrightarrow> apart s t \<and> descs t = descs s"
  using same_rest_sel by (auto simp: tame_def apart_def same_rest_def)

lemma wp_tame: "keeps (tame E) m \<Longrightarrow> wp m (\<lambda>_ t. apart s t \<and> descs t = descs s) (\<lambda>_ t. apart s t \<and> descs t = descs s) (s :: srv)"
  by (erule wp_mono [OF wp_keeps]) (blast dest: tame_apart)+

text \<open>The last steps of a session: they come to their end, and only its own descriptor goes.\<close>

lemma wp_leave:
  assumes E: "steady E" and s: "clean (sb s)"
  shows "wp (seq (stop E) (seq close_writer (delete_session_file E sid)))
    (\<lambda>_ t. apart s t \<and> descs t = AList.delete (desc_name sid) (descs s)) (\<lambda>_ _. False) s"
proof -
  have ok: "daemon_ok E" using E by (simp add: steady_def)
  have "wp (seq close_writer (delete_session_file E sid))
      (\<lambda>_ u. apart s u \<and> descs u = AList.delete (desc_name sid) (descs s)) (\<lambda>_ _. False) t"
    if "apart s t" "descs t = descs s" for t
    using E that by (simp add: close_writer_def delete_session_file_def try_unlink_def unlink_def wp_simps
        steady_def apart_def set_wr_def)
  then show ?thesis unfolding wp_seq [of "stop E"]
    by (intro wp_mono [OF wp_conj [OF stop_clean [OF ok s] wp_tame [OF sandbox_tame(2) [of E]]]]) auto
qed

lemma durable_leave:
  assumes s: "durable E s" "sessions s sid = Some se"
    and t: "apart (load se (s\<lparr>sessions := (sessions s)(sid := None)\<rparr>)) t" "descs t = AList.delete (desc_name sid) (descs s)"
  shows "durable E t"
proof -
  have tab: "sessions t = (sessions s)(sid := None)" "uuids s \<le> uuids t" using t(1) by (simp_all add: apart_def load_def)
  have "sound E s sid se" using s by (simp add: durable_def files_ok_def)
  then have "w_path (se_writer se) = se_path se"
    using logged_path by (fastforce simp: sound_def load_def)
  then have other: "texts t q = texts s q" if "q \<noteq> se_path se" for q
    using t(1) that by (simp add: apart_def load_def)
  have "sound E t i a" if i: "sessions t i = Some a" for i a
  proof -
    have a: "sessions s i = Some a" "i \<noteq> sid" using i by (auto simp: tab split: if_splits)
    then have "se_path a \<noteq> se_path se" using s by (auto simp: durable_def files_ok_def)
    then have "logged E (se_path a) (load a t) = logged E (se_path a) (load a s)"
      by (intro logged_cong) (simp_all add: load_def other)
    moreover have "sound E s i a" using s(1) a(1) by (simp add: durable_def files_ok_def)
    ultimately show ?thesis using tab(2) by (auto simp: sound_def)
  qed
  moreover have "se_path a \<noteq> se_path b" if "sessions t i = Some a" "sessions t j = Some b" "i \<noteq> j" for i j a b
    using s(1) that unfolding durable_def files_ok_def tab by (auto split: if_splits)
  ultimately have "files_ok E t" by (simp add: files_ok_def)
  moreover have "disk_ok E t" unfolding disk_ok_def
  proof (intro conjI allI impI ballI)
    have d: "disk_ok E s" using s(1) by (simp add: durable_def)
    show "distinct (map fst (descs t))"
      using d unfolding disk_ok_def t(2) by (blast intro: distinct_delete)
    show "\<exists>text. map_of (descs t) (desc_name i) = Some (Inr text) \<and> described E i a text"
      if "sessions t i = Some a" for i a
      using d that unfolding disk_ok_def t(2) delete_conv' by (auto simp: tab split: if_splits)
    show "\<exists>i\<in>dom (sessions t). n = desc_name i" if n: "n \<in> fst ` set (descs t)" for n
    proof -
      have "n \<in> fst ` set (descs s)" "n \<noteq> desc_name sid" 
        using n unfolding set_map [symmetric] t(2) delete_keys by auto
      then obtain i where "i \<in> dom (sessions s)" "n = desc_name i" "i \<noteq> sid"
        using d unfolding disk_ok_def by blast
      then show ?thesis by (auto simp: tab)
    qed
  qed
  ultimately show ?thesis by (simp add: durable_def)
qed

lemma durable_clean: "durable E s \<Longrightarrow> sessions s sid = Some se
    \<Longrightarrow> clean (sb (load se (s\<lparr>sessions := (sessions s)(sid := None)\<rparr>)))"
  by (auto simp: durable_def files_ok_def sound_def load_def)

lemma finish_task_durable:
  assumes E: "steady E" and s: "durable E s"
  shows "wp (finish_task E sid) (\<lambda>_. durable E) (\<lambda>_. durable E) s"
proof (cases "sessions s sid")
  case None
  then show ?thesis using s by (simp add: finish_task_def pop_session_def wp_def)
next
  case (Some se)
  let ?s = "load se (s\<lparr>sessions := (sessions s)(sid := None)\<rparr>)"
  let ?F = "\<lambda>_ t. clean (sb t) \<and> apart ?s t \<and> descs t = descs ?s"
  have "preserves (tracked P I J) (verify_session E se)" for P I J
    by (auto simp: verify_session_def intro!: keeps_intros split: prod.split)
  then have "wp (verify_session E se) ?F ?F ?s"
    by (intro wp_mono [OF wp_conj [OF wp_clean [OF _ durable_clean [OF s Some]]
        wp_tame [OF verify_session_tame [of E]]]])
  then have "wp (try_finally (verify_session E se) (seq (stop E) (seq close_writer (delete_session_file E sid))))
      (\<lambda>_. durable E) (\<lambda>_. durable E) ?s"
    unfolding wp_try_finally
    by (rule wp_mono)
      (rule wp_mono [OF wp_leave [OF E]], blast, (rule durable_leave [OF s Some]; auto simp: load_def intro: apart_trans), blast)+
  then show ?thesis using Some by (simp add: finish_task_def pop_session_def wp_def)
qed


lemma abort_task_durable:
  assumes E: "steady E" and s: "durable E s"
  shows "wp (abort_task E sid) (\<lambda>_. durable E) (\<lambda>_ _. True) s"
proof (cases "sessions s sid")
  case None
  then show ?thesis by (simp add: abort_task_def pop_session_def wp_def)
next
  case (Some se)
  let ?s = "load se (s\<lparr>sessions := (sessions s)(sid := None)\<rparr>)"
  have l: "wp (log_event E ty d) (\<lambda>_ t. clean (sb t) \<and> apart ?s t \<and> descs t = descs ?s)
      (\<lambda>_ t. clean (sb t) \<and> apart ?s t \<and> descs t = descs ?s) ?s" for ty d
    by (intro wp_mono [OF wp_conj [OF wp_clean [OF _ durable_clean [OF s Some]]
        wp_tame [OF log_event_tame [of E]]]] keeps_intros)
  have k: "wp (seq (stop E) (seq close_writer (seq (delete_session_file E sid) (ret v)))) (\<lambda>_. durable E) (\<lambda>_ _. True) t"
    if t: "clean (sb t)" "apart ?s t" "descs t = descs ?s" for t and v :: jval
  proof -
    have "wp (seq (stop E) (seq close_writer (delete_session_file E sid))) (\<lambda>_. durable E) (\<lambda>_ _. True) t"
      using durable_leave [OF s Some] apart_trans [OF t(2)] t(3)
      by (intro wp_mono [OF wp_leave [OF E t(1)]]) (auto simp: load_def)
    then show ?thesis unfolding wp_seq wp_ret .
  qed
  have "wp (seq (log_event E Run_finished d) (seq (stop E) (seq close_writer
      (seq (delete_session_file E sid) (ret v))))) (\<lambda>_. durable E) (\<lambda>_ _. True) ?s" for d and v :: jval
    unfolding wp_seq [of "log_event E Run_finished d"] by (rule wp_mono [OF l]) (auto intro: k)
  with Some show ?thesis by (simp add: abort_task_def pop_session_def wp_def)
qed


section \<open>Sessions begin\<close>

text \<open>A session is being made: its file is new, the tables are those of \<open>s\<close>.\<close>

definition starting :: "venv \<Rightarrow> path \<Rightarrow> srv \<Rightarrow> srv \<Rightarrow> bool" where
  "starting E p s t \<longleftrightarrow> logged E p t \<and> (\<forall>q. q \<noteq> p \<longrightarrow> texts t q = texts s q) \<and> sessions t = sessions s
     \<and> descs t = descs s \<and> uuids s \<le> uuids t"

lemma starting_tame: "starting E p s t \<Longrightarrow> tame E t u \<Longrightarrow> starting E p s u"
  using same_rest_sel [of t u] logged_path [of E p t]
  by (auto simp: starting_def tame_def same_rest_def)

lemma wp_starting: "keeps (tame E) m \<Longrightarrow> starting E p s t \<Longrightarrow> wp m (\<lambda>_. starting E p s) (\<lambda>_. starting E p s) t"
  by (erule wp_mono [OF wp_keeps]) (auto intro: starting_tame)

lemma wp_starting_box:
  assumes "keeps (tame E) m" "keeps same_container m" "\<And>P I J. preserves (tracked P I J) m"
    "starting E p s t" "clean (sb t)" "sb_container (sb t) = Some c"
  shows "wp m (\<lambda>_ u. starting E p s u \<and> clean (sb u) \<and> sb_container (sb u) = Some c) (\<lambda>_ _. True) t"
  by (rule wp_mono [OF wp_conj [OF wp_starting [OF assms(1,4)]
        wp_conj [OF wp_keeps [OF assms(2)] wp_clean [OF assms(3,5)]]]])
    (use assms(6) in \<open>auto simp: same_container_def\<close>)

lemma open_session_durable:
  assumes E: "steady E" and s: "durable E s" "dom (sessions s) \<subseteq> s_uuid E ` {..<uuids s}" "texts s p = None"
    and t: "starting E p s t" "sb_container (sb t) = Some c" "list_all is_scalar c" "clean (sb t)"
    and w: "wf_task task" "dumpable (dump_task task)" "list_all (\<lambda>p. good_part p \<and> list_all is_scalar p) p"
  shows "wp (open_session E task p) (\<lambda>_. durable E) (\<lambda>_ _. True) t"
proof -
  let ?sid = "s_uuid E (uuids t)"
  let ?se = "\<lparr>se_task = task, se_sandbox = sb t, se_writer = wr t, se_path = p, se_count = 0\<rparr>"
  let ?t = "t\<lparr>uuids := Suc (uuids t), sessions := (sessions t)(?sid \<mapsto> ?se)\<rparr>"
  have tab: "sessions t = sessions s" "descs t = descs s" "uuids s \<le> uuids t"
    "\<And>q. q \<noteq> p \<Longrightarrow> texts t q = texts s q" "logged E p t"
    using t(1) by (simp_all add: starting_def)
  have so: "sound E s i a" if "sessions s i = Some a" for i a
    using s(1) that by (simp add: durable_def files_ok_def)
  have ne: "se_path a \<noteq> p" if "sessions s i = Some a" for i a
  proof
    assume "se_path a = p"
    then show False using so [OF that] logged_text [of E p "load a s"] s(3) by (simp add: sound_def load_def)
  qed
  have files: "files_ok E u" if u: "sessions u = sessions ?t" "texts u = texts t" "uuids u = uuids ?t" "wr u = wr t" for u
  proof -
    have "sound E u i a" if i: "sessions u i = Some a" for i a
    proof (cases "i = ?sid")
      case True
      then have a: "a = ?se" using i u(1) by simp
      have "logged E p (load a u) = logged E p t" by (rule logged_cong) (simp_all add: a load_def u)
      then show ?thesis using True w tab(5) t(4) by (auto simp: sound_def a u)
    next
      case False
      then have i: "sessions s i = Some a" using i u(1) tab(1) by simp
      have "logged E (se_path a) (load a u) = logged E (se_path a) (load a s)"
        using ne [OF i] by (intro logged_cong) (simp_all add: load_def u tab)
      with so [OF i] tab(3) show ?thesis by (force simp: sound_def u)
    qed
    moreover have "se_path a \<noteq> se_path b" if "sessions u i = Some a" "sessions u j = Some b" "i \<noteq> j" for i j a b
      using that s(1) ne [of i a] ne [of j b] unfolding durable_def files_ok_def u tab
      by (auto split: if_splits)
    ultimately show ?thesis by (simp add: files_ok_def)
  qed
  have disk: "disk_ok E u" if "sessions u = sessions ?t" "descs u = AList.update (desc_name ?sid) (Inr x) (descs t)"
    "described E ?sid ?se x" for u x
    using disk_describe [of E s u ?sid ?se x] that s(1) tab by (simp add: durable_def)
  have id: "list_all is_scalar ?sid" using E by (simp add: steady_def)
  have "described E ?sid ?se (json_dumps 0 (JObj (descriptor ?sid task (Some c) p (utcnow_iso k))))" for k
    using described_written [OF E id, of ?se c k] w t(2,3) by simp
  then show ?thesis using files disk t(2)
    by (auto simp: open_session_def persist_session_def wp_simps wp_now_iso wp_new_uuid durable_def)
qed


lemma start_session_durable:
  assumes E: "steady E" and s: "durable E s" "dom (sessions s) \<subseteq> s_uuid E ` {..<uuids s}" "texts s p = None"
    and t: "starting E p s t" "sb t = new_sandbox task True"
    and w: "wf_task task" "dumpable (dump_task task)" "list_all (\<lambda>p. good_part p \<and> list_all is_scalar p) p"
  shows "wp (start_session E task p) (\<lambda>_. durable E) (\<lambda>_ _. True) t"
proof -
  have st: "wp (start E) (\<lambda>_ u. \<exists>c. starting E p s u \<and> clean (sb u) \<and> sb_container (sb u) = Some c
      \<and> list_all is_scalar c) (\<lambda>_ _. True) t"
  proof -
    have "sb_container (sb t) = None" "clean (sb t)" "\<not> sb_client (sb t)" "daemon_ok E"
      using t(2) E by (simp_all add: new_sandbox_def clean_def steady_def)
    note b = this
    have "wp (start E) (\<lambda>_ u. clean (sb u)) (\<lambda>_ u. clean (sb u)) t"
      unfolding tracked_clean [symmetric] by (rule start_tracked) (use b in \<open>simp_all add: tracked_clean\<close>)
    from wp_conj [OF wp_conj [OF start_box [OF E b(1)] this] wp_starting [OF sandbox_tame(1) t(1)]]
    show ?thesis by (rule wp_mono) blast+
  qed
  have l: "wp (log_event E ty d) (\<lambda>_ u. starting E p s u \<and> clean (sb u) \<and> sb_container (sb u) = Some c) (\<lambda>_ _. True) u"
    if "starting E p s u" "clean (sb u)" "sb_container (sb u) = Some c" for u c ty d
    by (rule wp_starting_box [OF log_event_tame box_containers(3) _ that]) (rule keeps_intros)
  have su: "wp (run_setup E cs) (\<lambda>_ u. starting E p s u \<and> clean (sb u) \<and> sb_container (sb u) = Some c) (\<lambda>_ _. True) u"
    if "starting E p s u" "clean (sb u)" "sb_container (sb u) = Some c" for u c cs
    by (rule wp_starting_box [OF run_setup_tame run_setup_container _ that]) (rule keeps_intros)
  have fail: "wp (seq (log_event E Run_finished d) (seq close_writer (seq (stop E) (raise e)))) Q
      (\<lambda>_ _. True) u" for d e Q u
    unfolding wp_seq wp_raise by (intro wp_mono [OF wp_any]) (simp_all add: wp_any)
  have dead: "wp (seq (log_event E Run_finished d) (seq close_writer (raise e))) Q (\<lambda>_ _. True) u" for d e Q u
    unfolding wp_seq wp_raise by (intro wp_mono [OF wp_any]) (simp_all add: wp_any)
  have go: "wp (bind (get (\<lambda>s. sb_container (sb s))) (\<lambda>cid.
         seq (log_event E Run_started (started_data task cid))
           (bind (run_setup E (tk_setup task)) (\<lambda>failed. case failed of
              Some reason \<Rightarrow>
                seq (log_event E Run_finished (finished ERROR reason))
                  (seq close_writer (seq (stop E) (raise (Runtime_Error reason))))
            | None \<Rightarrow> open_session E task p)))) (\<lambda>_. durable E) (\<lambda>_ _. True) u"
    if u: "starting E p s u" "clean (sb u)" "sb_container (sb u) = Some c" and c: "list_all is_scalar c" for u c
    unfolding wp_bind wp_get wp_seq [of "log_event E Run_started d" for d]
  proof (rule wp_mono [OF l [OF u]])
    fix a v assume v: "starting E p s v \<and> clean (sb v) \<and> sb_container (sb v) = Some c"
    show "wp (run_setup E (tk_setup task)) (\<lambda>failed. wp (case failed of
              Some reason \<Rightarrow>
                seq (log_event E Run_finished (finished ERROR reason))
                  (seq close_writer (seq (stop E) (raise (Runtime_Error reason))))
            | None \<Rightarrow> open_session E task p) (\<lambda>_. durable E) (\<lambda>_ _. True)) (\<lambda>_ _. True) v"
      by (rule wp_mono [OF su [OF v [THEN conjunct1] v [THEN conjunct2, THEN conjunct1] v [THEN conjunct2, THEN conjunct2]]])
        (auto split: option.split intro: fail open_session_durable [OF E s _ _ c _ w])
  qed simp
  show ?thesis
    unfolding start_session_def wp_seq [of "try_except m h" for m h] wp_try_except
    by (rule wp_mono [OF st], elim exE conjE, erule (3) go) (auto simp: dead)
qed

text \<open>Two runs of a task that begin within one second would share a file, so a start needs a new one.\<close>

definition fresh_start :: "venv \<Rightarrow> srv \<Rightarrow> pystr \<Rightarrow> bool" where
  "fresh_start E s i \<longleftrightarrow> (case find_task (v_tasks E) (v_tasks_dir E) i of
     Inl e \<Rightarrow> True
   | Inr task \<Rightarrow> texts s (stamp_path task (v_root E) (utcnow_iso (e_clock E (ticks s)))) = None)"

lemma open_starting:
  assumes "texts s p = None"
  shows "wp (open_writer E) (\<lambda>_ t. starting E p s t) (\<lambda>_ _. False)
    (s\<lparr>ticks := k, wr := new_writer p (Some d) DEFAULT_MAX_BYTES\<rparr>)"
  using assms by (simp add: wp_def open_writer_new_file new_writer_def starting_def logged_def events_of_def
      create_text_def DEFAULT_MAX_BYTES_def set_wr_def exI [of _ "[]"])

lemma start_task_durable:
  assumes E: "steady E" and s: "durable E s" "dom (sessions s) \<subseteq> s_uuid E ` {..<uuids s}" and f: "fresh_start E s i"
  shows "wp (start_task E i) (\<lambda>_. durable E) (\<lambda>_ _. True) s"
proof (cases "find_task (v_tasks E) (v_tasks_dir E) i")
  case (Inl e)
  then show ?thesis by (simp add: start_task_def find_def wp_simps)
next
  case (Inr task)
  let ?p = "stamp_path task (v_root E) (utcnow_iso (e_clock E (ticks s)))"
  let ?s = "s\<lparr>ticks := Suc (ticks s), wr := new_writer ?p (Some (overflow_dir (v_root E))) DEFAULT_MAX_BYTES\<rparr>"
  have new: "texts s ?p = None" using f Inr by (simp add: fresh_start_def)
  have w: "wf_task task" "dumpable (dump_task task)" using tasks.found_wf [OF Inr] E Inr by (auto simp: steady_def)
  have p: "list_all (\<lambda>p. good_part p \<and> list_all is_scalar p) ?p"
    using E by (intro tasks.found_path_plain [OF Inr]) (simp add: steady_def)
  have o: "wp (open_writer E) (\<lambda>_ t. starting E ?p s t) (\<lambda>_ _. False) ?s"
    using new by (rule open_starting)
  have ss: "wp (start_session E task ?p) (\<lambda>_. durable E) (\<lambda>_ _. True) (t\<lparr>sb := new_sandbox task True\<rparr>)"
    if "starting E ?p s t" for t
    by (rule start_session_durable [OF E s new _ _ w p])
      (use that in \<open>simp_all add: starting_def logged_def events_of_def\<close>)
  show ?thesis
    by (auto simp: start_task_def find_def Inr trajectory_path_def wp_simps wp_now_iso
        intro!: wp_mono [OF o] ss)
qed


section \<open>Calls that raise\<close>

text \<open>When \<open>m\<close> raises, it has changed the state by \<open>R\<close>.\<close>

definition failing :: "('s \<Rightarrow> 's \<Rightarrow> bool) \<Rightarrow> ('s, 'a) py \<Rightarrow> bool" where
  "failing R m \<longleftrightarrow> (\<forall>s. wp m (\<lambda>_ _. True) (\<lambda>_. R s) s)"

lemma failingD: "failing R m \<Longrightarrow> m s = (Inl e, t) \<Longrightarrow> R s t"
  by (auto simp: failing_def wp_def split: prod.splits sum.splits)

lemma keeps_failing: "keeps R m \<Longrightarrow> failing R m"
  unfolding failing_def by (auto intro: wp_mono [OF wp_keeps])

lemma failing_bind:
  assumes "transp R" "keeps R m" "\<And>x. failing R (k x)"
  shows "failing R (bind m k)"
  unfolding failing_def wp_bind
proof (intro allI wp_mono [OF wp_keeps [OF assms(2)]])
  fix s x t assume t: "R s t"
  have "wp (k x) (\<lambda>_ _. True) (\<lambda>_. R t) t" using assms(3) by (simp add: failing_def)
  then show "wp (k x) (\<lambda>_ _. True) (\<lambda>_. R s) t" by (rule wp_mono) (blast intro: transpD [OF assms(1) t])+
qed

lemma failing_seq: "transp R \<Longrightarrow> keeps R m \<Longrightarrow> failing R k \<Longrightarrow> failing R (seq m k)"
  unfolding seq_def by (rule failing_bind)

lemma persist_failing: "failing R (seq (persist_session E sid task p) (ret v))"
  by (simp add: failing_def persist_session_def wp_simps wp_now_iso)

lemma revert_tool_raises:
  assumes s: "durable E s" and r: "revert_tool E sid i s = (Inl e, t)"
    and c: "map_option (\<lambda>se. sb_container (se_sandbox se)) (sessions t sid)
      = map_option (\<lambda>se. sb_container (se_sandbox se)) (sessions s sid)" and ok: "daemon_ok E"
  shows "durable E t"
  using r [unfolded revert_tool_eq]
proof (cases rule: on_session_cases)
  case (2 se u)
  have "failing (tame E) (reverting E sid i se)"
    unfolding reverting_def by (intro failing_bind failing_seq persist_failing keeps_intros) simp_all
  then have u: "tame E (load se s) u" using 2(2) by (rule failingD)
  have "clean (se_sandbox se)" using s 2(1) by (auto simp: durable_def files_ok_def sound_def)
  then have n: "clean (sb u)"
    using keepsD [OF clean_keeps [OF reverting_tracked [OF ok]] 2(2)] by (simp add: load_def)
  have "orderly E (load se s) u" "same_rest (load se s) u"
    using u same_rest_sel by (auto simp: tame_def orderly_def same_table_def same_rest_def)
  moreover have "sb_container (sb u) = sb_container (se_sandbox se)"
    using c 2(1) by (simp add: 2(3) store_def)
  ultimately show ?thesis using files_store [OF _ 2(1) _ n] disk_store [OF _ 2(1)] s
    unfolding 2(3) durable_def by blast
qed (use s in simp)


text \<open>A start that raises leaves its own file behind and nothing else.\<close>

definition beside :: "srv \<Rightarrow> srv \<Rightarrow> bool" where
  "beside s t \<longleftrightarrow> apart s t \<and> descs t = descs s"

lemma beside_refl [simp]: "reflp beside"
  and beside_trans [simp]: "transp beside"
  by (auto simp: reflp_def transp_def beside_def apart_def)

lemma tame_beside: "keeps (tame E) m \<Longrightarrow> keeps beside (m :: (srv, 'a) py)"
  by (erule keeps_mono) (use tame_apart in \<open>auto simp: beside_def\<close>)

lemmas tames_beside = sandbox_tame [THEN tame_beside] log_event_tame [THEN tame_beside] run_setup_tame [THEN tame_beside]

lemma close_writer_beside: "keeps beside close_writer"
  by (rule keepsI) (simp add: close_writer_def beside_def apart_def set_wr_def)

lemma open_session_failing: "failing beside (open_session E task p)"
  by (simp add: failing_def open_session_def persist_session_def wp_simps wp_now_iso wp_new_uuid)

lemma start_session_failing: "failing beside (start_session E task p)"
proof -
  have c: "failing beside (case r of Some reason \<Rightarrow> seq (log_event E Run_finished (finished ERROR reason))
        (seq close_writer (seq (stop E) (raise (Runtime_Error reason))))
      | None \<Rightarrow> open_session E task p)" for r
    by (cases r) (auto intro!: open_session_failing keeps_failing keeps_intros tames_beside close_writer_beside)
  have st: "keeps beside (try_except (start E) (\<lambda>e. if is_sandbox_error e
      then Some (seq (log_event E Run_finished (finished ERROR (lit ''sandbox start: '' @ exn_text e)))
        (seq close_writer (raise e))) else None))"
    by (auto intro!: keeps_intros tames_beside close_writer_beside split: if_splits)
  show ?thesis
    unfolding start_session_def
    by (intro failing_seq [OF _ st] failing_seq failing_bind c keeps_get tames_beside) simp_all
qed

lemma durable_beside:
  assumes s: "durable E s" "texts s p = None" and t: "sessions t = sessions s" "descs t = descs s" "uuids s \<le> uuids t"
    "\<And>q. q \<noteq> p \<Longrightarrow> texts t q = texts s q"
  shows "durable E t"
proof -
  have "sound E t i a" if "sessions s i = Some a" for i a
  proof -
    have so: "sound E s i a" using s(1) that by (simp add: durable_def files_ok_def)
    then have "se_path a \<noteq> p" using logged_text [of E "se_path a" "load a s"] s(2) by (auto simp: sound_def load_def)
    then have "logged E (se_path a) (load a t) = logged E (se_path a) (load a s)"
      by (intro logged_cong) (simp_all add: load_def t)
    with so t(3) show ?thesis by (force simp: sound_def)
  qed
  then have "files_ok E t" using s(1) by (simp add: durable_def files_ok_def t)
  moreover have "disk_ok E t = disk_ok E s" by (simp only: disk_ok_def t)
  ultimately show ?thesis using s(1) by (simp add: durable_def)
qed

lemma start_task_raises:
  assumes s: "durable E s" and f: "fresh_start E s i"
  shows "wp (start_task E i) (\<lambda>_ _. True) (\<lambda>_. durable E) s"
proof (cases "find_task (v_tasks E) (v_tasks_dir E) i")
  case (Inl e)
  then show ?thesis using s by (simp add: start_task_def find_def wp_simps)
next
  case (Inr task)
  let ?p = "stamp_path task (v_root E) (utcnow_iso (e_clock E (ticks s)))"
  let ?s = "s\<lparr>ticks := Suc (ticks s), wr := new_writer ?p (Some (overflow_dir (v_root E))) DEFAULT_MAX_BYTES\<rparr>"
  have new: "texts s ?p = None" using f Inr by (simp add: fresh_start_def)
  have o: "wp (open_writer E) (\<lambda>_ t. starting E ?p s t) (\<lambda>_ _. False) ?s"
    using new by (rule open_starting)
  have ss: "wp (start_session E task ?p) (\<lambda>_ _. True) (\<lambda>_. durable E) (t\<lparr>sb := new_sandbox task True\<rparr>)"
    if t: "starting E ?p s t" for t
  proof -
    have "wp (start_session E task ?p) (\<lambda>_ _. True) (\<lambda>_. beside (t\<lparr>sb := new_sandbox task True\<rparr>))
        (t\<lparr>sb := new_sandbox task True\<rparr>)"
      using start_session_failing by (simp add: failing_def)
    then show ?thesis using t logged_path [of E ?p t]
      by (elim wp_mono) (auto simp: beside_def apart_def starting_def intro!: durable_beside [OF s new])
  qed
  show ?thesis
    by (auto simp: start_task_def find_def Inr trajectory_path_def wp_simps wp_now_iso
        intro!: wp_mono [OF o] ss)
qed


section \<open>Restarts\<close>

lemma durable_describes:
  assumes E: "steady E" and s: "durable E s"
  shows "list_all (describes E s) (descs s)" "fst ` set (descs s) = desc_name ` dom (sessions s)"
proof -
  have d: "distinct (map fst (descs s))" using s by (simp add: durable_def disk_ok_def)
  have one: "\<exists>x. (desc_name sid, Inr x) \<in> set (descs s) \<and> described E sid se x" if "sessions s sid = Some se" for sid se
    using s that unfolding durable_def disk_ok_def by (meson map_of_SomeD)
  have names: "\<exists>sid se. sessions s sid = Some se \<and> n = desc_name sid" if "n \<in> fst ` set (descs s)" for n
    using s that unfolding durable_def disk_ok_def by blast
  have res: "resumable E s sid se" if "sessions s sid = Some se" for sid se
  proof -
    have so: "sound E s sid se" using s that by (simp add: durable_def files_ok_def)
    have "list_all good_part (se_path se)" using so by (auto simp: sound_def list_all_iff)
    moreover have "\<exists>evs. readable E s se evs" using so
      by (auto simp: sound_def logged_def events_of_def load_def readable_def)
    ultimately show ?thesis using so sound_id [OF E so] by (simp add: resumable_def sound_def)
  qed
  have "describes E s f" if f: "f \<in> set (descs s)" for f
  proof -
    obtain sid se where n: "sessions s sid = Some se" "fst f = desc_name sid" using names f by blast
    then obtain x where x: "(desc_name sid, Inr x) \<in> set (descs s)" "described E sid se x" using one by blast
    have "f = (desc_name sid, Inr x)"
      using d f x(1) n(2) by (metis eq_key_imp_eq_value prod.collapse)
    then show ?thesis using n x res by (auto simp: describes_def)
  qed
  then show "list_all (describes E s) (descs s)" by (simp add: list_all_iff)
  show "fst ` set (descs s) = desc_name ` dom (sessions s)" using names one by force
qed

lemma resumed_sound:
  assumes "sound E s sid se" "resumed E s se se'" "texts t = texts s" "uuids s \<le> uuids t"
  shows "sound E t sid se'"
proof -
  obtain evs c where "texts s (se_path se) = Some c" "renders E evs c" "numbered evs"
    "w_seq (se_writer se') = int (length evs)"
    using assms(2) by (auto simp: resumed_def readable_def)
  then have "events_of E (se_path se') evs (load se' t)"
    using assms(2,3) by (auto simp: resumed_def events_of_def load_def DEFAULT_MAX_BYTES_def)
  then have "logged E (se_path se') (load se' t)" by (auto simp: logged_def)
  moreover have "clean (se_sandbox se')" using assms(2) by (simp add: resumed_def clean_def)
  ultimately show ?thesis using assms by (auto simp: sound_def resumed_def)
qed

lemma restart_durable:
  assumes E: "codec_ok E" "daemon_has E" "steady E" and s: "durable E s"
  shows "wp (build_server E) (\<lambda>_ t. durable E t
    \<and> (\<forall>sid. case sessions s sid of None \<Rightarrow> sessions t sid = None | Some se \<Rightarrow> comes_back E s se (sessions t sid)))
    (\<lambda>_ _. False) s"
proof -
  have l: "\<And>n. \<not> v_locked E n" using E(3) by (simp add: steady_def)
  have d: "distinct (map fst (descs s))" using s by (simp add: durable_def disk_ok_def)
  note b = rehydrate_all [OF E(1,2) l durable_describes(1) [OF E(3) s] d, unfolded durable_describes(2) [OF E(3) s]]
  show ?thesis
  proof (rule wp_mono [OF b])
    fix t assume t: "rehydrated E s (desc_name ` dom (sessions s)) Map.empty s (sessions t) t"
    have tab: "texts t = texts s" "uuids s \<le> uuids t" "descs t = filter (\<lambda>f. fst f \<notin> dropped s) (descs s)"
      using t by (auto simp: rehydrated_def dropped_def intro!: filter_cong)
    have cb: "comes_back E s se (sessions t sid)" if "sessions s sid = Some se" for sid se
      using t that by (auto simp: rehydrated_def)
    have none: "sessions t sid = None" if "sessions s sid = None" for sid
    proof -
      have "desc_name sid \<notin> desc_name ` dom (sessions s)" using that by auto
      then show ?thesis using t by (simp add: rehydrated_def)
    qed
    have old: "\<exists>se. sessions s sid = Some se \<and> \<not> restricted se \<and> resumed E s se se'" if "sessions t sid = Some se'" for sid se'
      using cb [of sid] none [of sid] that by (cases "sessions s sid") (auto simp: comes_back_def split: if_splits)
    have "files_ok E t"
      unfolding files_ok_def
    proof (intro conjI allI impI)
      show "sound E t sid se'" if "sessions t sid = Some se'" for sid se'
        using old [OF that] s tab by (auto simp: durable_def files_ok_def intro: resumed_sound)
      show "se_path a \<noteq> se_path b" if a: "sessions t i = Some a" and b: "sessions t j = Some b" and "i \<noteq> j" for i j a b
        using old [OF a] old [OF b] s \<open>i \<noteq> j\<close> by (auto simp: durable_def files_ok_def resumed_def)
    qed
    moreover have "disk_ok E t"
      unfolding disk_ok_def
    proof (intro conjI allI impI ballI)
      show "distinct (map fst (descs t))" using d by (simp add: tab distinct_map_filter)
      show "\<exists>sid\<in>dom (sessions t). n = desc_name sid" if n: "n \<in> fst ` set (descs t)" for n
      proof -
        have "n \<in> fst ` set (descs s)" "n \<notin> dropped s" using n by (auto simp: tab)
        then obtain sid se where se: "sessions s sid = Some se" "n = desc_name sid" "\<not> restricted se"
          unfolding durable_describes(2) [OF E(3) s] by (auto simp: dropped_def)
        then show ?thesis using cb [OF se(1)] by (auto simp: comes_back_def split: option.splits)
      qed
      show "\<exists>x. map_of (descs t) (desc_name sid) = Some (Inr x) \<and> described E sid se' x"
        if t: "sessions t sid = Some se'" for sid se'
      proof -
        obtain se where se: "sessions s sid = Some se" "\<not> restricted se" "resumed E s se se'" using old [OF t] by blast
        obtain x where x: "map_of (descs s) (desc_name sid) = Some (Inr x)" "described E sid se x"
          using s se(1) unfolding durable_def disk_ok_def by blast
        have "desc_name sid \<notin> dropped s" using se(1,2) by (auto simp: dropped_def)
        then have "(desc_name sid, Inr x) \<in> set (descs t)" using x(1) by (auto simp: tab dest: map_of_SomeD)
        then have "map_of (descs t) (desc_name sid) = Some (Inr x)" using d by (simp add: tab distinct_map_filter)
        moreover have "described E sid se' x" using x(2) se(3) by (simp add: described_def resumed_def)
        ultimately show ?thesis by blast
      qed
    qed
    ultimately show "durable E t \<and> (\<forall>sid. case sessions s sid of None \<Rightarrow> sessions t sid = None
        | Some se \<Rightarrow> comes_back E s se (sessions t sid))"
      using cb none by (simp add: durable_def split: option.split)
  qed simp
qed


section \<open>The life of a server\<close>

text \<open>
  A history: tool calls, and crashes after which the server is started again on the disk as it is.
  Left out are starts whose trajectory file exists already, aborts that raise, and reverts that
  raise after they gave the container up.
\<close>

definition careful :: "venv \<Rightarrow> tool \<Rightarrow> srv \<Rightarrow> exn + jval \<Rightarrow> srv \<Rightarrow> bool" where
  "careful E c s r t \<longleftrightarrow> (case c of
     Start_task i \<Rightarrow> fresh_start E s i
   | Abort_task sid \<Rightarrow> \<not> isl r
   | Revert sid i \<Rightarrow> \<not> isl r \<or> map_option (\<lambda>se. sb_container (se_sandbox se)) (sessions t sid)
       = map_option (\<lambda>se. sb_container (se_sandbox se)) (sessions s sid)
   | _ \<Rightarrow> True)"

inductive life :: "venv \<Rightarrow> srv \<Rightarrow> srv \<Rightarrow> bool" for E where
  Called: "life E s t" if "call E c s = (r, t)" "careful E c s r t"
| Restarted: "life E s t" if "build_server E s = (Inr (), t)"

lemma pure_tools_durable: "preserves (durable E) (list_tasks E tag diff)"
  "preserves (durable E) (describe_task E i)"
  by (auto simp: list_tasks_def describe_task_def find_def intro!: keeps_intros split: sum.split)

lemma preserved: "preserves I m \<Longrightarrow> m s = (r, t) \<Longrightarrow> I s \<Longrightarrow> I t"
  using keepsD [of _ m s r t] by blast

lemma called_durable:
  assumes E: "steady E" and s: "durable E s" and c: "call E c s = (r, t)" "careful E c s r t"
  shows "durable E t"
proof (cases c)
  case (Start_task i)
  have dom: "dom (sessions s) \<subseteq> s_uuid E ` {..<uuids s}" using s by (auto simp: durable_def files_ok_def sound_def)
  have f: "fresh_start E s i" "start_task E i s = (r, t)" using c Start_task by (simp_all add: careful_def)
  show ?thesis
    using wpD [OF start_task_durable [OF E s dom f(1)] f(2)] wpD [OF start_task_raises [OF s f(1)] f(2)]
    by (cases r) simp_all
next
  case (Revert sid i)
  have ok: "daemon_ok E" using E by (simp add: steady_def)
  show ?thesis
  proof (cases r)
    case (Inl e)
    then show ?thesis using c Revert revert_tool_raises [OF s _ _ ok, of sid i e t] by (simp add: careful_def)
  next
    case (Inr v)
    then show ?thesis using c(1) Revert wpD [OF revert_tool_durable [OF E s, of sid i]] by fastforce
  qed
next
  case (Finish_task sid)
  then show ?thesis using c(1) wpD [OF finish_task_durable [OF E s, of sid]] by (fastforce split: sum.splits)
next
  case (Abort_task sid)
  then show ?thesis using c wpD [OF abort_task_durable [OF E s, of sid]] by (cases r) (auto simp: careful_def)
qed (use c(1) s in \<open>auto intro: session_tools_durable [THEN preserved] pure_tools_durable [THEN preserved]\<close>)

interpretation server_disk: machine "\<lambda>s. idle s \<and> descs s = []"
  "\<lambda>s t. codec_ok E \<and> daemon_has E \<and> steady E \<and> life E s t" "durable E" for E
proof
  fix s t
  show "idle s \<and> descs s = [] \<Longrightarrow> durable E s"
    by (simp add: idle_def durable_def files_ok_def disk_ok_def)
  assume s: "durable E s" and t: "codec_ok E \<and> daemon_has E \<and> steady E \<and> life E s t"
  then have "life E s t" by blast
  then show "durable E t"
  proof cases
    case (Called c r)
    with s t show ?thesis by (blast intro: called_durable)
  next
    case Restarted
    with s t show ?thesis using wpD [OF restart_durable [of E s]] by fastforce
  qed
qed


section \<open>Property\<close>

lemma mcp_find_task: "find_task (mcp_dir run_task) [] i = Inr t \<Longrightarrow> t = run_task"
proof -
  assume "find_task (mcp_dir run_task) [] i = Inr t"
  then obtain ts where ts: "discover_tasks (mcp_dir run_task) [] = Inr ts" "find_in i ts = Inr t"
    by (auto simp: find_task_def split: sum.splits)
  have "load_task (mcp_dir run_task) p = Inr run_task" for p
    using validate_dump_task [of "\<lambda>v. case v of JInt n \<Rightarrow> Some n | _ \<Rightarrow> None" run_task] run_task_wf
    by (auto simp: load_task_def mcp_dir_def dump_task_def split: jval.splits)
  then have "list_all (\<lambda>t. t = run_task) ts"
    using discover_Inr [OF ts(1)] by (auto simp: list_all2_conv_all_nth list_all_length)
  with ts(2) show ?thesis by (induction ts) (auto split: if_splits)
qed

lemma mcp_steady: "steady (mcp_env run_task demo_daemon)"
proof -
  let ?E = "mcp_env run_task demo_daemon"
  have "list_all is_scalar i" if "demo_daemon log (Create_container k) = Inr (Container i)" for log k i
    using that by (auto simp: demo_daemon_def lit_def is_scalar_def split: if_splits)
  moreover have "s_uuid ?E n \<noteq> [] \<and> 47 \<notin> set (s_uuid ?E n) \<and> list_all is_scalar (s_uuid ?E n)" for n
    by (simp add: list_all_iff is_scalar_def)
  moreover have "v_tasks_dir ?E = []" by (simp add: mcp_env_def senv.defs)
  ultimately show ?thesis
    unfolding steady_def using mcp_daemon_ok mcp_inj run_task_dumpable
    by (auto simp: indented.dec_enc dest: mcp_find_task)
qed

lemma mcp_daemon_has: "daemon_has (mcp_env task demo_daemon)"
  by (simp add: daemon_has_def demo_daemon_def)

lemma mcp_idle_new: "idle mcp_idle" "descs mcp_idle = []"
  by (simp_all add: idle_def)

lemma mcp_lives: "\<exists>s. one_session s \<and> (life (mcp_env run_task demo_daemon))\<^sup>*\<^sup>* mcp_idle s"
proof -
  let ?E = "mcp_env run_task demo_daemon"
  obtain v s where s: "start_task ?E (lit ''t'') mcp_idle = (Inr v, s)" "one_session s"
    using wp_return [OF mcp_started] by blast
  have "life ?E mcp_idle s"
    by (rule life.Called [of _ "Start_task (lit ''t'')" _ "Inr v"])
      (simp_all add: s(1) careful_def fresh_start_def split: sum.split)
  with s(2) show ?thesis by blast
qed

lemma life_durable:
  assumes "codec_ok E" "daemon_has E" "steady E" "idle s0" "descs s0 = []" "(life E)\<^sup>*\<^sup>* s0 s"
  shows "durable E s"
proof -
  have "(\<lambda>s t. codec_ok E \<and> daemon_has E \<and> steady E \<and> life E s t)\<^sup>*\<^sup>* s0 s" using assms(1-3,6) by simp
  then show ?thesis using assms(4,5) by (intro server_disk.reachable_inv [of s0 E s]) simp_all
qed





end
