(* ===== verification/Cli_Args.thy ===== *)
theory Cli_Args
  imports Mcp_Server "HOL-Library.Sublist"
begin

text \<open>
  \<^verbatim>\<open>cli.py\<close>, the command line: the declarations \<^verbatim>\<open>main\<close> makes and what \<^verbatim>\<open>argparse\<close> (of Python
  3.11, the version the project asks for) makes of an argument vector under them. A declaration is
  data; the parser classifies every argument as a word, an option or \<^verbatim>\<open>--\<close>, then takes options and
  positionals in turn. What ends the program (help, or an error) is its exit status. The usage
  texts that are printed on the way are not modelled.
\<close>

section \<open>Declarations\<close>

text \<open>Hours, which are floats in the code, are counted in microseconds.\<close>

datatype arg_type = T_text | T_path | T_int | T_hours

datatype arg_val = V_none | V_bool bool | V_text pystr | V_texts "pystr list" | V_path path
  | V_int int | V_hours int

datatype arg_action = Store arg_type | Append | Store_true | Show_help

record opt =
  op_flags :: "pystr list"
  op_dest :: string
  op_action :: arg_action
  op_default :: arg_val
  op_required :: bool
  op_choices :: "pystr list option"

record positional =
  ps_dest :: string
  ps_optional :: bool
  ps_default :: arg_val

record parser =
  pa_opts :: "opt list"
  pa_positionals :: "positional list"

text \<open>
  The working directory; \<^verbatim>\<open>int\<close> and \<^verbatim>\<open>float\<close> of a text (None: ValueError), the latter in
  microseconds of that many hours; and which code points \<^verbatim>\<open>\d\<close> matches.
\<close>

record argv_env =
  av_cwd :: path
  av_int :: "pystr \<Rightarrow> int option"
  av_hours :: "pystr \<Rightarrow> int option"
  av_digit :: "codepoint \<Rightarrow> bool"

type_synonym namespace = "(string \<times> arg_val) list"

text \<open>A parse ends the program with an exit status (\<open>Inl\<close>) or has a result.\<close>

type_synonym 'a parsed = "int + 'a"

definition option :: "string \<Rightarrow> string \<Rightarrow> arg_action \<Rightarrow> arg_val \<Rightarrow> opt" where
  "option f d a v = \<lparr>op_flags = [lit f], op_dest = d, op_action = a, op_default = v,
     op_required = False, op_choices = None\<rparr>"

definition required_path :: "string \<Rightarrow> positional" where
  "required_path d = \<lparr>ps_dest = d, ps_optional = False, ps_default = V_none\<rparr>"

definition help_option :: opt where
  "help_option = \<lparr>op_flags = [lit ''-h'', lit ''--help''], op_dest = ''help'', op_action = Show_help,
     op_default = V_none, op_required = False, op_choices = None\<rparr>"

definition root_option :: "argv_env \<Rightarrow> opt" where
  "root_option V = option ''--root'' ''root'' (Store T_path) (V_path (av_cwd V))"

definition json_option :: opt where
  "json_option = option ''--json'' ''json'' Store_true (V_bool False)"

definition run_parser :: "argv_env \<Rightarrow> parser" where
  "run_parser V = \<lparr>pa_opts = [help_option, root_option V, option ''--cmd'' ''cmd'' Append (V_texts [])],
     pa_positionals = [required_path ''task'']\<rparr>"

definition inspect_parser :: parser where
  "inspect_parser = \<lparr>pa_opts = [help_option,
       option ''--full'' ''full'' Store_true (V_bool False),
       (option ''--type'' ''type'' Append V_none)\<lparr>op_choices := Some (map (\<lambda>t. lit (event_type_str t)) EVENT_TYPES)\<rparr>,
       option ''--no-summary'' ''no_summary'' Store_true (V_bool False),
       option ''--summary-only'' ''summary_only'' Store_true (V_bool False)],
     pa_positionals = [required_path ''path'']\<rparr>"

definition stats_parser :: "argv_env \<Rightarrow> parser" where
  "stats_parser V = \<lparr>pa_opts = [help_option, option ''--task'' ''task'' (Store T_text) V_none, json_option],
     pa_positionals = [\<lparr>ps_dest = ''path'', ps_optional = True,
       ps_default = V_path (parse_path (av_cwd V) (lit ''trajectories''))\<rparr>]\<rparr>"

definition batch_parser :: "argv_env \<Rightarrow> parser" where
  "batch_parser V = \<lparr>pa_opts = [help_option,
       (option ''--agent'' ''agent'' (Store T_text) V_none)\<lparr>op_required := True\<rparr>,
       root_option V,
       option ''--filter-tag'' ''filter_tag'' (Store T_text) V_none,
       option ''--filter-difficulty'' ''filter_difficulty'' (Store T_text) V_none,
       option ''--skip-if-passed-within'' ''skip_if_passed_within'' (Store T_hours) (V_hours 0),
       option ''--per-task-timeout'' ''per_task_timeout'' (Store T_int) (V_int 600),
       json_option],
     pa_positionals = [required_path ''tasks_dir'']\<rparr>"

definition compare_parser :: parser where
  "compare_parser = \<lparr>pa_opts = [help_option, json_option],
     pa_positionals = [required_path ''a'', required_path ''b'']\<rparr>"

definition reap_parser :: "argv_env \<Rightarrow> parser" where
  "reap_parser V = \<lparr>pa_opts = [help_option, root_option V,
       option ''--dry-run'' ''dry_run'' Store_true (V_bool False),
       option ''--older-than-hours'' ''older_than_hours'' (Store T_hours) (V_hours (24 * 3600 * 1000000))],
     pa_positionals = []\<rparr>"

datatype subcommand = Run_cmd | Inspect_cmd | Stats_cmd | Batch_cmd | Compare_cmd | Reap_cmd

definition subparsers :: "argv_env \<Rightarrow> (pystr \<times> subcommand \<times> parser) list" where
  "subparsers V = [(lit ''run'', Run_cmd, run_parser V), (lit ''inspect'', Inspect_cmd, inspect_parser),
     (lit ''stats'', Stats_cmd, stats_parser V), (lit ''batch'', Batch_cmd, batch_parser V),
     (lit ''compare'', Compare_cmd, compare_parser), (lit ''reap'', Reap_cmd, reap_parser V)]"

definition top_parser :: parser where
  "top_parser = \<lparr>pa_opts = [help_option], pa_positionals = []\<rparr>"

section \<open>Classifying arguments\<close>

text \<open>
  An option carries its text, the declaration it means if there is one, the flag it was taken for
  and the value in the same argument, with whether an equals sign set it off.
\<close>

datatype token = Word pystr | Dashes | Option pystr "opt option" pystr "(bool \<times> pystr) option"

fun token_text :: "token \<Rightarrow> pystr" where
  "token_text (Word s) = s"
| "token_text Dashes = lit ''--''"
| "token_text (Option s a n e) = s"

fun is_option :: "token \<Rightarrow> bool" where
  "is_option (Option s a n e) = True"
| "is_option _ = False"

definition flag_table :: "parser \<Rightarrow> (pystr \<times> opt) list" where
  "flag_table P = concat (map (\<lambda>a. map (\<lambda>f. (f, a)) (op_flags a)) (pa_opts P))"

text \<open>\<^verbatim>\<open>s.partition("=")\<close>; without a separator there is no second part.\<close>

definition partition_eq :: "pystr \<Rightarrow> pystr \<times> pystr option" where
  "partition_eq s = (takeWhile (\<lambda>c. c \<noteq> 61) s,
     case dropWhile (\<lambda>c. c \<noteq> 61) s of [] \<Rightarrow> None | c # t \<Rightarrow> Some t)"

text \<open>\<^verbatim>\<open>_get_option_tuples\<close>: the flags an argument may abbreviate, or carry its value behind.\<close>

definition long_tuples :: "parser \<Rightarrow> pystr \<Rightarrow> (opt \<times> pystr \<times> (bool \<times> pystr) option) list" where
  "long_tuples P s = (case partition_eq s of (n, e) \<Rightarrow>
     map (\<lambda>(f, a). (a, f, map_option (Pair True) e)) (filter (\<lambda>(f, a). prefix n f) (flag_table P)))"

definition short_tuples :: "parser \<Rightarrow> pystr \<Rightarrow> (opt \<times> pystr \<times> (bool \<times> pystr) option) list" where
  "short_tuples P s = map (\<lambda>(f, a). (a, f, if f = take 2 s then Some (False, drop 2 s) else None))
     (filter (\<lambda>(f, a). f = take 2 s \<or> prefix s f) (flag_table P))"

definition option_tuples :: "parser \<Rightarrow> pystr \<Rightarrow> (opt \<times> pystr \<times> (bool \<times> pystr) option) list" where
  "option_tuples P s = (if take 2 s = lit ''--'' then long_tuples P s else short_tuples P s)"

text \<open>\<^verbatim>\<open>^-\d+$|^-\d*\.\d+$\<close>, whose end may come before a final newline.\<close>

definition negative_number :: "argv_env \<Rightarrow> pystr \<Rightarrow> bool" where
  "negative_number V s \<longleftrightarrow> s \<noteq> [] \<and> hd s = 45
     \<and> (let t = (if last s = 10 then butlast (tl s) else tl s);
            ds = takeWhile (av_digit V) t; r = dropWhile (av_digit V) t
        in (ds \<noteq> [] \<and> r = []) \<or> (r \<noteq> [] \<and> hd r = 46 \<and> tl r \<noteq> [] \<and> list_all (av_digit V) (tl r)))"

text \<open>\<^verbatim>\<open>_parse_optional\<close>. An ambiguous abbreviation ends the program.\<close>

definition unknown_or_abbreviated :: "argv_env \<Rightarrow> parser \<Rightarrow> pystr \<Rightarrow> token parsed" where
  "unknown_or_abbreviated V P s = (case option_tuples P s of
     [] \<Rightarrow> Inr (if negative_number V s \<or> 32 \<in> set s then Word s else Option s None s None)
   | [(a, n, e)] \<Rightarrow> Inr (Option s (Some a) n e)
   | _ \<Rightarrow> Inl 2)"

definition classify :: "argv_env \<Rightarrow> parser \<Rightarrow> pystr \<Rightarrow> token parsed" where
  "classify V P s =
     (if s = [] \<or> hd s \<noteq> 45 then Inr (Word s)
      else case map_of (flag_table P) s of
        Some a \<Rightarrow> Inr (Option s (Some a) s None)
      | None \<Rightarrow>
          (if length s = 1 then Inr (Word s)
           else case partition_eq s of
             (n, None) \<Rightarrow> unknown_or_abbreviated V P s
           | (n, Some e) \<Rightarrow> (case map_of (flag_table P) n of
                Some a \<Rightarrow> Inr (Option s (Some a) n (Some (True, e)))
              | None \<Rightarrow> unknown_or_abbreviated V P s)))"

fun tokens :: "argv_env \<Rightarrow> parser \<Rightarrow> pystr list \<Rightarrow> token list parsed" where
  "tokens V P [] = Inr []"
| "tokens V P (s # ss) =
     (if s = lit ''--'' then Inr (Dashes # map Word ss)
      else case classify V P s of Inl c \<Rightarrow> Inl c
      | Inr t \<Rightarrow> (case tokens V P ss of Inl c \<Rightarrow> Inl c | Inr ts \<Rightarrow> Inr (t # ts)))"

section \<open>Taking arguments\<close>

record pstate =
  p_left :: "positional list"
  p_ns :: namespace
  p_seen :: "string list"
  p_extras :: "pystr list"

definition set_arg :: "string \<Rightarrow> arg_val \<Rightarrow> pstate \<Rightarrow> pstate" where
  "set_arg d v st = st\<lparr>p_ns := AList.update d v (p_ns st), p_seen := d # p_seen st\<rparr>"

fun convert :: "argv_env \<Rightarrow> arg_type \<Rightarrow> pystr \<Rightarrow> arg_val option" where
  "convert V T_text s = Some (V_text s)"
| "convert V T_path s = Some (V_path (parse_path (av_cwd V) s))"
| "convert V T_int s = map_option V_int (av_int V s)"
| "convert V T_hours s = map_option V_hours (av_hours V s)"

fun texts_of :: "arg_val option \<Rightarrow> pystr list" where
  "texts_of (Some (V_texts xs)) = xs"
| "texts_of _ = []"

text \<open>The value of an option that takes one.\<close>

fun option_value :: "argv_env \<Rightarrow> opt \<Rightarrow> namespace \<Rightarrow> pystr \<Rightarrow> arg_val option" where
  "option_value V a ns s =
     (if (case op_choices a of None \<Rightarrow> False | Some cs \<Rightarrow> s \<notin> set cs) then None
      else case op_action a of
        Store t \<Rightarrow> convert V t s
      | Append \<Rightarrow> Some (V_texts (texts_of (map_of ns (op_dest a)) @ [s]))
      | _ \<Rightarrow> None)"

text \<open>A help option given as \<^verbatim>\<open>-hx\<close> or \<^verbatim>\<open>-hh\<close> is taken before what follows it is refused.\<close>

fun help_tail :: "bool \<Rightarrow> pystr \<Rightarrow> int" where
  "help_tail eq [] = 2"
| "help_tail eq (c # s) =
     (if eq \<or> c = 45 then 2 else if c \<noteq> 104 then 0
      else case s of [] \<Rightarrow> 0 | d # r \<Rightarrow> if d = 61 then 2 else help_tail False s)"

definition help_exit :: "pystr \<Rightarrow> (bool \<times> pystr) option \<Rightarrow> int" where
  "help_exit n e = (case e of None \<Rightarrow> 0
     | Some (eq, s) \<Rightarrow> if take 2 n = lit ''--'' then 2 else help_tail eq s)"

text \<open>
  A positional takes its word with the \<^verbatim>\<open>--\<close> around it; the first \<^verbatim>\<open>--\<close> among the arguments it
  took is dropped, even when it is the word itself.
\<close>

fun match_one :: "bool \<Rightarrow> token list \<Rightarrow> (pystr list \<times> token list) option" where
  "match_one opt (Dashes # ts) = (case match_one opt ts of
     None \<Rightarrow> None | Some (args, rest) \<Rightarrow> Some (lit ''--'' # args, rest))"
| "match_one opt (Word w # ts) =
     Some (w # map token_text (takeWhile (\<lambda>t. t = Dashes) ts), dropWhile (\<lambda>t. t = Dashes) ts)"
| "match_one opt ts = (if opt then Some ([], ts) else None)"

definition positional_value :: "argv_env \<Rightarrow> positional \<Rightarrow> pystr list \<Rightarrow> arg_val" where
  "positional_value V p args = (case remove1 (lit ''--'') args of
     [] \<Rightarrow> if ps_optional p then ps_default p else V_texts []
   | [w] \<Rightarrow> V_path (parse_path (av_cwd V) w)
   | args' \<Rightarrow> V_texts args')"

fun take_positionals :: "argv_env \<Rightarrow> positional list \<Rightarrow> token list \<Rightarrow> pstate \<Rightarrow> token list \<times> pstate" where
  "take_positionals V [] ts st = (ts, st\<lparr>p_left := []\<rparr>)"
| "take_positionals V (p # ps) ts st = (case match_one (ps_optional p) ts of
     None \<Rightarrow> (ts, st\<lparr>p_left := p # ps\<rparr>)
   | Some (args, rest) \<Rightarrow>
       take_positionals V ps rest (set_arg (ps_dest p) (positional_value V p args) st))"

text \<open>One option, and what is left after it.\<close>

fun take_option :: "argv_env \<Rightarrow> token \<Rightarrow> token list \<Rightarrow> pstate \<Rightarrow> (token list \<times> pstate) parsed" where
  "take_option V (Option s None n e) ts st = Inr (ts, st\<lparr>p_extras := p_extras st @ [s]\<rparr>)"
| "take_option V (Option s (Some a) n e) ts st = (case op_action a of
     Show_help \<Rightarrow> Inl (help_exit n e)
   | Store_true \<Rightarrow> if e = None then Inr (ts, set_arg (op_dest a) (V_bool True) st) else Inl 2
   | _ \<Rightarrow> (case (case e of Some (eq, v) \<Rightarrow> Some (v, ts)
              | None \<Rightarrow> (case ts of Word w # r \<Rightarrow> Some (w, r) | _ \<Rightarrow> None)) of
        None \<Rightarrow> Inl 2
      | Some (w, r) \<Rightarrow> (case option_value V a (p_ns st) w of
          None \<Rightarrow> Inl 2 | Some v \<Rightarrow> Inr (r, set_arg (op_dest a) v st))))"
| "take_option V t ts st = Inr (ts, st)"

lemma take_option_shorter: "take_option V t ts st = Inr (rest, u) \<Longrightarrow> length rest \<le> length ts"
  by (induction V t ts st rule: take_option.induct)
    (auto split: arg_action.splits option.splits if_splits list.splits token.splits)

lemma dropWhile_shorter: "ts \<noteq> [] \<Longrightarrow> \<not> is_option (hd ts)
    \<Longrightarrow> length (dropWhile (\<lambda>t. \<not> is_option t) ts) < length ts"
  by (cases ts) (auto simp: le_imp_less_Suc length_dropWhile_le)

text \<open>\<^verbatim>\<open>_parse_known_args\<close>: options and positionals in turn, then the positionals after the last option.\<close>

function consume :: "argv_env \<Rightarrow> token list \<Rightarrow> pstate \<Rightarrow> pstate parsed" where
  "consume V ts st =
     (if \<not> list_ex is_option ts
      then (case take_positionals V (p_left st) ts st of
        (rest, u) \<Rightarrow> Inr (u\<lparr>p_extras := p_extras u @ map token_text rest\<rparr>))
      else if is_option (hd ts)
      then (case take_option V (hd ts) (tl ts) st of Inl c \<Rightarrow> Inl c | Inr (rest, u) \<Rightarrow> consume V rest u)
      else (case take_positionals V (p_left st) ts st of
        (rest, u) \<Rightarrow>
          if length rest < length ts then consume V rest u
          else consume V (dropWhile (\<lambda>t. \<not> is_option t) ts)
            (u\<lparr>p_extras := p_extras u @ map token_text (takeWhile (\<lambda>t. \<not> is_option t) ts)\<rparr>)))"
  by pat_completeness auto

termination
proof (relation "measure (\<lambda>(V, ts, st). length ts)", goal_cases)
  case (2 V ts st x rest u)
  then have "length rest \<le> length (tl ts)" by (auto dest: take_option_shorter)
  then show ?case using 2 by (cases ts) auto
next
  case (4 V ts st)
  then have "ts \<noteq> []" by auto
  with 4 dropWhile_shorter show ?case by simp
qed (simp_all split: prod.split, metis fst_conv)

declare consume.simps [simp del]

section \<open>The parsers\<close>

text \<open>\<^verbatim>\<open>parse_known_args\<close> of a subcommand: its namespace and the arguments it does not know.\<close>

definition defaults :: "parser \<Rightarrow> namespace" where
  "defaults P = map (\<lambda>a. (op_dest a, op_default a)) (filter (\<lambda>a. op_action a \<noteq> Show_help) (pa_opts P))
     @ map (\<lambda>p. (ps_dest p, ps_default p)) (pa_positionals P)"

definition initial :: "parser \<Rightarrow> pstate" where
  "initial P = \<lparr>p_left = pa_positionals P, p_ns = defaults P, p_seen = [], p_extras = []\<rparr>"

definition complete :: "parser \<Rightarrow> pstate \<Rightarrow> bool" where
  "complete P st \<longleftrightarrow> list_all ps_optional (p_left st)
     \<and> list_all (\<lambda>a. op_required a \<longrightarrow> op_dest a \<in> set (p_seen st)) (pa_opts P)"

definition parse_known :: "argv_env \<Rightarrow> parser \<Rightarrow> pystr list \<Rightarrow> (namespace \<times> pystr list) parsed" where
  "parse_known V P argv = (case tokens V P argv of Inl c \<Rightarrow> Inl c
   | Inr ts \<Rightarrow> (case consume V ts (initial P) of Inl c \<Rightarrow> Inl c
     | Inr st \<Rightarrow> if complete P st then Inr (p_ns st, p_extras st) else Inl 2))"

text \<open>
  The parser of the program itself: what comes before the subcommand is an option that is not
  known, or help; the subcommand takes everything after it.
\<close>

fun parse_top :: "argv_env \<Rightarrow> token list \<Rightarrow> bool \<Rightarrow> (subcommand \<times> namespace) parsed" where
  "parse_top V [] unknown = Inl 2"
| "parse_top V (Option s None n e # ts) unknown = parse_top V ts True"
| "parse_top V (Option s (Some a) n e # ts) unknown = Inl (help_exit n e)"
| "parse_top V (t # ts) unknown = (case map_of (subparsers V) (token_text t) of
     None \<Rightarrow> Inl 2
   | Some (c, P) \<Rightarrow> (case parse_known V P (map token_text ts) of Inl x \<Rightarrow> Inl x
     | Inr (ns, extras) \<Rightarrow> if unknown \<or> extras \<noteq> [] then Inl 2 else Inr (c, ns)))"

definition parse_args :: "argv_env \<Rightarrow> pystr list \<Rightarrow> (subcommand \<times> namespace) parsed" where
  "parse_args V argv = (case tokens V top_parser argv of Inl c \<Rightarrow> Inl c | Inr ts \<Rightarrow> parse_top V ts False)"

section \<open>The program's own parser\<close>

lemma classify_text: "classify V P s = Inr t \<Longrightarrow> token_text t = s"
  by (auto simp: classify_def unknown_or_abbreviated_def split: if_splits option.splits prod.splits list.splits)

lemma tokens_text: "tokens V P ss = Inr ts \<Longrightarrow> map token_text ts = ss"
proof (induction V P ss arbitrary: ts rule: tokens.induct)
  case (2 V P s ss)
  then show ?case by (auto split: if_splits sum.splits dest: classify_text simp: comp_def)
qed simp

lemma top_flags: "flag_table top_parser = [(lit ''-h'', help_option), (lit ''--help'', help_option)]"
  by (simp add: flag_table_def top_parser_def help_option_def)

text \<open>With only the help option declared no abbreviation is ambiguous.\<close>

lemma top_tuples: "2 \<le> length s \<Longrightarrow> length (option_tuples top_parser s) \<le> 1"
proof -
  assume s: "2 \<le> length s"
  then obtain c d r where cs: "s = c # d # r" by (metis One_nat_def Suc_1 Suc_le_length_iff)
  show ?thesis
    by (auto simp: cs option_tuples_def long_tuples_def short_tuples_def top_flags partition_eq_def lit_def)
qed

lemma classify_top: "\<exists>t. classify V top_parser s = Inr t"
proof -
  consider "length s < 2" | "2 \<le> length s" by linarith
  then show ?thesis
  proof cases
    case 1
    then have "s = [] \<or> (\<exists>c. s = [c])" by (cases s) auto
    then show ?thesis by (auto simp: classify_def split: option.split)
  next
    case 2
    from top_tuples [OF this] have "\<exists>t. unknown_or_abbreviated V top_parser s = Inr t"
      by (auto simp: unknown_or_abbreviated_def split: list.split)
    then show ?thesis by (auto simp: classify_def split: option.split prod.split)
  qed
qed

lemma tokens_top: "\<exists>ts. tokens V top_parser ss = Inr ts \<and> map token_text ts = ss"
proof -
  have "\<exists>ts. tokens V top_parser ss = Inr ts"
  proof (induction ss)
    case (Cons s ss)
    with classify_top [of V s] show ?case by auto
  qed simp
  then show ?thesis using tokens_text by blast
qed

lemma parse_args_subcommand:
  assumes "s = [] \<or> hd s \<noteq> 45"
  shows "parse_args V (s # ss) = (case map_of (subparsers V) s of
     None \<Rightarrow> Inl 2
   | Some (c, P) \<Rightarrow> (case parse_known V P ss of Inl x \<Rightarrow> Inl x
     | Inr (ns, extras) \<Rightarrow> if extras \<noteq> [] then Inl 2 else Inr (c, ns)))"
proof -
  obtain ts where "tokens V top_parser ss = Inr ts" "map token_text ts = ss" using tokens_top by blast
  moreover have "s \<noteq> lit ''--''" using assms by (auto simp: lit_def)
  ultimately show ?thesis
    using assms by (simp add: parse_args_def classify_def split: option.split sum.split)
qed

section \<open>Settings and switches\<close>

text \<open>A setting gives an option its value behind an equals sign, a switch is an option without one.\<close>

definition setting :: "string \<Rightarrow> pystr \<Rightarrow> pystr" where
  "setting f v = lit f @ 61 # v"

definition switch :: "string \<Rightarrow> bool \<Rightarrow> pystr list" where
  "switch f b = (if b then [lit f] else [])"

definition setting_if :: "string \<Rightarrow> pystr option \<Rightarrow> pystr list" where
  "setting_if f v = (case v of None \<Rightarrow> [] | Some s \<Rightarrow> [setting f s])"

definition plain_flag :: "string \<Rightarrow> bool" where
  "plain_flag f \<longleftrightarrow> 2 < length f \<and> hd (lit f) = 45 \<and> 61 \<notin> set (lit f)"

definition no_eq :: "parser \<Rightarrow> bool" where
  "no_eq P \<longleftrightarrow> list_all (\<lambda>(f, a). 61 \<notin> set f) (flag_table P)"

lemma partition_setting: "61 \<notin> set s \<Longrightarrow> partition_eq (s @ 61 # v) = (s, Some v)"
  by (induction s) (simp_all add: partition_eq_def)

lemma no_eq_lookup: "no_eq P \<Longrightarrow> 61 \<in> set s \<Longrightarrow> map_of (flag_table P) s = None"
  by (auto simp: no_eq_def list_all_iff map_of_eq_None_iff)

lemma tokens_setting:
  assumes "map_of (flag_table P) (lit f) = Some a" "plain_flag f" "no_eq P"
  shows "tokens V P (setting f v # ss) = (case tokens V P ss of Inl c \<Rightarrow> Inl c
    | Inr ts \<Rightarrow> Inr (Option (setting f v) (Some a) (lit f) (Some (True, v)) # ts))"
proof -
  have len: "length (setting f v) > 3" using assms(2) by (simp add: setting_def plain_flag_def)
  have "hd (setting f v) = 45" using assms(2) by (cases "lit f") (auto simp: setting_def plain_flag_def)
  moreover have "map_of (flag_table P) (setting f v) = None"
    using assms(3) by (simp add: no_eq_lookup setting_def)
  moreover have "partition_eq (setting f v) = (lit f, Some v)"
    using assms(2) by (simp add: setting_def plain_flag_def partition_setting)
  moreover have "setting f v \<noteq> lit ''--''" "setting f v \<noteq> []" "length (setting f v) \<noteq> 1"
    using len by (auto simp: lit_def)
  ultimately show ?thesis using assms(1) by (simp add: classify_def)
qed

lemma tokens_switch:
  assumes "map_of (flag_table P) (lit f) = Some a" "plain_flag f"
  shows "tokens V P (lit f # ss) = (case tokens V P ss of Inl c \<Rightarrow> Inl c
    | Inr ts \<Rightarrow> Inr (Option (lit f) (Some a) (lit f) None # ts))"
proof -
  have "lit f \<noteq> lit ''--''" "lit f \<noteq> []" using assms(2) by (auto simp: plain_flag_def)
  with assms show ?thesis by (simp add: classify_def plain_flag_def)
qed

lemma consume_option: "consume V (Option s a n e # ts) st =
    (case take_option V (Option s a n e) ts st of Inl c \<Rightarrow> Inl c | Inr (rest, u) \<Rightarrow> consume V rest u)"
  by (subst consume.simps) simp

lemma consume_end: "consume V (Dashes # map Word ss) st =
    (case take_positionals V (p_left st) (Dashes # map Word ss) st of
      (rest, u) \<Rightarrow> Inr (u\<lparr>p_extras := p_extras u @ map token_text rest\<rparr>))"
  by (subst consume.simps) (simp add: list_ex_iff)

text \<open>A repeated option collects its values in order.\<close>

definition collected :: "string \<Rightarrow> pystr list \<Rightarrow> pstate \<Rightarrow> pstate" where
  "collected d vs st = fold (\<lambda>v u. set_arg d (V_texts (texts_of (map_of (p_ns u) d) @ [v])) u) vs st"

lemma tokens_settings:
  assumes "map_of (flag_table P) (lit f) = Some a" "plain_flag f" "no_eq P"
  shows "tokens V P (map (setting f) vs @ ss) = (case tokens V P ss of Inl c \<Rightarrow> Inl c
    | Inr ts \<Rightarrow> Inr (map (\<lambda>v. Option (setting f v) (Some a) (lit f) (Some (True, v))) vs @ ts))"
  by (induction vs) (simp_all add: tokens_setting [OF assms] del: tokens.simps(2) split: sum.split)

lemma consume_settings:
  assumes "op_action a = Append" "\<forall>v\<in>set vs. op_choices a = None \<or> v \<in> set (the (op_choices a))"
  shows "consume V (map (\<lambda>v. Option (setting f v) (Some a) n (Some (True, v))) vs @ ts) st
     = consume V ts (collected (op_dest a) vs st)"
  using assms(2)
proof (induction vs arbitrary: st)
  case (Cons v vs)
  then show ?case using assms(1)
    by (cases "op_choices a") (auto simp: consume_option collected_def)
qed (simp add: collected_def)

lemma collected_state [simp]:
  "p_left (collected d vs st) = p_left st" "p_extras (collected d vs st) = p_extras st"
  "set (p_seen (collected d vs st)) = (if vs = [] then set (p_seen st) else insert d (set (p_seen st)))"
  by (induction vs arbitrary: st) (auto simp: collected_def set_arg_def)

lemma collected_ns [simp]: "map_of (p_ns (collected d vs st)) = (if vs = [] then map_of (p_ns st)
    else (map_of (p_ns st))(d \<mapsto> V_texts (texts_of (map_of (p_ns st) d) @ vs)))"
  by (induction vs arbitrary: st) (auto simp: collected_def set_arg_def update_conv' fun_eq_iff)

end
