(* ===== verification/Cli_Typing.thy ===== *)
theory Cli_Typing
  imports Cli_Args
begin

text \<open>
  What is in the namespace of a command line that parses: every declared option is there with a
  value of its type, and the first positional is a path. The invariant is kept by every step of the
  parser.
\<close>

section \<open>Values and their types\<close>

fun type_ok :: "arg_type \<Rightarrow> arg_val \<Rightarrow> bool" where
  "type_ok T_text v \<longleftrightarrow> (\<exists>s. v = V_text s)"
| "type_ok T_path v \<longleftrightarrow> (\<exists>p. v = V_path p)"
| "type_ok T_int v \<longleftrightarrow> (\<exists>n. v = V_int n)"
| "type_ok T_hours v \<longleftrightarrow> (\<exists>n. v = V_hours n)"

definition given_ok :: "opt \<Rightarrow> arg_val \<Rightarrow> bool" where
  "given_ok a v \<longleftrightarrow> (case op_action a of
     Store t \<Rightarrow> type_ok t v | Append \<Rightarrow> \<exists>xs. v = V_texts xs | Store_true \<Rightarrow> v = V_bool True | Show_help \<Rightarrow> False)"

definition opts_ok :: "parser \<Rightarrow> pstate \<Rightarrow> bool" where
  "opts_ok P st \<longleftrightarrow> (\<forall>a\<in>set (pa_opts P). op_action a \<noteq> Show_help \<longrightarrow>
     (\<exists>v. map_of (p_ns st) (op_dest a) = Some v
        \<and> (if op_dest a \<in> set (p_seen st) then given_ok a v else v = op_default a)))"

text \<open>The first positional is either still to come, with its default in place, or a path.\<close>

definition first_ok :: "parser \<Rightarrow> pstate \<Rightarrow> bool" where
  "first_ok P st \<longleftrightarrow> (case pa_positionals P of [] \<Rightarrow> True
     | p # ps \<Rightarrow> (p_left st = p # ps \<and> map_of (p_ns st) (ps_dest p) = Some (ps_default p))
         \<or> (\<exists>q. map_of (p_ns st) (ps_dest p) = Some (V_path q)))"

definition declared :: "parser \<Rightarrow> bool" where
  "declared P \<longleftrightarrow> distinct (map op_dest (pa_opts P) @ map ps_dest (pa_positionals P))
     \<and> list_all (\<lambda>p. ps_optional p \<longrightarrow> (\<exists>q. ps_default p = V_path q)) (pa_positionals P)"

section \<open>The shape of the tokens\<close>

text \<open>There is at most one \<^verbatim>\<open>--\<close> that is not a word; only words follow it, and only there may a word be \<^verbatim>\<open>--\<close>.\<close>

fun is_word :: "token \<Rightarrow> bool" where
  "is_word (Word w) = True"
| "is_word _ = False"

fun shape :: "token list \<Rightarrow> bool" where
  "shape [] = True"
| "shape (Word w # ts) \<longleftrightarrow> w \<noteq> lit ''--'' \<and> shape ts"
| "shape (Option s a n e # ts) \<longleftrightarrow> shape ts"
| "shape (Dashes # ts) \<longleftrightarrow> list_all is_word ts"

definition known :: "parser \<Rightarrow> token list \<Rightarrow> bool" where
  "known P ts \<longleftrightarrow> (\<forall>s a n e. Option s (Some a) n e \<in> set ts \<longrightarrow> a \<in> set (pa_opts P))"

lemma flag_table_opts: "(f, a) \<in> set (flag_table P) \<Longrightarrow> a \<in> set (pa_opts P)"
  by (auto simp: flag_table_def)

lemma option_tuples_opts: "(a, n, e) \<in> set (option_tuples P s) \<Longrightarrow> a \<in> set (pa_opts P)"
  by (auto simp: option_tuples_def long_tuples_def short_tuples_def intro: flag_table_opts
      split: if_splits prod.splits)

lemma classify_known: "classify V P s = Inr t \<Longrightarrow>
    t \<noteq> Dashes \<and> (\<forall>u a n e. t = Option u (Some a) n e \<longrightarrow> a \<in> set (pa_opts P))"
proof -
  have u: "t \<noteq> Dashes \<and> (\<forall>u a n e. t = Option u (Some a) n e \<longrightarrow> a \<in> set (pa_opts P))"
    if "unknown_or_abbreviated V P s = Inr t"
  proof (cases "option_tuples P s")
    case Nil
    with that show ?thesis by (auto simp: unknown_or_abbreviated_def split: if_splits)
  next
    case (Cons x xs)
    obtain a n e where x: "x = (a, n, e)" by (cases x)
    then have "a \<in> set (pa_opts P)" using Cons option_tuples_opts [of a n e P s] by simp
    with that Cons x show ?thesis by (auto simp: unknown_or_abbreviated_def split: list.splits)
  qed
  assume c: "classify V P s = Inr t"
  show ?thesis
  proof (cases "unknown_or_abbreviated V P s = Inr t")
    case True
    then show ?thesis by (rule u)
  next
    case False
    with c show ?thesis
      by (auto simp: classify_def split: if_splits option.splits prod.splits
          dest!: map_of_SomeD intro: flag_table_opts)
  qed
qed

lemma tokens_known: "tokens V P ss = Inr ts \<Longrightarrow> shape ts \<and> known P ts"
proof (induction V P ss arbitrary: ts rule: tokens.induct)
  case (2 V P s ss)
  show ?case
  proof (cases "s = lit ''--''")
    case True
    with 2(2) show ?thesis by (auto simp: known_def list_all_iff)
  next
    case False
    with 2(2) obtain t us where t: "classify V P s = Inr t" "tokens V P ss = Inr us" "ts = t # us"
      by (auto split: sum.splits)
    then have "shape us" "known P us" using 2(1) False by auto
    with t(3) classify_known [OF t(1)] classify_text [OF t(1)] False show ?thesis
      by (cases t) (auto simp: known_def)
  qed
qed (simp add: known_def)

lemma known_suffix: "suffix us ts \<Longrightarrow> known P ts \<Longrightarrow> known P us"
  by (auto simp: known_def suffix_def) blast

lemma shape_words: "list_all is_word ts \<Longrightarrow> dropWhile (\<lambda>t. \<not> is_option t) ts = []"
proof (induction ts)
  case (Cons t ts)
  then show ?case by (cases t) auto
qed simp

lemma shape_dropWhile: "shape ts \<Longrightarrow> shape (dropWhile (\<lambda>t. \<not> is_option t) ts)"
  by (induction ts rule: shape.induct) (simp_all add: shape_words)

lemma match_one_suffix: "match_one o1 ts = Some (args, rest) \<Longrightarrow> suffix rest ts"
proof (induction o1 ts arbitrary: args rule: match_one.induct)
  case (1 o1 ts)
  then show ?case by (auto split: option.splits prod.splits intro: suffix_ConsI)
next
  case (2 o1 w ts)
  then show ?case by (auto intro: suffix_ConsI suffix_dropWhile)
qed (auto split: if_splits)

text \<open>The word a positional takes survives the dropping of \<^verbatim>\<open>--\<close>, as long as the shape is whole.\<close>

lemma match_one_word:
  assumes "shape ts" "match_one o1 ts = Some (args, rest)"
  shows "(\<exists>w. remove1 (lit ''--'') args = [w]) \<or> (o1 \<and> remove1 (lit ''--'') args = [])"
proof (cases ts)
  case Nil
  then show ?thesis using assms(2) by (auto split: if_splits)
next
  case (Cons t us)
  show ?thesis
  proof (cases t)
    case (Word w)
    have "takeWhile (\<lambda>t. t = Dashes) us = [] \<or> takeWhile (\<lambda>t. t = Dashes) us = [Dashes]"
    proof (cases us)
      case (Cons v vs)
      then show ?thesis using assms(1) \<open>ts = t # us\<close> Word by (cases v; cases vs) auto
    qed simp
    then show ?thesis using assms Cons Word by auto
  next
    case Dashes
    show ?thesis
    proof (cases us)
      case Nil
      with Cons Dashes assms(2) show ?thesis by (auto split: if_splits)
    next
      case c: (Cons v vs)
      then obtain w where "v = Word w" using assms(1) Cons Dashes by (cases v) auto
      moreover have "takeWhile (\<lambda>t. t = Dashes) vs = []"
        using assms(1) Cons Dashes c by (cases vs) auto
      ultimately show ?thesis using assms(2) Cons Dashes c by auto
    qed
  next
    case (Option s a n e)
    with Cons assms(2) show ?thesis by (auto split: if_splits)
  qed
qed

section \<open>The invariant\<close>

lemma take_positionals_suffix:
  "take_positionals V ps ts st = (rest, u) \<Longrightarrow> suffix rest ts \<and> suffix (p_left u) ps"
proof (induction V ps ts st rule: take_positionals.induct)
  case (2 V p ps ts st)
  show ?case
  proof (cases "match_one (ps_optional p) ts")
    case None
    with 2(2) show ?thesis by auto
  next
    case (Some x)
    then obtain args r where x: "match_one (ps_optional p) ts = Some (args, r)" by (cases x) auto
    with 2 have "suffix rest r" "suffix (p_left u) ps" by auto
    with match_one_suffix [OF x] show ?thesis by (auto intro: suffix_ConsI suffix_order.trans)
  qed
qed auto

lemma take_positionals_frame:
  "take_positionals V ps ts st = (rest, u) \<Longrightarrow> d \<notin> ps_dest ` set ps
     \<Longrightarrow> map_of (p_ns u) d = map_of (p_ns st) d \<and> (d \<in> set (p_seen u) \<longleftrightarrow> d \<in> set (p_seen st))"
proof (induction V ps ts st rule: take_positionals.induct)
  case (2 V p ps ts st)
  then show ?case by (auto split: option.splits simp: set_arg_def update_conv')
qed auto

definition parsing :: "parser \<Rightarrow> token list \<Rightarrow> pstate \<Rightarrow> bool" where
  "parsing P ts st \<longleftrightarrow> opts_ok P st \<and> first_ok P st \<and> suffix (p_left st) (pa_positionals P)
     \<and> (pa_positionals P \<noteq> [] \<longrightarrow> p_left st = pa_positionals P \<longrightarrow> shape ts) \<and> known P ts"

lemma convert_type: "convert V t s = Some v \<Longrightarrow> type_ok t v"
  by (cases t) auto

lemma take_option_cases:
  assumes "take_option V (Option s (Some a) n e) ts st = Inr (rest, u)"
  shows "\<exists>v. given_ok a v \<and> u = set_arg (op_dest a) v st \<and> (rest = ts \<or> (\<exists>w. ts = Word w # rest))"
  using assms
  by (auto simp: given_ok_def split: arg_action.splits if_splits option.splits list.splits token.splits)
    (metis convert_type)+

lemma set_arg_ns [simp]: "map_of (p_ns (set_arg d v st)) = (map_of (p_ns st))(d \<mapsto> v)"
  by (simp add: set_arg_def update_conv')

lemma set_arg_fields [simp]: "p_left (set_arg d v st) = p_left st" "p_extras (set_arg d v st) = p_extras st"
    "p_seen (set_arg d v st) = d # p_seen st"
  by (simp_all add: set_arg_def)

lemma declared_opts: "declared P \<Longrightarrow> a \<in> set (pa_opts P) \<Longrightarrow> b \<in> set (pa_opts P)
    \<Longrightarrow> op_dest a = op_dest b \<Longrightarrow> a = b"
  by (auto simp: declared_def distinct_map dest: inj_onD)

lemma declared_apart: "declared P \<Longrightarrow> a \<in> set (pa_opts P) \<Longrightarrow> p \<in> set (pa_positionals P) \<Longrightarrow> op_dest a \<noteq> ps_dest p"
  by (auto simp: declared_def)

lemma set_option_ok:
  assumes "declared P" "a \<in> set (pa_opts P)" "given_ok a v" "opts_ok P st" "first_ok P st"
  shows "opts_ok P (set_arg (op_dest a) v st)" "first_ok P (set_arg (op_dest a) v st)"
proof -
  show "opts_ok P (set_arg (op_dest a) v st)"
    using assms(1-4) by (auto simp: opts_ok_def dest: declared_opts)
  show "first_ok P (set_arg (op_dest a) v st)"
  proof (cases "pa_positionals P")
    case (Cons p ps)
    then have "op_dest a \<noteq> ps_dest p" using declared_apart [OF assms(1,2)] by simp
    with assms(5) Cons show ?thesis by (simp add: first_ok_def)
  qed (simp add: first_ok_def)
qed

lemma extras_ok [simp]: "opts_ok P (st\<lparr>p_extras := xs\<rparr>) = opts_ok P st"
    "first_ok P (st\<lparr>p_extras := xs\<rparr>) = first_ok P st"
  by (simp_all add: opts_ok_def first_ok_def split: list.split)

lemma option_step:
  assumes "declared P" "parsing P (Option s x n e # ts) st" "take_option V (Option s x n e) ts st = Inr (rest, u)"
  shows "parsing P rest u"
proof (cases x)
  case None
  with assms(2,3) show ?thesis by (auto simp: parsing_def known_def)
next
  case (Some a)
  with assms(2) have a: "a \<in> set (pa_opts P)" by (auto simp: parsing_def known_def)
  obtain v where v: "given_ok a v" "u = set_arg (op_dest a) v st" "rest = ts \<or> (\<exists>w. ts = Word w # rest)"
    using take_option_cases assms(3) Some by blast
  have "known P rest" "shape ts \<Longrightarrow> shape rest" using v(3) assms(2) by (auto simp: parsing_def known_def)
  then show ?thesis using set_option_ok [OF assms(1) a v(1)] assms(2) v(2) by (auto simp: parsing_def)
qed

lemma opts_ok_frame:
  assumes "opts_ok P st" "\<And>a. a \<in> set (pa_opts P) \<Longrightarrow> map_of (p_ns u) (op_dest a) = map_of (p_ns st) (op_dest a)
      \<and> (op_dest a \<in> set (p_seen u) \<longleftrightarrow> op_dest a \<in> set (p_seen st))"
  shows "opts_ok P u"
  using assms by (simp add: opts_ok_def)

lemma positional_path:
  assumes "shape ts" "match_one (ps_optional p) ts = Some (args, rest)" "ps_optional p \<longrightarrow> (\<exists>q. ps_default p = V_path q)"
  shows "\<exists>q. positional_value V p args = V_path q"
  using match_one_word [OF assms(1,2)] assms(3) by (auto simp: positional_value_def)

lemma positionals_step:
  assumes d: "declared P" and p: "parsing P ts st" and t: "take_positionals V (p_left st) ts st = (rest, u)"
  shows "parsing P rest u"
proof -
  have sfx: "suffix rest ts" "suffix (p_left u) (p_left st)" "suffix (p_left st) (pa_positionals P)"
    using take_positionals_suffix [OF t] p by (auto simp: parsing_def)
  have sub: "set (p_left st) \<subseteq> set (pa_positionals P)" using sfx(3) by (auto simp: suffix_def)
  have "opts_ok P u"
  proof (rule opts_ok_frame)
    show "opts_ok P st" using p by (simp add: parsing_def)
    fix a assume "a \<in> set (pa_opts P)"
    then have "op_dest a \<notin> ps_dest ` set (p_left st)" using declared_apart [OF d] sub by auto
    with take_positionals_frame [OF t] show "map_of (p_ns u) (op_dest a) = map_of (p_ns st) (op_dest a)
      \<and> (op_dest a \<in> set (p_seen u) \<longleftrightarrow> op_dest a \<in> set (p_seen st))" by blast
  qed
  moreover have "first_ok P u \<and> (pa_positionals P \<noteq> [] \<longrightarrow> p_left u = pa_positionals P \<longrightarrow> shape rest)"
  proof (cases "pa_positionals P")
    case Nil
    then show ?thesis by (simp add: first_ok_def)
  next
    case (Cons x xs)
    then have x: "ps_dest x \<notin> ps_dest ` set xs" "ps_optional x \<longrightarrow> (\<exists>q. ps_default x = V_path q)"
      using d by (auto simp: declared_def)
    show ?thesis
    proof (cases "p_left st = x # xs")
      case whole: True
      then have sh: "shape ts" using p Cons by (simp add: parsing_def)
      show ?thesis
      proof (cases "match_one (ps_optional x) ts")
        case None
        with t whole have "rest = ts" "u = st\<lparr>p_left := x # xs\<rparr>" by auto
        with p sh whole Cons show ?thesis by (auto simp: parsing_def first_ok_def)
      next
        case (Some y)
        then obtain args r where y: "match_one (ps_optional x) ts = Some (args, r)" by (cases y) auto
        with t whole have r: "take_positionals V xs r (set_arg (ps_dest x) (positional_value V x args) st) = (rest, u)"
          by simp
        have "map_of (p_ns u) (ps_dest x) = Some (positional_value V x args)"
          using take_positionals_frame [OF r x(1)] by simp
        moreover have "suffix (p_left u) xs" using take_positionals_suffix [OF r] by simp
        then have "p_left u \<noteq> x # xs" by (auto dest: suffix_length_le)
        ultimately show ?thesis using positional_path [OF sh y x(2)] Cons by (auto simp: first_ok_def)
      qed
    next
      case False
      then have "suffix (p_left st) xs" using sfx(3) Cons by (simp add: suffix_Cons)
      then have "set (p_left st) \<subseteq> set xs" "suffix (p_left u) xs"
        using set_mono_suffix suffix_order.trans [OF sfx(2)] by blast+
      then have out: "ps_dest x \<notin> ps_dest ` set (p_left st)" "p_left u \<noteq> x # xs"
        using x(1) suffix_length_le [of "p_left u" xs] by auto
      have "\<exists>q. map_of (p_ns st) (ps_dest x) = Some (V_path q)"
        using p False Cons by (auto simp: parsing_def first_ok_def)
      with take_positionals_frame [OF t out(1)] out(2) Cons show ?thesis by (auto simp: first_ok_def)
    qed
  qed
  moreover have "known P rest" using p known_suffix [OF sfx(1)] by (simp add: parsing_def)
  moreover have "suffix (p_left u) (pa_positionals P)" using sfx(2,3) by (rule suffix_order.trans)
  ultimately show ?thesis by (simp add: parsing_def)
qed

lemma parsing_tail: "parsing P (t # ts) st \<Longrightarrow> is_option t \<Longrightarrow> parsing P ts st"
  by (cases t) (auto simp: parsing_def known_def)

lemma consume_parsing: "declared P \<Longrightarrow> parsing P ts st \<Longrightarrow> consume V ts st = Inr u \<Longrightarrow> opts_ok P u \<and> first_ok P u"
proof (induction V ts st arbitrary: u rule: consume.induct)
  case (1 V ts st)
  obtain rest w where w: "take_positionals V (p_left st) ts st = (rest, w)" by fastforce
  note pos = positionals_step [OF 1(4,5) w]
  show ?case
  proof (cases "list_ex is_option ts")
    case False
    with 1(6) w have "u = w\<lparr>p_extras := p_extras w @ map token_text rest\<rparr>" by (simp add: consume.simps [of V ts])
    with pos show ?thesis by (simp add: parsing_def)
  next
    case True
    then obtain t us where ts: "ts = t # us" by (cases ts) auto
    show ?thesis
    proof (cases "is_option t")
      case opt: True
      then obtain s x n e where t: "t = Option s x n e" by (cases t) auto
      obtain r v where r: "take_option V t us st = Inr (r, v)" "consume V r v = Inr u"
        using 1(6) by (auto simp: ts t consume_option split: sum.splits)
      then have "parsing P r v" using option_step [OF 1(4)] 1(5) ts t by blast
      with 1(1) [OF _ _ _ _ 1(4)] r True opt ts show ?thesis by auto
    next
      case word: False
      then have h: "\<not> is_option (hd ts)" using ts by simp
      show ?thesis
      proof (cases "length rest < length ts")
        case lt: True
        then have "consume V rest w = Inr u" using 1(6) True h w by (simp add: consume.simps [of V ts])
        with 1(2) [OF _ _ w [symmetric] lt 1(4) pos] True h show ?thesis by auto
      next
        case ge: False
        let ?w = "w\<lparr>p_extras := p_extras w @ map token_text (takeWhile (\<lambda>t. \<not> is_option t) ts)\<rparr>"
        have same: "rest = ts"
          using ge take_positionals_suffix [OF w] by (auto simp: suffix_def)
        have "consume V (dropWhile (\<lambda>t. \<not> is_option t) ts) ?w = Inr u"
          using 1(6) True h w ge by (simp add: consume.simps [of V ts])
        moreover have "parsing P (dropWhile (\<lambda>t. \<not> is_option t) ts) ?w"
          using pos same shape_dropWhile known_suffix [OF suffix_dropWhile] by (auto simp: parsing_def)
        ultimately show ?thesis using 1(3) [OF _ _ w [symmetric] ge 1(4)] True h by auto
      qed
    qed
  qed
qed

section \<open>Parsed namespaces\<close>

lemma defaults_keys: "map fst (defaults P)
    = map op_dest (filter (\<lambda>a. op_action a \<noteq> Show_help) (pa_opts P)) @ map ps_dest (pa_positionals P)"
  by (simp add: defaults_def)

lemma initial_parsing:
  assumes "declared P" "shape ts" "known P ts"
  shows "parsing P ts (initial P)"
proof -
  have d: "distinct (map fst (defaults P))"
    using assms(1) by (auto simp: defaults_keys declared_def distinct_map_filter)
  have "map_of (defaults P) (op_dest a) = Some (op_default a)"
    if "a \<in> set (pa_opts P)" "op_action a \<noteq> Show_help" for a
    using that by (intro map_of_is_SomeI [OF d]) (auto simp: defaults_def)
  moreover have "map_of (defaults P) (ps_dest p) = Some (ps_default p)" if "p \<in> set (pa_positionals P)" for p
    using that by (intro map_of_is_SomeI [OF d]) (auto simp: defaults_def)
  ultimately show ?thesis using assms(2,3)
    by (auto simp: parsing_def opts_ok_def first_ok_def initial_def split: list.split)
qed

lemma parse_known_typed:
  assumes "declared P" "parse_known V P argv = Inr (ns, extras)"
  shows "list_all (\<lambda>a. op_action a = Show_help \<or> (\<exists>v. map_of ns (op_dest a) = Some v
      \<and> (given_ok a v \<or> (v = op_default a \<and> \<not> op_required a)))) (pa_opts P)
    \<and> (pa_positionals P = [] \<or> (\<exists>q. map_of ns (ps_dest (hd (pa_positionals P))) = Some (V_path q)))"
proof -
  obtain ts st where t: "tokens V P argv = Inr ts" "consume V ts (initial P) = Inr st" "complete P st"
    "ns = p_ns st"
    using assms(2) by (auto simp: parse_known_def split: sum.splits if_splits)
  have ok: "opts_ok P st" "first_ok P st"
    using consume_parsing [OF assms(1) initial_parsing [OF assms(1)] t(2)] tokens_known [OF t(1)] by auto
  have "pa_positionals P = [] \<or> (\<exists>q. map_of ns (ps_dest (hd (pa_positionals P))) = Some (V_path q))"
    using ok(2) t(3,4) assms(1) by (cases "pa_positionals P") (auto simp: first_ok_def complete_def declared_def)
  moreover have "op_action a = Show_help \<or> (\<exists>v. map_of ns (op_dest a) = Some v
      \<and> (given_ok a v \<or> (v = op_default a \<and> \<not> op_required a)))" if "a \<in> set (pa_opts P)" for a
    using that ok(1) t(3,4) by (auto simp: opts_ok_def complete_def list_all_iff split: if_splits)
  ultimately show ?thesis by (simp add: list_all_iff)
qed

end
