(* ===== verification/Cli_Compare.thy ===== *)
theory Cli_Compare
  imports Cli_Stats "HOL-Library.Product_Lexorder"
begin

text \<open>
  \<^verbatim>\<open>cli.py\<close>, the \<^verbatim>\<open>compare\<close> subcommand: two snapshots, each a directory of trajectories or
  the JSON that \<^verbatim>\<open>stats\<close> printed, and the difference of their pass rates task by task. The exit
  code tells whether a task got worse. In a JSON snapshot the task identifiers are strings; any
  other value is taken for the TypeError that an unhashable one raises.
\<close>

section \<open>The code\<close>

record input =
  in_path :: path
  in_exists :: bool
  in_is_file :: bool
  in_text :: "exn + pystr"
  in_is_dir :: bool
  in_files :: "(path \<times> (exn + pystr)) list"

record overall =
  ov_runs :: int
  ov_passed :: int
  ov_rate :: int

type_synonym snapshot = "(pystr \<times> dict) list"

text \<open>\<^verbatim>\<open>int(d.get(key, 0))\<close>.\<close>

definition int_field :: "cenv \<Rightarrow> dict \<Rightarrow> string \<Rightarrow> exn + int" where
  "int_field C d k = py_int C (dict_get d k (JInt 0))"

fun iterate :: "jval \<Rightarrow> exn + jval list" where
  "iterate (JList xs) = Inr xs"
| "iterate (JStr s) = Inr (map (\<lambda>c. JStr [c]) s)"
| "iterate (JObj d) = Inr (map (\<lambda>kv. JStr (fst kv)) d)"
| "iterate _ = Inl Type_Error"

fun row_key :: "jval \<Rightarrow> exn + pystr \<times> dict" where
  "row_key (JObj d) = (case map_of d (lit ''task_id'') of
     None \<Rightarrow> Inl (Key_Error (lit ''task_id'')) | Some (JStr t) \<Rightarrow> Inr (t, d) | Some _ \<Rightarrow> Inl Type_Error)"
| "row_key _ = Inl Type_Error"

fun rows_by_task :: "jval list \<Rightarrow> snapshot \<Rightarrow> exn + snapshot" where
  "rows_by_task [] acc = Inr acc"
| "rows_by_task (r # rs) acc = (case row_key r of
     Inl e \<Rightarrow> Inl e | Inr (t, d) \<Rightarrow> rows_by_task rs (AList.update t d acc))"

definition load_json :: "cenv \<Rightarrow> pystr \<Rightarrow> exn + snapshot \<times> overall" where
  "load_json C content = (case e_loads C content of
     None \<Rightarrow> Inl Json_Decode_Error
   | Some (JObj payload) \<Rightarrow>
       (case iterate (dict_get payload ''by_task'' (JList [])) of Inl e \<Rightarrow> Inl e | Inr rows \<Rightarrow>
       (case rows_by_task rows [] of Inl e \<Rightarrow> Inl e | Inr by_task \<Rightarrow>
       (case int_field C payload ''total_runs'' of Inl e \<Rightarrow> Inl e | Inr runs \<Rightarrow>
       (case int_field C payload ''total_passed'' of Inl e \<Rightarrow> Inl e | Inr passed \<Rightarrow>
       (case int_field C payload ''pass_rate'' of Inl e \<Rightarrow> Inl e | Inr rate \<Rightarrow>
         Inr (by_task, \<lparr>ov_runs = runs, ov_passed = passed, ov_rate = rate\<rparr>))))))
   | Some _ \<Rightarrow> Inl Attribute_Error)"

definition overall_of :: "run_summary list \<Rightarrow> overall" where
  "overall_of runs = (let m = overall_metrics runs in
     if runs = [] then \<lparr>ov_runs = 0, ov_passed = 0, ov_rate = 0\<rparr>
     else \<lparr>ov_runs = int (me_runs m), ov_passed = int (me_passed m), ov_rate = int (me_rate m)\<rparr>)"

definition rows_snapshot :: "cenv \<Rightarrow> run_summary list \<Rightarrow> snapshot" where
  "rows_snapshot C runs = foldl (\<lambda>acc r. AList.update (ro_task r) (row_dict C r) acc) []
     (if runs = [] then [] else per_task_rows runs)"

definition load_snapshot :: "cenv \<Rightarrow> input \<Rightarrow> exn + snapshot \<times> overall" where
  "load_snapshot C i =
     (if \<not> in_exists i then Inl (File_Not_Found (lit ''compare: input not found: '' @ path_str (in_path i)))
      else if in_is_file i then (case in_text i of Inl e \<Rightarrow> Inl e | Inr content \<Rightarrow> load_json C content)
      else if in_is_dir i then (case collect C None (sort_key fst (in_files i)) of
          Inl e \<Rightarrow> Inl e | Inr runs \<Rightarrow> Inr (rows_snapshot C runs, overall_of runs))
      else Inl (File_Not_Found (lit ''compare: not a file or directory: '' @ path_str (in_path i))))"

datatype diff_status = Regression | Improvement | Unchanged | New | Dropped

fun diff_status_str :: "diff_status \<Rightarrow> string" where
  "diff_status_str Regression = ''regression''"
| "diff_status_str Improvement = ''improvement''"
| "diff_status_str Unchanged = ''unchanged''"
| "diff_status_str New = ''new''"
| "diff_status_str Dropped = ''dropped''"

definition DIFF_STATUSES :: "diff_status list" where
  "DIFF_STATUSES = [Regression, Improvement, Unchanged, New, Dropped]"

fun order_of :: "diff_status \<Rightarrow> nat" where
  "order_of Regression = 0"
| "order_of Improvement = 1"
| "order_of Unchanged = 2"
| "order_of New = 3"
| "order_of Dropped = 4"

text \<open>The order of the report is an order on the statuses: regressions surface first.\<close>

instantiation diff_status :: linorder
begin

definition less_eq_diff_status :: "diff_status \<Rightarrow> diff_status \<Rightarrow> bool" where
  "less_eq_diff_status a b \<longleftrightarrow> order_of a \<le> order_of b"

definition less_diff_status :: "diff_status \<Rightarrow> diff_status \<Rightarrow> bool" where
  "less_diff_status a b \<longleftrightarrow> order_of a < order_of b"

instance
proof
  fix a b :: diff_status
  show "a \<le> b \<Longrightarrow> b \<le> a \<Longrightarrow> a = b"
    by (cases a; cases b) (simp_all add: less_eq_diff_status_def)
qed (auto simp: less_eq_diff_status_def less_diff_status_def)

end

record diff =
  df_task :: pystr
  df_status :: diff_status
  df_a :: "dict option"
  df_b :: "dict option"
  df_delta :: "int option"

definition moved :: "int \<Rightarrow> diff_status" where
  "moved delta = (if delta < 0 then Regression else if 0 < delta then Improvement else Unchanged)"

definition diff_task :: "cenv \<Rightarrow> snapshot \<Rightarrow> snapshot \<Rightarrow> pystr \<Rightarrow> exn + diff" where
  "diff_task C a b t = (case (map_of a t, map_of b t) of
     (None, rb) \<Rightarrow> Inr \<lparr>df_task = t, df_status = New, df_a = None, df_b = rb, df_delta = None\<rparr>
   | (ra, None) \<Rightarrow> Inr \<lparr>df_task = t, df_status = Dropped, df_a = ra, df_b = None, df_delta = None\<rparr>
   | (Some ra, Some rb) \<Rightarrow>
       (case int_field C rb ''pass_rate'' of Inl e \<Rightarrow> Inl e | Inr nb \<Rightarrow>
       (case int_field C ra ''pass_rate'' of Inl e \<Rightarrow> Inl e | Inr na \<Rightarrow>
         Inr \<lparr>df_task = t, df_status = moved (nb - na), df_a = Some ra, df_b = Some rb, df_delta = Some (nb - na)\<rparr>)))"

fun diff_tasks :: "cenv \<Rightarrow> snapshot \<Rightarrow> snapshot \<Rightarrow> pystr list \<Rightarrow> exn + diff list" where
  "diff_tasks C a b [] = Inr []"
| "diff_tasks C a b (t # ts) = (case diff_task C a b t of Inl e \<Rightarrow> Inl e | Inr d \<Rightarrow>
     (case diff_tasks C a b ts of Inl e \<Rightarrow> Inl e | Inr ds \<Rightarrow> Inr (d # ds)))"

definition diff_snapshots :: "cenv \<Rightarrow> snapshot \<Rightarrow> snapshot \<Rightarrow> exn + diff list" where
  "diff_snapshots C a b = diff_tasks C a b (sort (remdups (map fst a @ map fst b)))"

subsection \<open>Output\<close>

definition opt_dict :: "dict option \<Rightarrow> jval" where
  "opt_dict d = (case d of None \<Rightarrow> JNull | Some x \<Rightarrow> JObj x)"

definition diff_dict :: "diff \<Rightarrow> jval" where
  "diff_dict d = JObj
     [(lit ''task_id'', JStr (df_task d)), (lit ''status'', JStr (lit (diff_status_str (df_status d)))),
      (lit ''a'', opt_dict (df_a d)), (lit ''b'', opt_dict (df_b d)),
      (lit ''delta_pass_rate'', case df_delta d of None \<Rightarrow> JNull | Some n \<Rightarrow> JInt n)]"

definition overall_dict :: "overall \<Rightarrow> jval" where
  "overall_dict v = JObj [(lit ''total_runs'', JInt (ov_runs v)), (lit ''total_passed'', JInt (ov_passed v)),
     (lit ''pass_rate'', JInt (ov_rate v))]"

definition bucket :: "diff list \<Rightarrow> diff_status \<Rightarrow> jval" where
  "bucket ds st = str_list (map df_task (filter (\<lambda>d. df_status d = st) ds))"

definition compare_payload :: "diff list \<Rightarrow> overall \<Rightarrow> overall \<Rightarrow> dict" where
  "compare_payload ds a b =
     [(lit ''a'', overall_dict a), (lit ''b'', overall_dict b),
      (lit ''overall_delta_pass_rate'', JInt (ov_rate b - ov_rate a)),
      (lit ''regressions'', bucket ds Regression), (lit ''improvements'', bucket ds Improvement),
      (lit ''unchanged'', bucket ds Unchanged), (lit ''new'', bucket ds New),
      (lit ''dropped'', bucket ds Dropped), (lit ''by_task'', JList (map diff_dict ds))]"

definition fmt_rate_with_runs :: "cenv \<Rightarrow> dict option \<Rightarrow> exn + pystr" where
  "fmt_rate_with_runs C r = (case r of None \<Rightarrow> Inr (lit ''N/A'') | Some d \<Rightarrow>
     (case int_field C d ''pass_rate'' of Inl e \<Rightarrow> Inl e | Inr rate \<Rightarrow>
     (case int_field C d ''runs'' of Inl e \<Rightarrow> Inl e | Inr n \<Rightarrow>
        Inr (py_str_int rate @ lit ''% ('' @ py_str_int n @ lit '')''))))"

definition signed :: "int \<Rightarrow> pystr" where
  "signed n = (if n < 0 then py_str_int n else lit ''+'' @ py_str_int n)"

definition diff_line :: "cenv \<Rightarrow> nat \<Rightarrow> diff \<Rightarrow> exn + pystr" where
  "diff_line C w d =
     (case fmt_rate_with_runs C (df_a d) of Inl e \<Rightarrow> Inl e | Inr a \<Rightarrow>
     (case fmt_rate_with_runs C (df_b d) of Inl e \<Rightarrow> Inl e | Inr b \<Rightarrow>
        Inr (lit ''  '' @ pad_right w (df_task d) @ lit ''  '' @ pad_left 11 a @ lit ''  '' @ pad_left 11 b
          @ lit ''  '' @ pad_left 7 (case df_delta d of None \<Rightarrow> lit ''-'' | Some n \<Rightarrow> signed n @ lit ''%'')
          @ lit ''  '' @ lit (diff_status_str (df_status d)))))"

fun diff_lines :: "cenv \<Rightarrow> nat \<Rightarrow> diff list \<Rightarrow> exn + pystr list" where
  "diff_lines C w [] = Inr []"
| "diff_lines C w (d # ds) = (case diff_line C w d of Inl e \<Rightarrow> Inl e | Inr l \<Rightarrow>
     (case diff_lines C w ds of Inl e \<Rightarrow> Inl e | Inr ls \<Rightarrow> Inr (l # ls)))"

definition overall_line :: "string \<Rightarrow> overall \<Rightarrow> pystr" where
  "overall_line name v = lit ''  '' @ lit name @ lit '': '' @ py_str_int (ov_passed v) @ lit ''/''
     @ py_str_int (ov_runs v) @ lit '' ('' @ py_str_int (ov_rate v) @ lit ''%)''"

definition tally_line :: "diff list \<Rightarrow> pystr" where
  "tally_line ds = (let parts = List.map_filter (\<lambda>st.
       let n = count_if (\<lambda>d. df_status d = st) ds in
       if n = 0 then None else Some (nat_text n @ lit '' '' @ lit (diff_status_str st))) DIFF_STATUSES in
     lit ''Tasks: '' @ (if parts = [] then lit ''(no differences)'' else py_join (lit '', '') parts))"

definition print_diff :: "cenv \<Rightarrow> diff list \<Rightarrow> overall \<Rightarrow> overall \<Rightarrow> exn + pystr list" where
  "print_diff C ds a b =
     (if ds = [] then Inr [lit ''no tasks in either snapshot.'']
      else let w = foldl max 4 (map (\<lambda>d. length (df_task d)) ds) in
        (case diff_lines C w (sort_key (\<lambda>d. (df_status d, df_task d)) ds) of
           Inl e \<Rightarrow> Inl e
         | Inr ls \<Rightarrow> Inr ((lit ''  '' @ pad_right w (lit ''task'') @ lit ''  '' @ pad_left 11 (lit ''A'')
                @ lit ''  '' @ pad_left 11 (lit ''B'') @ lit ''  '' @ pad_left 7 (lit ''delta'') @ lit ''  status'')
             # ls @ [[], lit ''Overall:'', overall_line ''A'' a, overall_line ''B'' b,
                lit ''  delta: '' @ signed (ov_rate b - ov_rate a) @ lit ''%'', [], tally_line ds])))"

fun is_missing :: "exn \<Rightarrow> bool" where
  "is_missing (File_Not_Found m) = True"
| "is_missing _ = False"

definition cmd_compare :: "cenv \<Rightarrow> input \<Rightarrow> input \<Rightarrow> bool \<Rightarrow> exn + int \<times> pystr list" where
  "cmd_compare C x y json =
     (case (case load_snapshot C x of Inl e \<Rightarrow> Inl e | Inr a \<Rightarrow>
             (case load_snapshot C y of Inl e \<Rightarrow> Inl e | Inr b \<Rightarrow> Inr (a, b))) of
        Inl e \<Rightarrow> if is_missing e then Inr (2, []) else Inl e
      | Inr ((a, oa), (b, ob)) \<Rightarrow> (case diff_snapshots C a b of
          Inl e \<Rightarrow> Inl e
        | Inr ds \<Rightarrow> (case (if json then Inr [json_dumps 0 (JObj (compare_payload ds oa ob))]
                            else print_diff C ds oa ob) of
            Inl e \<Rightarrow> Inl e
          | Inr out \<Rightarrow> Inr (if \<exists>d\<in>set ds. df_status d = Regression then 1 else 0, out))))"


section \<open>Differences\<close>

lemma diff_tasks_Inr:
  "diff_tasks C a b ts = Inr ds \<longleftrightarrow> list_all2 (\<lambda>t d. diff_task C a b t = Inr d) ts ds"
proof (induction ts arbitrary: ds)
  case Nil
  then show ?case by auto
next
  case (Cons t ts)
  show ?case by (cases ds) (auto simp: Cons.IH [symmetric] split: sum.splits)
qed

lemma diff_task_regression:
  "diff_task C a b t = Inr d \<Longrightarrow> df_status d = Regression \<longleftrightarrow>
     (\<exists>ra rb na nb. map_of a t = Some ra \<and> map_of b t = Some rb
        \<and> int_field C ra ''pass_rate'' = Inr na \<and> int_field C rb ''pass_rate'' = Inr nb \<and> nb < na)"
  by (auto simp: diff_task_def moved_def split: option.splits sum.splits if_splits)

lemma snapshot_tasks: "t \<in> set (sort (remdups (map fst a @ map fst b))) \<longleftrightarrow> map_of a t \<noteq> None \<or> map_of b t \<noteq> None"
  by (simp add: map_of_eq_None_iff)

lemma regression_iff:
  assumes "diff_snapshots C a b = Inr ds"
  shows "(\<exists>d\<in>set ds. df_status d = Regression) \<longleftrightarrow>
    (\<exists>t ra rb na nb. map_of a t = Some ra \<and> map_of b t = Some rb
        \<and> int_field C ra ''pass_rate'' = Inr na \<and> int_field C rb ''pass_rate'' = Inr nb \<and> nb < na)"
    (is "?L \<longleftrightarrow> ?R")
proof -
  have l: "list_all2 (\<lambda>t d. diff_task C a b t = Inr d) (sort (remdups (map fst a @ map fst b))) ds"
    using assms by (simp add: diff_snapshots_def diff_tasks_Inr)
  show ?thesis
  proof
    assume ?L
    then obtain i where i: "i < length ds" "df_status (ds ! i) = Regression" by (auto simp: in_set_conv_nth)
    then show ?R using diff_task_regression list_all2_nthD2 [OF l i(1)] by blast
  next
    assume ?R
    then obtain t ra rb na nb where t: "map_of a t = Some ra" "map_of b t = Some rb"
      "int_field C ra ''pass_rate'' = Inr na" "int_field C rb ''pass_rate'' = Inr nb" "nb < na" by blast
    then have "t \<in> set (sort (remdups (map fst a @ map fst b)))" by (subst snapshot_tasks) simp
    then obtain i where i: "i < length (sort (remdups (map fst a @ map fst b)))"
      "sort (remdups (map fst a @ map fst b)) ! i = t" by (metis in_set_conv_nth)
    then have "diff_task C a b t = Inr (ds ! i)" using list_all2_nthD [OF l i(1)] by simp
    moreover have "ds ! i \<in> set ds" using i(1) list_all2_lengthD [OF l] by simp
    ultimately show ?L using diff_task_regression [of C a b t "ds ! i"] t by blast
  qed
qed

lemma cmd_compare_Inr:
  assumes "load_snapshot C x = Inr (a, oa)" "load_snapshot C y = Inr (b, ob)" "cmd_compare C x y json = Inr (code, out)"
  obtains ds where "diff_snapshots C a b = Inr ds" "code = (if \<exists>d\<in>set ds. df_status d = Regression then 1 else 0)"
  using assms by (auto simp: cmd_compare_def split: sum.splits)

section \<open>Snapshots in both forms\<close>

lemma rows_by_task_dicts:
  "rows_by_task (map (\<lambda>r. JObj (row_dict C r)) rows) acc
     = Inr (foldl (\<lambda>acc r. AList.update (ro_task r) (row_dict C r) acc) acc rows)"
  by (induction rows arbitrary: acc) (simp_all add: row_dict_def)

lemma load_json_stats:
  assumes "e_loads C content = Some (JObj (if runs = [] then empty_stats_payload else stats_payload C runs))"
  shows "load_json C content = Inr (rows_snapshot C runs, overall_of runs)"
proof (cases "runs = []")
  case True
  with assms show ?thesis
    by (simp add: load_json_def empty_stats_payload_def dict_get_def int_field_def rows_snapshot_def overall_of_def)
next
  case False
  with assms show ?thesis
    by (simp add: load_json_def stats_payload_def metrics_dict_def dict_get_def rows_by_task_dicts
        int_field_def nat_json_def rows_snapshot_def overall_of_def Let_def)
qed

lemma rows_snapshot_rates:
  "map_of (rows_snapshot C runs) t = Some d \<Longrightarrow> \<exists>r. d = row_dict C r"
proof -
  let ?I = "\<lambda>acc. \<forall>t d. map_of acc t = Some d \<longrightarrow> (\<exists>r. d = row_dict C r)"
  have "?I acc \<Longrightarrow> ?I (foldl (\<lambda>acc r. AList.update (ro_task r) (row_dict C r) acc) acc rows)" for acc rows
  proof (induction rows arbitrary: acc)
    case (Cons r rows)
    have "?I (AList.update (ro_task r) (row_dict C r) acc)"
      using Cons.prems by (auto simp: update_conv' split: if_splits)
    then show ?case by (simp add: Cons.IH)
  qed simp
  from this [of "[]"] show "map_of (rows_snapshot C runs) t = Some d \<Longrightarrow> \<exists>r. d = row_dict C r"
    by (simp add: rows_snapshot_def)
qed

lemma rate_of_row: "int_field C (row_dict C r) ''pass_rate'' = Inr (int (ro_rate r))"
  "int_field C (row_dict C r) ''runs'' = Inr (int (ro_runs r))"
  by (simp_all add: int_field_def row_dict_def dict_get_def nat_json_def)

lemma self_diff:
  assumes "\<And>t d. map_of a t = Some d \<Longrightarrow> \<exists>r. d = row_dict C r"
  shows "\<exists>ds. diff_snapshots C a a = Inr ds \<and> list_all (\<lambda>d. df_status d = Unchanged) ds
    \<and> list_all (\<lambda>d. \<exists>r. df_a d = Some (row_dict C r) \<and> df_b d = Some (row_dict C r)) ds"
proof -
  have "\<exists>ds. diff_tasks C a a ts = Inr ds \<and> list_all (\<lambda>d. df_status d = Unchanged) ds
      \<and> list_all (\<lambda>d. \<exists>r. df_a d = Some (row_dict C r) \<and> df_b d = Some (row_dict C r)) ds"
    if "list_all (\<lambda>t. map_of a t \<noteq> None) ts" for ts
    using that
  proof (induction ts)
    case (Cons t ts)
    obtain d where d: "map_of a t = Some d" using Cons.prems by auto
    obtain r where "d = row_dict C r" using assms [OF d] by blast
    then have "diff_task C a a t = Inr \<lparr>df_task = t, df_status = Unchanged, df_a = Some (row_dict C r),
        df_b = Some (row_dict C r), df_delta = Some 0\<rparr>"
      using d by (simp add: diff_task_def rate_of_row moved_def)
    then show ?case using Cons by auto
  qed simp
  moreover have "list_all (\<lambda>t. map_of a t \<noteq> None) (sort (remdups (map fst a @ map fst a)))"
    unfolding list_all_iff using snapshot_tasks [of _ a a] by blast
  ultimately show ?thesis unfolding diff_snapshots_def by blast
qed

lemma diff_lines_rows:
  "list_all (\<lambda>d. \<exists>r. df_a d = Some (row_dict C r) \<and> df_b d = Some (row_dict C r)) ds
     \<Longrightarrow> \<exists>ls. diff_lines C w ds = Inr ls"
  by (induction ds) (auto simp: diff_line_def fmt_rate_with_runs_def rate_of_row)

lemma print_diff_rows:
  assumes "list_all (\<lambda>d. \<exists>r. df_a d = Some (row_dict C r) \<and> df_b d = Some (row_dict C r)) ds"
  shows "\<exists>out. print_diff C ds v u = Inr out"
proof -
  let ?s = "sort_key (\<lambda>d. (df_status d, df_task d)) ds"
  have "list_all (\<lambda>d. \<exists>r. df_a d = Some (row_dict C r) \<and> df_b d = Some (row_dict C r)) ?s"
    using assms by (simp add: list_all_iff)
  then obtain ls where "diff_lines C (foldl max 4 (map (\<lambda>d. length (df_task d)) ds)) ?s = Inr ls"
    using diff_lines_rows by blast
  then show ?thesis by (simp add: print_diff_def Let_def)
qed

lemma self_compare:
  assumes "load_snapshot C x = Inr (rows_snapshot C runs, overall_of runs)"
    "load_snapshot C y = Inr (rows_snapshot C runs, overall_of runs)"
  shows "\<exists>out. cmd_compare C x y json = Inr (0, out)"
proof -
  obtain ds where ds: "diff_snapshots C (rows_snapshot C runs) (rows_snapshot C runs) = Inr ds"
    "list_all (\<lambda>d. df_status d = Unchanged) ds"
    "list_all (\<lambda>d. \<exists>r. df_a d = Some (row_dict C r) \<and> df_b d = Some (row_dict C r)) ds"
    using self_diff [of "rows_snapshot C runs" C] rows_snapshot_rates by blast
  obtain out where "(if json then Inr [json_dumps 0 (JObj (compare_payload ds (overall_of runs) (overall_of runs)))]
      else print_diff C ds (overall_of runs) (overall_of runs)) = Inr out"
    using print_diff_rows [OF ds(3)] by (cases json) auto
  moreover have "\<not> (\<exists>d\<in>set ds. df_status d = Regression)" using ds(2) by (auto simp: list_all_iff)
  ultimately show ?thesis using assms ds(1) by (simp add: cmd_compare_def)
qed


section \<open>A concrete instance\<close>

definition cli_env :: cenv where
  "cli_env = env.extend (json_env (e_clock demo_env) (\<lambda>_. [])) \<lparr>c_quote = (\<lambda>s. s), c_ftrue = (\<lambda>_. True),
     c_fromiso = (\<lambda>_. None), c_round1 = (\<lambda>_. lit ''0.0'')\<rparr>"

lemma cli_env_sel [simp]: "c_round1 cli_env = (\<lambda>_. lit ''0.0'')" "c_quote cli_env = (\<lambda>s. s)"
  "e_lax_int cli_env = (\<lambda>v. case v of JInt n \<Rightarrow> Some n | _ \<Rightarrow> None)" "e_dump cli_env = json_line"
  "e_loads cli_env = json_loads"
  by (simp_all add: cli_env_def env.defs json_env_def)

definition cli_runs :: "run_summary list" where
  "cli_runs = [(blank_summary [lit ''f.jsonl'']), (blank_summary [lit ''g.jsonl''])]"

definition cli_text :: pystr where
  "cli_text = json_dumps 0 (JObj (stats_payload cli_env cli_runs))"

definition cli_venv :: cenv where
  "cli_venv = cli_env\<lparr>e_loads := (\<lambda>l. if l = cli_text then Some (JObj (stats_payload cli_env cli_runs)) else None)\<rparr>"

lemma cli_venv_payload: "stats_payload cli_venv runs = stats_payload cli_env runs"
  by (simp add: stats_payload_def row_dict_def cli_venv_def)

definition cli_dir :: input where
  "cli_dir = \<lparr>in_path = [], in_exists = True, in_is_file = False, in_text = Inr [], in_is_dir = True,
     in_files = [([lit ''f.jsonl''], Inr []), ([lit ''g.jsonl''], Inr [])]\<rparr>"

definition cli_file :: input where
  "cli_file = \<lparr>in_path = [], in_exists = True, in_is_file = True, in_text = Inr cli_text, in_is_dir = False,
     in_files = []\<rparr>"

lemma cli_collect: "collect cli_venv None (sort_key fst (in_files cli_dir)) = Inr cli_runs"
proof -
  have "read_events cli_venv (Inr []) = Inr []"
    by (simp add: read_events_def read_trajectory_def stripped_lines_def)
  moreover have "summarize cli_venv p [] = Inr (blank_summary p)" for p
    by (simp add: summarize_def duration_def blank_summary_def)
  ultimately show ?thesis by (simp add: cli_dir_def cli_runs_def lit_def)
qed

lemma cli_loads: "e_loads cli_venv cli_text
    = Some (JObj (if cli_runs = [] then empty_stats_payload else stats_payload cli_venv cli_runs))"
  by (simp add: cli_venv_payload) (simp add: cli_venv_def cli_runs_def)

section \<open>Properties\<close>

text \<open>C23. The exit code of a comparison is 1 exactly when some task that is in both snapshots has a
  lower pass rate in the second, and 0 otherwise; new and dropped tasks do not count.\<close>

theorem compare_exit_code:
  assumes "load_snapshot C x = Inr (a, oa)" "load_snapshot C y = Inr (b, ob)"
    and "cmd_compare C x y json = Inr (code, out)"
  shows "(code = 0 \<or> code = 1) \<and> (code = 1 \<longleftrightarrow>
    (\<exists>t ra rb na nb. map_of a t = Some ra \<and> map_of b t = Some rb
        \<and> int_field C ra ''pass_rate'' = Inr na \<and> int_field C rb ''pass_rate'' = Inr nb \<and> nb < na))"
proof -
  obtain ds where "diff_snapshots C a b = Inr ds"
    "code = (if \<exists>d\<in>set ds. df_status d = Regression then 1 else 0)"
    using assms by (rule cmd_compare_Inr)
  with regression_iff [of C a b ds] show ?thesis by auto
qed

definition cli_rates :: cenv where
  "cli_rates = cli_env\<lparr>e_loads := (\<lambda>l. Some (JObj [(lit ''by_task'', JList [JObj
     [(lit ''task_id'', JStr (lit ''t'')), (lit ''pass_rate'', JInt (int (length l)))]])]))\<rparr>"

theorem compare_exit_code_witness:
  "((1::int) = 0 \<or> (1::int) = 1) \<and> ((1::int) = 1 \<longleftrightarrow>
    (\<exists>t ra rb na nb. map_of [(lit ''t'', [(lit ''task_id'', JStr (lit ''t'')), (lit ''pass_rate'', JInt 2)])] t = Some ra
        \<and> map_of [(lit ''t'', [(lit ''task_id'', JStr (lit ''t'')), (lit ''pass_rate'', JInt 1)])] t = Some rb
        \<and> int_field cli_rates ra ''pass_rate'' = Inr na \<and> int_field cli_rates rb ''pass_rate'' = Inr nb \<and> nb < na))"
proof (rule compare_exit_code)
  let ?f = "\<lambda>s. cli_file\<lparr>in_text := Inr s\<rparr>"
  have l: "load_snapshot cli_rates (?f s) = Inr ([(lit ''t'', [(lit ''task_id'', JStr (lit ''t'')),
      (lit ''pass_rate'', JInt (int (length s)))])], \<lparr>ov_runs = 0, ov_passed = 0, ov_rate = 0\<rparr>)" for s
    by (simp add: load_snapshot_def cli_file_def load_json_def cli_rates_def dict_get_def int_field_def)
  show "load_snapshot cli_rates (?f [0, 0]) = Inr ([(lit ''t'', [(lit ''task_id'', JStr (lit ''t'')),
      (lit ''pass_rate'', JInt 2)])], \<lparr>ov_runs = 0, ov_passed = 0, ov_rate = 0\<rparr>)" by (simp add: l)
  show "load_snapshot cli_rates (?f [0]) = Inr ([(lit ''t'', [(lit ''task_id'', JStr (lit ''t'')),
      (lit ''pass_rate'', JInt 1)])], \<lparr>ov_runs = 0, ov_passed = 0, ov_rate = 0\<rparr>)" by (simp add: l)
  show "cmd_compare cli_rates (?f [0, 0]) (?f [0]) True = Inr (1, [json_dumps 0 (JObj (compare_payload
      [\<lparr>df_task = lit ''t'', df_status = Regression,
        df_a = Some [(lit ''task_id'', JStr (lit ''t'')), (lit ''pass_rate'', JInt 2)],
        df_b = Some [(lit ''task_id'', JStr (lit ''t'')), (lit ''pass_rate'', JInt 1)], df_delta = Some (- 1)\<rparr>]
      \<lparr>ov_runs = 0, ov_passed = 0, ov_rate = 0\<rparr> \<lparr>ov_runs = 0, ov_passed = 0, ov_rate = 0\<rparr>))])"
    by (simp add: cmd_compare_def l diff_snapshots_def diff_task_def int_field_def dict_get_def moved_def)
qed

text \<open>C15. What \<^verbatim>\<open>stats --json\<close> prints for a directory is a snapshot of it: loaded back, it is the
  snapshot the directory itself gives, task rows and totals, so that comparing a directory
  with its own saved statistics, either way round, finds nothing changed and exits with 0.\<close>

theorem stats_json_is_a_snapshot:
  assumes "collect C None (sort_key fst (in_files d)) = Inr runs"
    and "in_exists d" "\<not> in_is_file d" "in_is_dir d" "in_files d \<noteq> []"
    and "e_loads C content = Some (JObj (if runs = [] then empty_stats_payload else stats_payload C runs))"
    and "in_exists f" "in_is_file f" "in_text f = Inr content"
  shows "load_snapshot C f = load_snapshot C d
    \<and> (\<exists>out. cmd_compare C f d json = Inr (0, out)) \<and> (\<exists>out. cmd_compare C d f json = Inr (0, out))
    \<and> cmd_stats C \<lparr>co_path = in_path d, co_exists = True, co_is_dir = True, co_files = in_files d\<rparr> None True
      = Inr (0, [json_dumps 0 (JObj (if runs = [] then empty_stats_payload else stats_payload C runs))])"
proof -
  have d: "load_snapshot C d = Inr (rows_snapshot C runs, overall_of runs)"
    using assms(1-4) by (simp add: load_snapshot_def)
  have f: "load_snapshot C f = Inr (rows_snapshot C runs, overall_of runs)"
    using assms(6-9) load_json_stats by (simp add: load_snapshot_def)
  show ?thesis using self_compare [OF d f] self_compare [OF f d] d f assms(1,5) by (simp add: cmd_stats_def)
qed

theorem stats_json_is_a_snapshot_witness:
  "load_snapshot cli_venv cli_file = load_snapshot cli_venv cli_dir
    \<and> (\<exists>out. cmd_compare cli_venv cli_file cli_dir True = Inr (0, out))
    \<and> (\<exists>out. cmd_compare cli_venv cli_dir cli_file True = Inr (0, out))
    \<and> cmd_stats cli_venv \<lparr>co_path = in_path cli_dir, co_exists = True, co_is_dir = True, co_files = in_files cli_dir\<rparr> None True
      = Inr (0, [json_dumps 0 (JObj (if cli_runs = [] then empty_stats_payload else stats_payload cli_venv cli_runs))])"
  by (rule stats_json_is_a_snapshot [OF cli_collect _ _ _ _ cli_loads]) (simp_all add: cli_dir_def cli_file_def)

end
