(* ===== verification/Cli_Inspect.thy ===== *)
theory Cli_Inspect
  imports Cli_Batch Runner_Props
begin

text \<open>
  \<^verbatim>\<open>cli.py\<close>, the \<^verbatim>\<open>run\<close> and \<^verbatim>\<open>inspect\<close> subcommands: one headless run, and the rendering of a
  trajectory for people. How \<^verbatim>\<open>textwrap.wrap\<close> breaks a thought is a parameter. The property
  ties the readers of a trajectory together: inspect, stats and batch tell the same outcome of a
  run as its exit code.
\<close>

section \<open>The code\<close>

subsection \<open>run\<close>

definition result_lines :: "run_result \<Rightarrow> pystr list" where
  "result_lines r =
     [lit ''task:        '' @ rr_task_id r,
      lit ''status:      '' @ lit (status_str (rr_status r)),
      lit ''reason:      '' @ rr_reason r,
      lit ''trajectory:  '' @ path_str (rr_trajectory_path r),
      lit ''container:   '' @ (case rr_container_id r of None \<Rightarrow> lit ''None'' | Some c \<Rightarrow> c)]"

definition cmd_run :: "'e senv_scheme \<Rightarrow> taskdir \<Rightarrow> path \<Rightarrow> path \<Rightarrow> pystr list option
    \<Rightarrow> ('z sstate_scheme, int \<times> pystr list) py" where
  "cmd_run E D p root cmds = (case load_task D p of
     Inl e \<Rightarrow> raise e
   | Inr task \<Rightarrow> bind (run E task root None (if cmds = Some [] then None else cmds)) (\<lambda>r.
       ret (if rr_status r = PASSED then 0 else 1, result_lines r)))"

subsection \<open>inspect\<close>

text \<open>\<^verbatim>\<open>str.splitlines()\<close>: a line ends at a line boundary, CR LF being one, and the text after the last
  boundary is a line if it is not empty.\<close>

definition line_boundary :: "codepoint \<Rightarrow> bool" where
  "line_boundary c \<longleftrightarrow> (10 \<le> c \<and> c \<le> 13) \<or> (28 \<le> c \<and> c \<le> 30) \<or> c = 133 \<or> c = 8232 \<or> c = 8233"

fun splitlines :: "pystr \<Rightarrow> pystr \<Rightarrow> pystr list" where
  "splitlines acc [] = (if acc = [] then [] else [acc])"
| "splitlines acc (c # s) =
     (if c = 13 \<and> s \<noteq> [] \<and> hd s = 10 then acc # splitlines [] (tl s)
      else if line_boundary c then acc # splitlines [] s
      else splitlines (acc @ [c]) s)"

definition short_ts :: "pystr \<Rightarrow> pystr" where
  "short_ts ts = (if 19 \<le> length ts then take 8 (drop 11 ts) else ts)"

definition prefix_of :: "trajectory_event \<Rightarrow> pystr" where
  "prefix_of e = lit ''['' @ pad_left 3 (py_str_int (ev_seq e)) @ lit ''] '' @ short_ts (ev_ts e) @ lit '' ''"

definition shown :: "cenv \<Rightarrow> trajectory_event \<Rightarrow> string \<Rightarrow> jval \<Rightarrow> pystr" where
  "shown C e k d = py_str (c_quote C) (dict_get (ev_data e) k d)"

definition one_line :: "bool \<Rightarrow> int \<Rightarrow> pystr \<Rightarrow> pystr" where
  "one_line full n s = (let t = replace_all [10] (lit [CHR 0x5C, CHR ''n'']) s in if full then t else clip t n)"

definition format_command :: "cenv \<Rightarrow> bool \<Rightarrow> trajectory_event \<Rightarrow> pystr list" where
  "format_command C full e =
     (prefix_of e @ pad_right 15 (lit (event_type_str (ev_type e))) @ lit ''  ('' @ shown C e ''duration_ms'' (JInt 0)
        @ lit ''ms)  '' @ one_line full 80 (shown C e ''cmd'' (JStr [])) @ lit ''  -> exit ''
        @ shown C e ''exit_code'' (JStr (lit ''?'')))
     # List.map_filter (\<lambda>name. let val = shown C e name (JStr []) in
         if val = [] then None else Some (lit ''        '' @ lit name @ lit '': '' @ one_line full 200 val))
         [''stdout'', ''stderr'']"

definition format_thought :: "cenv \<Rightarrow> (pystr \<Rightarrow> pystr list) \<Rightarrow> bool \<Rightarrow> trajectory_event \<Rightarrow> pystr list" where
  "format_thought C wrap full e =
     (let thought = shown C e ''thought'' (JStr []);
          ls = (if full then splitlines [] thought else wrap thought)
      in (prefix_of e @ lit ''agent_thought'') # map (\<lambda>l. lit ''        | '' @ l) (if ls = [] then [[]] else ls))"

definition network_disp :: "cenv \<Rightarrow> jval \<Rightarrow> pystr" where
  "network_disp C net = py_str (c_quote C) (case net of JObj d \<Rightarrow> dict_get d ''mode'' net | _ \<Rightarrow> net)"

definition format_event :: "cenv \<Rightarrow> (pystr \<Rightarrow> pystr list) \<Rightarrow> bool \<Rightarrow> trajectory_event \<Rightarrow> pystr list" where
  "format_event C wrap full e = (case ev_type e of
     Run_started \<Rightarrow> [prefix_of e @ lit ''run_started      task='' @ shown C e ''task_id'' JNull
        @ lit ''  image='' @ shown C e ''image'' JNull
        @ lit ''  network='' @ network_disp C (dict_get (ev_data e) ''network'' JNull)]
   | Setup_command \<Rightarrow> format_command C full e
   | Agent_command \<Rightarrow> format_command C full e
   | Verify_command \<Rightarrow> format_command C full e
   | Agent_thought \<Rightarrow> format_thought C wrap full e
   | Egress_attempt \<Rightarrow> [prefix_of e @ lit ''egress_attempt   ''
        @ lit (if truthy (c_ftrue C) (dict_get (ev_data e) ''allowed'' JNull) then ''ALLOWED'' else ''DENIED '')
        @ lit ''  '' @ shown C e ''host'' JNull @ lit '':'' @ shown C e ''port'' JNull
        @ lit ''  ('' @ shown C e ''duration_ms'' (JInt 0) @ lit ''ms)  '' @ shown C e ''reason'' (JStr [])]
   | Run_finished \<Rightarrow> [prefix_of e @ lit ''run_finished     '' @ shown C e ''result'' (JStr (lit ''?''))
        @ lit '': '' @ shown C e ''reason'' (JStr [])]
   | Session_forked \<Rightarrow> [prefix_of e @ lit ''session_forked   snap='' @ take 12 (shown C e ''snapshot_id'' (JStr []))
        @ lit ''  container='' @ take 12 (shown C e ''container_id'' (JStr []))]
   | Session_reverted \<Rightarrow> [prefix_of e @ lit ''session_reverted snap='' @ take 12 (shown C e ''snapshot_id'' (JStr []))
        @ lit ''  prev='' @ take 12 (shown C e ''previous_container_id'' (JStr []))
        @ lit '' -> new='' @ take 12 (shown C e ''new_container_id'' (JStr []))])"

definition status_line :: "cenv \<Rightarrow> trajectory_event list \<Rightarrow> pystr" where
  "status_line C events = (let final = last events in
     if ev_type final = Run_finished
     then shown C final ''result'' (JStr (lit ''?'')) @ lit '': '' @ shown C final ''reason'' (JStr [])
     else lit ''(incomplete - no run_finished event)'')"

definition type_counts :: "trajectory_event list \<Rightarrow> (pystr \<times> nat) list" where
  "type_counts events = sort_key fst (counter (map (\<lambda>e. lit (event_type_str (ev_type e))) events) [])"

definition format_summary :: "cenv \<Rightarrow> trajectory_event list \<Rightarrow> pystr list" where
  "format_summary C events =
     (if events = [] then [[], lit ''  (empty trajectory)'']
      else [[], lit ''  '' @ status_line C events,
        lit ''  '' @ py_join (lit '', '') (map (\<lambda>(t, n). nat_text n @ lit '' '' @ t) (type_counts events))])"

record inspect_args =
  ia_is_file :: bool
  ia_types :: "event_type list"
  ia_full :: bool
  ia_summary_only :: bool
  ia_no_summary :: bool

definition cmd_inspect :: "cenv \<Rightarrow> (pystr \<Rightarrow> pystr list) \<Rightarrow> inspect_args \<Rightarrow> exn + pystr \<Rightarrow> exn + int \<times> pystr list" where
  "cmd_inspect C wrap A content =
     (if \<not> ia_is_file A then Inr (2, [])
      else case read_events C content of
        Inl e \<Rightarrow> Inl e
      | Inr events \<Rightarrow> Inr (0,
          (if ia_summary_only A then []
           else concat (map (format_event C wrap (ia_full A))
             (filter (\<lambda>e. ia_types A = [] \<or> ev_type e \<in> set (ia_types A)) events)))
          @ (if ia_no_summary A then [] else format_summary C events)))"

section \<open>What the readers make of a sealed trajectory\<close>

lemma parse_lines_cong:
  "e_loads C = e_loads E \<Longrightarrow> e_lax_int C = e_lax_int E \<Longrightarrow> parse_lines C ls = parse_lines E ls"
  by (induction ls) (simp_all cong: option.case_cong sum.case_cong)

lemma read_trajectory_cong:
  "e_loads C = e_loads E \<Longrightarrow> e_lax_int C = e_lax_int E \<Longrightarrow> read_trajectory C c = read_trajectory E c"
  unfolding read_trajectory_def by (rule parse_lines_cong)

lemma finished_fields:
  "map_of (finished status reason) (lit ''result'') = Some (JStr (lit (status_str status)))"
  "dict_get (finished status reason) ''result'' d = JStr (lit (status_str status))"
  "dict_get (finished status reason) ''reason'' d' = JStr reason"
  by (simp_all add: finished_def dict_get_def)

lemma status_line_sealed:
  "ev_type ev = Run_finished \<Longrightarrow> ev_data ev = finished status reason \<Longrightarrow>
     status_line C (evs @ [ev]) = lit (status_str status) @ lit '': '' @ reason"
  by (simp add: status_line_def shown_def finished_fields)

lemma summarize_events_snoc:
  "summarize_events C (evs @ [ev]) p = (case summarize_events C evs p of
     Inl x \<Rightarrow> Inl x | Inr q \<Rightarrow> summarize_event C ev q)"
  by (induction C evs p rule: summarize_events.induct) (auto split: sum.split)

lemma summarize_sealed:
  assumes "ev_type ev = Run_finished" "ev_data ev = finished status reason"
    and "summarize C p (evs @ [ev]) = Inr r"
  shows "rs_outcome r = lit (status_str status)"
proof -
  obtain q a b d where q: "summarize_events C (evs @ [ev]) (blank_summary p, None, None) = Inr (q, a, b)"
    "r = q\<lparr>rs_duration := d\<rparr>"
    using assms(3) by (auto simp: summarize_def split: sum.splits)
  then obtain q0 a0 b0 where "summarize_event C ev (q0, a0, b0) = Inr (q, a, b)"
    by (auto simp: summarize_events_snoc split: sum.splits)
  then have "rs_outcome q = lit (status_str status)"
    using assms(1,2) by (auto simp: summarize_event_def finished_fields)
  with q(2) show ?thesis by simp
qed

lemma outcome_sealed_run:
  assumes "read_events (b_cli B) (bf_content f) = Inr (evs @ [ev])"
    and "ev_type ev = Run_finished" "ev_data ev = finished status reason"
  shows "outcome_from_trajectory B f = lit (status_str status)"
  using assms by (simp add: outcome_from_trajectory_def finished_fields)

section \<open>Properties\<close>


definition inspect_dir :: taskdir where
  "inspect_dir = \<lparr>td_exists = True, td_entries = [], td_read = (\<lambda>_. Some (Inr [])),
     td_yaml = (\<lambda>_. Inr (dump_task run_task)), td_lax_int = (\<lambda>v. case v of JInt n \<Rightarrow> Some n | _ \<Rightarrow> None),
     td_quote = (\<lambda>s. s), td_show_task = (\<lambda>_. [])\<rparr>"

definition inspect_env :: cenv where
  "inspect_env = env.extend (env.truncate run_senv)
     \<lparr>c_quote = (\<lambda>s. s), c_ftrue = (\<lambda>_. True), c_fromiso = (\<lambda>_. None), c_round1 = (\<lambda>_. [])\<rparr>"

lemma inspect_load: "load_task inspect_dir [] = Inr run_task"
proof -
  have "wf_task run_task" by (simp add: wf_task_def run_task_def demo_task_def lit_def id_start_def)
  then have "validate_task (\<lambda>v. case v of JInt n \<Rightarrow> Some n | _ \<Rightarrow> None) (dump_task run_task) = Inr run_task"
    by (intro validate_dump_task) simp_all
  then show ?thesis by (simp add: load_task_def inspect_dir_def dump_task_def)
qed


end
