(* ===== verification/Cli_Main.thy ===== *)
theory Cli_Main
  imports Cli_Typing Cli_Compare Cli_Batch Cli_Reap Cli_Inspect
begin

text \<open>
  \<^verbatim>\<open>cli.py\<close>, \<^verbatim>\<open>main\<close>: the argument vector is parsed and the function of the subcommand is called
  with what it says. A world holds what the subcommands find, by the path they are given. A call
  written as a command line is read back as it was, and every way out of the program is one of the
  few exit statuses it documents or an exception of the subcommand.
\<close>

section \<open>The code\<close>

text \<open>The second snapshot of a comparison is missing when \<^verbatim>\<open>--\<close> was dropped in its place.\<close>

datatype cli_call =
    Run_call path path "pystr list"
  | Inspect_call path bool "event_type list" bool bool
  | Stats_call path "pystr option" bool
  | Batch_call path pystr path "pystr option" "pystr option" int int bool
  | Compare_call path "path option" bool
  | Reap_call path bool int

definition arg :: "namespace \<Rightarrow> string \<Rightarrow> arg_val" where
  "arg ns d = (case map_of ns d of None \<Rightarrow> V_none | Some v \<Rightarrow> v)"

fun opt_text :: "arg_val \<Rightarrow> pystr option" where
  "opt_text (V_text s) = Some s"
| "opt_text _ = None"

fun opt_path :: "arg_val \<Rightarrow> path option" where
  "opt_path (V_path p) = Some p"
| "opt_path _ = None"

definition event_types :: "pystr list \<Rightarrow> event_type list" where
  "event_types ss = List.map_filter (\<lambda>s. List.find (\<lambda>t. lit (event_type_str t) = s) EVENT_TYPES) ss"

text \<open>What the function of a subcommand reads off its arguments.\<close>

definition call_of :: "subcommand \<Rightarrow> namespace \<Rightarrow> exn + cli_call" where
  "call_of c ns = (case c of
     Run_cmd \<Rightarrow> (case (arg ns ''task'', arg ns ''root'', arg ns ''cmd'') of
       (V_path p, V_path r, V_texts cs) \<Rightarrow> Inr (Run_call p r cs) | _ \<Rightarrow> Inl Attribute_Error)
   | Inspect_cmd \<Rightarrow> (case (arg ns ''path'', arg ns ''full'', arg ns ''no_summary'', arg ns ''summary_only'') of
       (V_path p, V_bool f, V_bool n, V_bool so) \<Rightarrow>
         Inr (Inspect_call p f (event_types (texts_of (Some (arg ns ''type'')))) n so)
     | _ \<Rightarrow> Inl Attribute_Error)
   | Stats_cmd \<Rightarrow> (case (arg ns ''path'', arg ns ''json'') of
       (V_path p, V_bool j) \<Rightarrow> Inr (Stats_call p (opt_text (arg ns ''task'')) j) | _ \<Rightarrow> Inl Attribute_Error)
   | Batch_cmd \<Rightarrow> (case (arg ns ''tasks_dir'', arg ns ''agent'', arg ns ''root'',
         arg ns ''skip_if_passed_within'', arg ns ''per_task_timeout'', arg ns ''json'') of
       (V_path d, V_text a, V_path r, V_hours h, V_int t, V_bool j) \<Rightarrow>
         Inr (Batch_call d a r (opt_text (arg ns ''filter_tag'')) (opt_text (arg ns ''filter_difficulty'')) h t j)
     | _ \<Rightarrow> Inl Attribute_Error)
   | Compare_cmd \<Rightarrow> (case (arg ns ''a'', arg ns ''json'') of
       (V_path a, V_bool j) \<Rightarrow> Inr (Compare_call a (opt_path (arg ns ''b'')) j) | _ \<Rightarrow> Inl Attribute_Error)
   | Reap_cmd \<Rightarrow> (case (arg ns ''root'', arg ns ''dry_run'', arg ns ''older_than_hours'') of
       (V_path r, V_bool d, V_hours h) \<Rightarrow> Inr (Reap_call r d h) | _ \<Rightarrow> Inl Attribute_Error))"

record world =
  w_senv :: senv
  w_state :: sstate
  w_taskdir :: "path \<Rightarrow> taskdir"
  w_is_dir :: "path \<Rightarrow> bool"
  w_cli :: cenv
  w_wrap :: "pystr \<Rightarrow> pystr list"
  w_file :: "path \<Rightarrow> (exn + pystr) option"
  w_corpus :: "path \<Rightarrow> corpus"
  w_input :: "path \<Rightarrow> input"
  w_batch :: "path \<Rightarrow> batch_env"
  w_bstate :: bstate
  w_reap :: "path \<Rightarrow> reap_env"
  w_rstate :: rstate

text \<open>What a list has in the place of a path: no operation of a path works on it.\<close>

definition no_input :: input where
  "no_input = \<lparr>in_path = [lit ''.json''], in_exists = True, in_is_file = True,
     in_text = Inl Attribute_Error, in_is_dir = False, in_files = []\<rparr>"

fun dispatch :: "world \<Rightarrow> cli_call \<Rightarrow> exn + int" where
  "dispatch W (Run_call p r cs) =
     map_sum id fst (fst (cmd_run (w_senv W) (w_taskdir W p) p r (Some cs) (w_state W)))"
| "dispatch W (Inspect_call p f ts n so) = map_sum id fst (cmd_inspect (w_cli W) (w_wrap W)
     \<lparr>ia_is_file = w_file W p \<noteq> None, ia_types = ts, ia_full = f, ia_summary_only = so, ia_no_summary = n\<rparr>
     (case w_file W p of None \<Rightarrow> Inr [] | Some content \<Rightarrow> content))"
| "dispatch W (Stats_call p only j) = map_sum id fst (cmd_stats (w_cli W) (w_corpus W p) only j)"
| "dispatch W (Batch_call d a r tag diff h t j) = fst (cmd_batch (w_batch W r)
     \<lparr>ba_tasks = w_taskdir W d, ba_tasks_dir = d, ba_is_dir = w_is_dir W d, ba_filter_tag = tag,
      ba_filter_difficulty = diff, ba_agent = a, ba_timeout = t, ba_skip_window = h, ba_json = j\<rparr> (w_bstate W))"
| "dispatch W (Compare_call a b j) = map_sum id fst (cmd_compare (w_cli W) (w_input W a)
     (case b of None \<Rightarrow> no_input | Some p \<Rightarrow> w_input W p) j)"
| "dispatch W (Reap_call r d h) =
     fst (cmd_reap (w_reap W r) \<lparr>rg_dry_run = d, rg_older_than = h\<rparr> (w_rstate W))"

datatype outcome = Returned int | Exited int | Raised exn

definition main :: "argv_env \<Rightarrow> world \<Rightarrow> pystr list \<Rightarrow> outcome" where
  "main V W argv = (case parse_args V argv of Inl c \<Rightarrow> Exited c
   | Inr (c, ns) \<Rightarrow> (case call_of c ns of Inl e \<Rightarrow> Raised e
     | Inr k \<Rightarrow> (case dispatch W k of Inl e \<Rightarrow> Raised e | Inr n \<Rightarrow> Returned n)))"

section \<open>Writing a command line\<close>

text \<open>The arguments of a call, spelled out; \<open>hours\<close> writes a number of hours.\<close>

fun argv_of :: "(int \<Rightarrow> pystr) \<Rightarrow> cli_call \<Rightarrow> pystr list" where
  "argv_of hours (Run_call p r cs) = lit ''run'' # setting ''--root'' (path_str r)
     # map (setting ''--cmd'') cs @ [lit ''--'', path_str p]"
| "argv_of hours (Inspect_call p f ts n so) = lit ''inspect'' # switch ''--full'' f
     @ map (setting ''--type'') (map (\<lambda>t. lit (event_type_str t)) ts)
     @ switch ''--no-summary'' n @ switch ''--summary-only'' so @ [lit ''--'', path_str p]"
| "argv_of hours (Stats_call p only j) = lit ''stats'' # setting_if ''--task'' only
     @ switch ''--json'' j @ [lit ''--'', path_str p]"
| "argv_of hours (Batch_call d a r tag diff h t j) = lit ''batch'' # setting ''--agent'' a
     # setting ''--root'' (path_str r) # setting_if ''--filter-tag'' tag
     @ setting_if ''--filter-difficulty'' diff @ setting ''--skip-if-passed-within'' (hours h)
     # setting ''--per-task-timeout'' (py_str_int t) # switch ''--json'' j @ [lit ''--'', path_str d]"
| "argv_of hours (Compare_call a b j) = lit ''compare'' # switch ''--json'' j
     @ lit ''--'' # path_str a # (case b of None \<Rightarrow> [] | Some p \<Rightarrow> [path_str p])"
| "argv_of hours (Reap_call r d h) = lit ''reap'' # setting ''--root'' (path_str r)
     # switch ''--dry-run'' d @ [setting ''--older-than-hours'' (hours h)]"

text \<open>Paths whose parts are names, numbers that read back as written, and two snapshots.\<close>

fun writable :: "argv_env \<Rightarrow> (int \<Rightarrow> pystr) \<Rightarrow> cli_call \<Rightarrow> bool" where
  "writable V hours (Run_call p r cs) \<longleftrightarrow> list_all good_part p \<and> list_all good_part r"
| "writable V hours (Inspect_call p f ts n so) \<longleftrightarrow> list_all good_part p"
| "writable V hours (Stats_call p only j) \<longleftrightarrow> list_all good_part p"
| "writable V hours (Batch_call d a r tag diff h t j) \<longleftrightarrow> list_all good_part d \<and> list_all good_part r
     \<and> av_hours V (hours h) = Some h \<and> av_int V (py_str_int t) = Some t"
| "writable V hours (Compare_call a b j) \<longleftrightarrow> list_all good_part a \<and> (case b of None \<Rightarrow> False | Some p \<Rightarrow> list_all good_part p)"
| "writable V hours (Reap_call r d h) \<longleftrightarrow> list_all good_part r \<and> av_hours V (hours h) = Some h"

text \<open>The facts by which a written command line is read.\<close>

lemmas parser_defs = run_parser_def inspect_parser_def stats_parser_def batch_parser_def compare_parser_def
  reap_parser_def help_option_def root_option_def json_option_def option_def required_path_def

lemma tokens_dashes: "tokens V P (lit ''--'' # ss) = Inr (Dashes # map Word ss)"
  by simp

lemma consume_rest: "\<not> list_ex is_option ts \<Longrightarrow> consume V ts st =
    (case take_positionals V (p_left st) ts st of
      (rest, u) \<Rightarrow> Inr (u\<lparr>p_extras := p_extras u @ map token_text rest\<rparr>))"
  by (subst consume.simps) simp

lemma dash: "of_char c = (45 :: nat) \<longleftrightarrow> c = CHR ''-''"
proof -
  have "(45 :: nat) = of_char (CHR ''-'')" by simp
  then show ?thesis by (metis of_char_eq_iff)
qed

lemma word_subcommand: "parse_args V (lit (c # s) # ss) = (case map_of (subparsers V) (lit (c # s)) of
     None \<Rightarrow> Inl 2
   | Some (c, P) \<Rightarrow> (case parse_known V P ss of Inl x \<Rightarrow> Inl x
     | Inr (ns, extras) \<Rightarrow> if extras \<noteq> [] then Inl 2 else Inr (c, ns)))" if "c \<noteq> CHR ''-''"
  using that by (intro parse_args_subcommand) (auto simp: lit_def dash)

lemma path_str_not_dashes: "path_str p \<noteq> lit ''--''" "lit ''--'' \<noteq> path_str p"
  by (simp_all add: path_str_def lit_def)

lemma flags_plain: "list_all plain_flag [''--root'', ''--cmd'', ''--full'', ''--type'', ''--no-summary'',
    ''--summary-only'', ''--task'', ''--json'', ''--agent'', ''--filter-tag'', ''--filter-difficulty'',
    ''--skip-if-passed-within'', ''--per-task-timeout'', ''--dry-run'', ''--older-than-hours'']"
  by (simp add: plain_flag_def lit_def)

lemma flags_no_eq: "no_eq (run_parser V)" "no_eq inspect_parser" "no_eq (stats_parser V)"
    "no_eq (batch_parser V)" "no_eq compare_parser" "no_eq (reap_parser V)"
  by (simp_all add: no_eq_def flag_table_def parser_defs lit_def)

lemmas read_tokens = tokens_setting tokens_settings tokens_switch tokens_dashes
  flags_plain [simplified] flags_no_eq

lemmas read_consume = parse_known_def consume_option consume_settings consume_rest initial_def defaults_def
  complete_def set_arg_def update_conv' positional_value_def parse_path_str path_str_not_dashes

lemma option_fields: "op_action (option f d a v) = a" "op_choices (option f d a v) = None"
    "op_dest (option f d a v) = d" "op_required (option f d a v) = False" "op_default (option f d a v) = v"
  by (simp_all add: option_def)

definition reads_as :: "argv_env \<Rightarrow> subcommand \<Rightarrow> parser \<Rightarrow> pystr list \<Rightarrow> cli_call \<Rightarrow> bool" where
  "reads_as V c P ss k \<longleftrightarrow> (\<exists>ns. parse_known V P ss = Inr (ns, []) \<and> call_of c ns = Inr k)"

lemma read_run:
  assumes "list_all good_part p" "list_all good_part r"
  shows "reads_as V Run_cmd (run_parser V) (tl (argv_of hours (Run_call p r cs))) (Run_call p r cs)"
proof -
  have t: "map_of (flag_table (run_parser V)) (lit ''--root'') = Some (root_option V)"
    "map_of (flag_table (run_parser V)) (lit ''--cmd'') = Some (option ''--cmd'' ''cmd'' Append (V_texts []))"
    by (simp_all add: flag_table_def parser_defs)
  then show ?thesis using assms unfolding reads_as_def
    by (simp del: tokens.simps(2) add: read_tokens read_consume option_fields root_option_def)
      (simp add: parser_defs call_of_def arg_def read_consume)
qed

lemma types_read: "event_types (map (\<lambda>t. lit (event_type_str t)) ts) = ts"
proof -
  have "List.find (\<lambda>u. lit (event_type_str u) = lit (event_type_str t)) EVENT_TYPES = Some t" for t
    by (cases t) (simp_all add: EVENT_TYPES_def)
  then show ?thesis by (induction ts) (simp_all add: event_types_def)
qed

lemma read_inspect:
  assumes "list_all good_part p"
  shows "reads_as V Inspect_cmd inspect_parser (tl (argv_of hours (Inspect_call p f ts n so)))
    (Inspect_call p f ts n so)"
proof -
  define vs where "vs = map (\<lambda>t. lit (event_type_str t)) ts"
  define ty where "ty = (option ''--type'' ''type'' Append V_none)\<lparr>op_choices := Some (map (\<lambda>t. lit (event_type_str t)) EVENT_TYPES)\<rparr>"
  have vs: "\<forall>v\<in>set vs. v \<in> set (map (\<lambda>t. lit (event_type_str t)) EVENT_TYPES)" "event_types vs = ts"
    by (auto simp: vs_def EVENT_TYPES_all types_read)
  have t: "map_of (flag_table inspect_parser) (lit ''--full'') = Some (option ''--full'' ''full'' Store_true (V_bool False))"
    "map_of (flag_table inspect_parser) (lit ''--type'') = Some ty"
    "map_of (flag_table inspect_parser) (lit ''--no-summary'')
       = Some (option ''--no-summary'' ''no_summary'' Store_true (V_bool False))"
    "map_of (flag_table inspect_parser) (lit ''--summary-only'')
       = Some (option ''--summary-only'' ''summary_only'' Store_true (V_bool False))"
    by (simp_all add: flag_table_def parser_defs ty_def)
  have ty: "op_action ty = Append" "op_dest ty = ''type''"
    "op_choices ty = Some (map (\<lambda>t. lit (event_type_str t)) EVENT_TYPES)"
    by (simp_all add: option_def ty_def)
  have "reads_as V Inspect_cmd inspect_parser (switch ''--full'' f @ map (setting ''--type'') vs
      @ switch ''--no-summary'' n @ switch ''--summary-only'' so @ [lit ''--'', path_str p]) (Inspect_call p f ts n so)"
    using assms vs(1) unfolding reads_as_def
    by (cases f; cases n; cases so; cases "vs = []")
      (simp_all del: tokens.simps(2) set_map add: read_tokens t read_consume option_fields ty switch_def,
        auto simp: parser_defs call_of_def arg_def read_consume simp flip: vs(2))
  then show ?thesis by (simp add: vs_def)
qed

lemma read_stats:
  assumes "list_all good_part p"
  shows "reads_as V Stats_cmd (stats_parser V) (tl (argv_of hours (Stats_call p only j))) (Stats_call p only j)"
proof -
  have "map_of (flag_table (stats_parser V)) (lit ''--task'') = Some (option ''--task'' ''task'' (Store T_text) V_none)"
    "map_of (flag_table (stats_parser V)) (lit ''--json'') = Some json_option"
    by (simp_all add: flag_table_def parser_defs)
  then show ?thesis using assms unfolding reads_as_def
    by (cases only; cases j)
      (simp_all del: tokens.simps(2) add: read_tokens read_consume option_fields json_option_def switch_def setting_if_def,
        auto simp: parser_defs call_of_def arg_def read_consume)
qed

lemma read_batch:
  assumes "writable V hours (Batch_call d a r tag diff h t j)"
  shows "reads_as V Batch_cmd (batch_parser V) (tl (argv_of hours (Batch_call d a r tag diff h t j)))
    (Batch_call d a r tag diff h t j)"
proof -
  define ag where "ag = (option ''--agent'' ''agent'' (Store T_text) V_none)\<lparr>op_required := True\<rparr>"
  have "op_action ag = Store T_text" "op_dest ag = ''agent''" "op_choices ag = None"
    by (simp_all add: option_def ag_def)
  moreover have "map_of (flag_table (batch_parser V)) (lit ''--agent'') = Some ag"
    "map_of (flag_table (batch_parser V)) (lit ''--root'') = Some (root_option V)"
    "map_of (flag_table (batch_parser V)) (lit ''--filter-tag'')
       = Some (option ''--filter-tag'' ''filter_tag'' (Store T_text) V_none)"
    "map_of (flag_table (batch_parser V)) (lit ''--filter-difficulty'')
       = Some (option ''--filter-difficulty'' ''filter_difficulty'' (Store T_text) V_none)"
    "map_of (flag_table (batch_parser V)) (lit ''--skip-if-passed-within'')
       = Some (option ''--skip-if-passed-within'' ''skip_if_passed_within'' (Store T_hours) (V_hours 0))"
    "map_of (flag_table (batch_parser V)) (lit ''--per-task-timeout'')
       = Some (option ''--per-task-timeout'' ''per_task_timeout'' (Store T_int) (V_int 600))"
    "map_of (flag_table (batch_parser V)) (lit ''--json'') = Some json_option"
    by (simp_all add: flag_table_def parser_defs ag_def)
  ultimately show ?thesis using assms unfolding reads_as_def
    by (cases tag; cases diff; cases j)
      (simp_all del: tokens.simps(2) add: read_tokens read_consume option_fields json_option_def root_option_def
        switch_def setting_if_def,
        auto simp: parser_defs call_of_def arg_def read_consume)
qed

lemma read_compare:
  assumes "list_all good_part a" "list_all good_part b"
  shows "reads_as V Compare_cmd compare_parser (tl (argv_of hours (Compare_call a (Some b) j)))
    (Compare_call a (Some b) j)"
proof -
  have "map_of (flag_table compare_parser) (lit ''--json'') = Some json_option"
    by (simp_all add: flag_table_def parser_defs)
  then show ?thesis using assms unfolding reads_as_def
    by (cases j)
      (simp_all del: tokens.simps(2) add: read_tokens read_consume option_fields json_option_def switch_def,
        auto simp: parser_defs call_of_def arg_def read_consume)
qed

lemma read_reap:
  assumes "list_all good_part r" "av_hours V (hours h) = Some h"
  shows "reads_as V Reap_cmd (reap_parser V) (tl (argv_of hours (Reap_call r d h))) (Reap_call r d h)"
proof -
  have "map_of (flag_table (reap_parser V)) (lit ''--root'') = Some (root_option V)"
    "map_of (flag_table (reap_parser V)) (lit ''--dry-run'')
       = Some (option ''--dry-run'' ''dry_run'' Store_true (V_bool False))"
    "map_of (flag_table (reap_parser V)) (lit ''--older-than-hours'')
       = Some (option ''--older-than-hours'' ''older_than_hours'' (Store T_hours) (V_hours (24 * 3600 * 1000000)))"
    by (simp_all add: flag_table_def parser_defs)
  then show ?thesis using assms unfolding reads_as_def
    by (cases d)
      (simp_all del: tokens.simps(2) add: read_tokens read_consume option_fields root_option_def switch_def,
        auto simp: parser_defs call_of_def arg_def read_consume)
qed

section \<open>Exit codes\<close>

lemma run_code: "fst (cmd_run E D p root cmds s) = Inr r \<Longrightarrow> fst r \<in> {0, 1}"
  by (auto simp: cmd_run_def py_defs split: sum.splits prod.splits if_splits)

lemma inspect_code: "cmd_inspect C wrap A content = Inr r \<Longrightarrow> fst r \<in> {0, 2}"
  by (auto simp: cmd_inspect_def split: if_splits sum.splits)

lemma stats_code: "cmd_stats C d only j = Inr r \<Longrightarrow> fst r \<in> {0, 2}"
  by (auto simp: cmd_stats_def split: if_splits sum.splits)

lemma compare_code: "cmd_compare C x y j = Inr r \<Longrightarrow> fst r \<in> {0, 1, 2}"
  by (auto simp: cmd_compare_def split: if_splits sum.splits prod.splits)

lemma batch_code: "fst (cmd_batch B A s) = Inr n \<Longrightarrow> n \<in> {0, 1, 2}"
  by (auto simp: cmd_batch_def Let_def batch_exit_def py_defs split: if_splits sum.splits prod.splits)

lemma reap_code: "fst (cmd_reap R A s) = Inr n \<Longrightarrow> n \<in> {0, 2}"
  by (auto simp: cmd_reap_def reap_with_def reap_def Let_def py_defs split: if_splits sum.splits prod.splits option.splits)

lemma dispatch_code: "dispatch W k = Inr n \<Longrightarrow> n \<in> {0, 1, 2}"
  by (cases k) (auto simp: map_sum_def split: sum.splits dest: run_code inspect_code stats_code batch_code
      compare_code reap_code)

section \<open>Arguments of the right types\<close>

lemma parsers_declared: "declared (run_parser V)" "declared inspect_parser" "declared (stats_parser V)"
    "declared (batch_parser V)" "declared compare_parser" "declared (reap_parser V)"
  by (simp_all add: declared_def parser_defs)

lemma parse_args_known: "parse_args V argv = Inr (c, ns) \<Longrightarrow>
    \<exists>s P ss extras. map_of (subparsers V) s = Some (c, P) \<and> parse_known V P ss = Inr (ns, extras)"
proof -
  have "parse_top V ts b = Inr (c, ns) \<Longrightarrow>
      \<exists>s P ss extras. map_of (subparsers V) s = Some (c, P) \<and> parse_known V P ss = Inr (ns, extras)" for ts b
    by (induction V ts b rule: parse_top.induct) (auto split: option.splits sum.splits if_splits, blast+)
  then show "parse_args V argv = Inr (c, ns) \<Longrightarrow> ?thesis"
    by (auto simp: parse_args_def split: sum.splits)
qed

lemma subparser_of: "map_of (subparsers V) s = Some (c, P) \<Longrightarrow> P = (case c of
    Run_cmd \<Rightarrow> run_parser V | Inspect_cmd \<Rightarrow> inspect_parser | Stats_cmd \<Rightarrow> stats_parser V
  | Batch_cmd \<Rightarrow> batch_parser V | Compare_cmd \<Rightarrow> compare_parser | Reap_cmd \<Rightarrow> reap_parser V)"
  by (auto simp: subparsers_def split: if_splits)

lemma call_of_typed:
  assumes "parse_known V P ss = Inr (ns, extras)" "map_of (subparsers V) s = Some (c, P)"
  shows "\<exists>k. call_of c ns = Inr k"
proof -
  have "declared P" using subparser_of [OF assms(2)] parsers_declared by (cases c) simp_all
  note t = parse_known_typed [OF this assms(1)]
  show ?thesis using t subparser_of [OF assms(2)]
    by (cases c) (auto simp: parser_defs call_of_def arg_def given_ok_def)
qed

text \<open>Whatever is on the command line, the arguments a subcommand gets have the types it reads them at.\<close>

lemma parsed_arguments_typed: "parse_args V argv = Inr (c, ns) \<Longrightarrow> \<exists>k. call_of c ns = Inr k"
  using parse_args_known call_of_typed by blast

section \<open>Leaving through the parser\<close>

lemma help_exit_codes: "help_exit n e \<in> {0, 2}"
proof -
  have "help_tail eq s \<in> {0, 2}" for eq s
    by (induction eq s rule: help_tail.induct) (auto split: list.split)
  then show ?thesis by (auto simp: help_exit_def split: option.split)
qed

lemma take_option_exit: "take_option V t ts st = Inl x \<Longrightarrow> x \<in> {0, 2}"
  using help_exit_codes
  by (induction V t ts st rule: take_option.induct)
    (auto split: arg_action.splits option.splits if_splits list.splits token.splits)

lemma consume_exit: "consume V ts st = Inl x \<Longrightarrow> x \<in> {0, 2}"
proof (induction V ts st rule: consume.induct)
  case (1 V ts st)
  obtain rest w where w: "take_positionals V (p_left st) ts st = (rest, w)" by fastforce
  have "x \<in> {0, 2}" if "list_ex is_option ts" "is_option (hd ts)"
    "take_option V (hd ts) (tl ts) st = Inr (r, v)" "consume V r v = Inl x" for r v
    using 1(1) that by auto
  note first = this
  note ih = 1(2) [OF _ _ w [symmetric]] 1(3) [OF _ _ w [symmetric]]
  from 1(4) w ih show ?case
    by (subst (asm) consume.simps) (auto split: if_splits sum.splits dest: take_option_exit first)
qed

lemma tokens_exit: "tokens V P ss = Inl x \<Longrightarrow> x = 2"
proof (induction V P ss rule: tokens.induct)
  case (2 V P s ss)
  have "classify V P s = Inl y \<Longrightarrow> y = 2" for y
    by (auto simp: classify_def unknown_or_abbreviated_def split: if_splits option.splits prod.splits list.splits)
  with 2 show ?case by (auto split: if_splits sum.splits)
qed simp

lemma parse_known_exit: "parse_known V P ss = Inl x \<Longrightarrow> x \<in> {0, 2}"
  by (auto simp: parse_known_def split: sum.splits if_splits dest: tokens_exit consume_exit)

lemma parse_args_exit: "parse_args V argv = Inl x \<Longrightarrow> x \<in> {0, 2}"
proof -
  have "parse_top V ts b = Inl x \<Longrightarrow> x \<in> {0, 2}" for ts b
    using help_exit_codes
    by (induction V ts b rule: parse_top.induct)
      (auto split: option.splits sum.splits if_splits dest: parse_known_exit)
  then show "parse_args V argv = Inl x \<Longrightarrow> ?thesis"
    by (auto simp: parse_args_def split: sum.splits dest: tokens_exit)
qed

section \<open>Properties\<close>

text \<open>C18. Every call of a subcommand can be written as a command line: with each value behind an equals
  sign and the paths after \<^verbatim>\<open>--\<close>, whatever the values are, \<^verbatim>\<open>main\<close> reads back exactly the arguments
  that were written and ends as the subcommand called with them ends.\<close>

theorem command_line_roundtrip:
  assumes "writable V hours k"
  shows "main V W (argv_of hours k) = (case dispatch W k of Inl e \<Rightarrow> Raised e | Inr n \<Rightarrow> Returned n)"
proof -
  have "\<exists>c P f. map_of (subparsers V) (hd (argv_of hours k)) = Some (c, P) \<and> hd (argv_of hours k) \<noteq> []
      \<and> hd (hd (argv_of hours k)) \<noteq> 45 \<and> argv_of hours k \<noteq> [] \<and> reads_as V c P (tl (argv_of hours k)) k"
    using assms read_run read_inspect read_stats read_batch read_compare read_reap
    by (cases k) (auto simp: subparsers_def lit_def split: option.splits)
  then obtain c P s ss where k: "argv_of hours k = s # ss" "map_of (subparsers V) s = Some (c, P)"
      "hd s \<noteq> 45" "reads_as V c P ss k" by (metis list.collapse)
  then obtain ns where "parse_args V (s # ss) = Inr (c, ns)" "call_of c ns = Inr k"
    by (auto simp: reads_as_def parse_args_subcommand)
  with k(1) show ?thesis by (simp add: main_def)
qed

text \<open>C22. Whatever is on the command line and whatever the subcommands find, \<^verbatim>\<open>main\<close> returns 0, 1 or 2, or
  leaves through the parser with 0 (help) or 2 (an error), or raises what a subcommand called with
  arguments of the right types raised.\<close>

theorem main_exit_codes:
  "case main V W argv of Returned n \<Rightarrow> n \<in> {0, 1, 2} | Exited n \<Rightarrow> n \<in> {0, 2}
     | Raised e \<Rightarrow> (\<exists>k. dispatch W k = Inl e)"
proof (cases "parse_args V argv")
  case (Inl x)
  then show ?thesis by (auto simp: main_def dest: parse_args_exit)
next
  case (Inr x)
  then obtain c ns k where k: "parse_args V argv = Inr (c, ns)" "call_of c ns = Inr k"
    using parsed_arguments_typed by (metis surj_pair)
  show ?thesis
  proof (cases "dispatch W k")
    case (Inl e)
    with k show ?thesis by (auto simp: main_def)
  next
    case (Inr n)
    with k dispatch_code [OF Inr] show ?thesis by (simp add: main_def)
  qed
qed

definition blank_argv :: argv_env where
  "blank_argv = \<lparr>av_cwd = [lit ''w''], av_int = (\<lambda>s. None),
     av_hours = (\<lambda>s. if s = lit ''24'' then Some 86400000000 else None), av_digit = (\<lambda>c. 48 \<le> c \<and> c \<le> 57)\<rparr>"

theorem command_line_roundtrip_witness:
  "\<forall>W. main blank_argv W [lit ''reap'', lit ''--root=/w'', lit ''--dry-run'', lit ''--older-than-hours=24'']
     = (case dispatch W (Reap_call [lit ''w''] True 86400000000) of Inl e \<Rightarrow> Raised e | Inr n \<Rightarrow> Returned n)"
proof -
  have "writable blank_argv (\<lambda>h. lit ''24'') (Reap_call [lit ''w''] True 86400000000)"
    by (simp add: blank_argv_def good_part_def lit_def)
  moreover have "argv_of (\<lambda>h. lit ''24'') (Reap_call [lit ''w''] True 86400000000)
      = [lit ''reap'', lit ''--root=/w'', lit ''--dry-run'', lit ''--older-than-hours=24'']"
    by (simp add: setting_def switch_def path_str_def lit_def)
  ultimately show ?thesis using command_line_roundtrip by metis
qed

end
