(* ===== verification/Egress_Pump.thy ===== *)
theory Egress_Pump
  imports Egress
begin

text \<open>
  The two threads of \<^verbatim>\<open>_pump\<close>, step by step. Each direction of a tunnel is a loop of its own,
  interleaved with the other and with the caller that joins both and closes the sockets, in any
  order the scheduler likes. \<^theory_text>\<open>Egress\<close> has the same code as one operation; here every schedule is
  shown to end, and to end in that operation's result.
\<close>

section \<open>The code\<close>

text \<open>Where a direction is in its loop: at the receive, at the send of a chunk, at the shutdown, or done.\<close>

datatype lane_pc = Receiving | Sending "byte list" | Shutting | Finished

record lane =
  ln_pc :: lane_pc
  ln_in :: "recv_result list"
  ln_out :: "byte list list"
  ln_shut :: bool

definition receive :: "lane \<Rightarrow> lane" where
  "receive l = (case ln_in l of
     [] \<Rightarrow> l\<lparr>ln_pc := Shutting\<rparr>
   | Recv_error # ins \<Rightarrow> l\<lparr>ln_pc := Shutting, ln_in := ins\<rparr>
   | Received data # ins \<Rightarrow> l\<lparr>ln_pc := (if data = [] then Shutting else Sending data), ln_in := ins\<rparr>)"

definition send_chunk :: "(byte list \<Rightarrow> bool) \<Rightarrow> byte list \<Rightarrow> lane \<Rightarrow> lane" where
  "send_chunk send_ok data l =
     (if send_ok data then l\<lparr>ln_pc := Receiving, ln_out := ln_out l @ [data]\<rparr> else l\<lparr>ln_pc := Shutting\<rparr>)"

inductive lane_step :: "(byte list \<Rightarrow> bool) \<Rightarrow> lane \<Rightarrow> lane \<Rightarrow> bool" for send_ok where
  Recv: "ln_pc l = Receiving \<Longrightarrow> lane_step send_ok l (receive l)"
| Send: "ln_pc l = Sending data \<Longrightarrow> lane_step send_ok l (send_chunk send_ok data l)"
| Shut: "ln_pc l = Shutting \<Longrightarrow> lane_step send_ok l (l\<lparr>ln_pc := Finished, ln_shut := True\<rparr>)"

text \<open>The caller: it joins the first thread, then the second, then closes both sockets.\<close>

datatype main_pc = Join_up | Join_down | Close_client | Close_upstream | Returned

record tunnel =
  tn_up :: lane
  tn_down :: lane
  tn_main :: main_pc
  tn_client_closed :: bool
  tn_upstream_closed :: bool

inductive pump_step :: "'e net_scheme \<Rightarrow> tunnel \<Rightarrow> tunnel \<Rightarrow> bool" for N where
  Up: "lane_step (n_to_upstream N) (tn_up s) l \<Longrightarrow> pump_step N s (s\<lparr>tn_up := l\<rparr>)"
| Down: "lane_step (n_to_client N) (tn_down s) l \<Longrightarrow> pump_step N s (s\<lparr>tn_down := l\<rparr>)"
| Joined_up: "tn_main s = Join_up \<Longrightarrow> ln_pc (tn_up s) = Finished \<Longrightarrow> pump_step N s (s\<lparr>tn_main := Join_down\<rparr>)"
| Joined_down: "tn_main s = Join_down \<Longrightarrow> ln_pc (tn_down s) = Finished
    \<Longrightarrow> pump_step N s (s\<lparr>tn_main := Close_client\<rparr>)"
| Closed_client: "tn_main s = Close_client
    \<Longrightarrow> pump_step N s (s\<lparr>tn_main := Close_upstream, tn_client_closed := True\<rparr>)"
| Closed_upstream: "tn_main s = Close_upstream
    \<Longrightarrow> pump_step N s (s\<lparr>tn_main := Returned, tn_upstream_closed := True\<rparr>)"

inductive_cases lane_stepE: "lane_step send_ok l m"
inductive_cases pump_stepE: "pump_step N s t"

text \<open>The tunnel of a connection when both threads have been started, and the connection after it.\<close>

definition tunnel_of :: "conn \<Rightarrow> tunnel" where
  "tunnel_of s = \<lparr>
     tn_up = \<lparr>ln_pc = Receiving, ln_in = c_in s, ln_out = u_out s, ln_shut = u_shut s\<rparr>,
     tn_down = \<lparr>ln_pc = Receiving, ln_in = u_in s, ln_out = c_out s, ln_shut = c_shut s\<rparr>,
     tn_main = Join_up, tn_client_closed = c_closed s, tn_upstream_closed = u_closed s\<rparr>"

definition conn_after :: "conn \<Rightarrow> tunnel \<Rightarrow> conn" where
  "conn_after s v = s\<lparr>u_out := ln_out (tn_up v), u_shut := ln_shut (tn_up v),
     c_out := ln_out (tn_down v), c_shut := ln_shut (tn_down v),
     c_closed := tn_client_closed v, u_closed := tn_upstream_closed v\<rparr>"

section \<open>One direction\<close>

text \<open>What a direction will have sent by its end, and how many steps it has left at most.\<close>

definition lane_total :: "(byte list \<Rightarrow> bool) \<Rightarrow> lane \<Rightarrow> byte list list" where
  "lane_total send_ok l = ln_out l @ (case ln_pc l of
     Receiving \<Rightarrow> forward send_ok (ln_in l)
   | Sending data \<Rightarrow> if send_ok data then data # forward send_ok (ln_in l) else []
   | _ \<Rightarrow> [])"

definition lane_left :: "lane \<Rightarrow> nat" where
  "lane_left l = (case ln_pc l of
     Receiving \<Rightarrow> 2 * length (ln_in l) + 2
   | Sending data \<Rightarrow> 2 * length (ln_in l) + 3
   | Shutting \<Rightarrow> 1
   | Finished \<Rightarrow> 0)"

definition lane_ok :: "lane \<Rightarrow> bool" where
  "lane_ok l \<longleftrightarrow> (ln_pc l = Finished \<longrightarrow> ln_shut l)"

lemma lane_step_total: "lane_step send_ok l m \<Longrightarrow> lane_total send_ok m = lane_total send_ok l"
  by (auto elim!: lane_stepE simp: lane_total_def receive_def send_chunk_def
      split: list.split recv_result.split)

lemma lane_step_left: "lane_step send_ok l m \<Longrightarrow> lane_left m < lane_left l"
  by (auto elim!: lane_stepE simp: lane_left_def receive_def send_chunk_def
      split: list.split recv_result.split)

lemma lane_step_ok: "lane_step send_ok l m \<Longrightarrow> lane_ok m"
  by (auto elim!: lane_stepE simp: lane_ok_def receive_def send_chunk_def
      split: list.split recv_result.split if_splits)

lemma lane_progress: "ln_pc l \<noteq> Finished \<Longrightarrow> \<exists>m. lane_step send_ok l m"
  by (cases "ln_pc l") (auto intro: lane_step.intros)

section \<open>Both directions and the caller\<close>

fun main_left :: "main_pc \<Rightarrow> nat" where
  "main_left Join_up = 4"
| "main_left Join_down = 3"
| "main_left Close_client = 2"
| "main_left Close_upstream = 1"
| "main_left Returned = 0"

definition steps_left :: "tunnel \<Rightarrow> nat" where
  "steps_left v = lane_left (tn_up v) + lane_left (tn_down v) + main_left (tn_main v)"

text \<open>Both lanes stay on their way to the same totals, and the caller does not get ahead of them.\<close>

definition on_track :: "'e net_scheme \<Rightarrow> byte list list \<Rightarrow> byte list list \<Rightarrow> tunnel \<Rightarrow> bool" where
  "on_track N up down v \<longleftrightarrow>
     lane_total (n_to_upstream N) (tn_up v) = up \<and> lane_total (n_to_client N) (tn_down v) = down
     \<and> lane_ok (tn_up v) \<and> lane_ok (tn_down v)
     \<and> (tn_main v \<noteq> Join_up \<longrightarrow> ln_pc (tn_up v) = Finished)
     \<and> (tn_main v \<noteq> Join_up \<and> tn_main v \<noteq> Join_down \<longrightarrow> ln_pc (tn_down v) = Finished)
     \<and> (tn_main v = Close_upstream \<or> tn_main v = Returned \<longrightarrow> tn_client_closed v)
     \<and> (tn_main v = Returned \<longrightarrow> tn_upstream_closed v)"

lemma lane_done: "ln_pc l = Finished \<Longrightarrow> \<not> lane_step send_ok l m"
  by (auto elim: lane_stepE)

lemma pump_step_track: "on_track N up down v \<Longrightarrow> pump_step N v w \<Longrightarrow> on_track N up down w"
  by (erule pump_stepE)
    (auto simp: on_track_def lane_done lane_step_ok dest: lane_step_total)

lemma pump_step_left: "pump_step N v w \<Longrightarrow> steps_left w < steps_left v"
  by (auto elim!: pump_stepE simp: steps_left_def dest: lane_step_left)

interpretation tunnel_machine: machine "\<lambda>v. v = tunnel_of s" "pump_step N"
  "on_track N (u_out s @ forward (n_to_upstream N) (c_in s)) (c_out s @ forward (n_to_client N) (u_in s))"
  for s N
proof unfold_locales
  fix v assume "v = tunnel_of s"
  then show "on_track N (u_out s @ forward (n_to_upstream N) (c_in s)) (c_out s @ forward (n_to_client N) (u_in s)) v"
    by (simp add: on_track_def tunnel_of_def lane_total_def lane_ok_def)
qed (rule pump_step_track)

lemma pump_progress:
  assumes "on_track N up down v" "tn_main v \<noteq> Returned"
  shows "\<exists>w. pump_step N v w"
proof (cases "ln_pc (tn_up v) = Finished \<and> ln_pc (tn_down v) = Finished")
  case True
  then show ?thesis using assms(2) by (cases "tn_main v") (auto intro: pump_step.intros)
next
  case False
  then show ?thesis using lane_progress by (blast intro: pump_step.Up pump_step.Down)
qed

lemma pump_ends:
  "on_track N up down v \<Longrightarrow> \<exists>w. (pump_step N)\<^sup>*\<^sup>* v w \<and> tn_main w = Returned"
proof (induction "steps_left v" arbitrary: v rule: less_induct)
  case less
  show ?case
  proof (cases "tn_main v = Returned")
    case False
    then obtain w where w: "pump_step N v w" using pump_progress [OF less.prems] by blast
    then obtain x where "(pump_step N)\<^sup>*\<^sup>* w x" "tn_main x = Returned"
      using less.hyps [OF pump_step_left [OF w] pump_step_track [OF less.prems w]] by blast
    with w show ?thesis by (blast intro: converse_rtranclp_into_rtranclp)
  qed blast
qed

lemma steps_bound: "(pump_step N ^^ n) v w \<Longrightarrow> n + steps_left w \<le> steps_left v"
proof (induction n arbitrary: w)
  case (Suc n)
  then obtain x where "(pump_step N ^^ n) v x" "pump_step N x w" by auto
  with Suc.IH [of x] pump_step_left [of N x w] show ?case by simp
qed simp

lemma returned_is_pump:
  assumes "on_track N (u_out s @ forward (n_to_upstream N) (c_in s)) (c_out s @ forward (n_to_client N) (u_in s)) v"
    and "tn_main v = Returned"
  shows "conn_after s v = snd (pump N s)"
proof -
  have "ln_pc (tn_up v) = Finished" "ln_pc (tn_down v) = Finished" using assms by (simp_all add: on_track_def)
  with assms show ?thesis
    by (simp add: on_track_def conn_after_def pump_def lane_total_def lane_ok_def)
qed

section \<open>Properties\<close>

text \<open>C17. A tunnel always ends, and how its threads are scheduled does not show. However the two
  directions and the caller interleave, at most twice as many steps as there are receives, and
  eight more, can be taken; wherever a schedule has got to, it can go on until the caller
  returns; and when no step is left, the bytes sent either way, the shutdowns and the closed
  sockets are those of the forwarding done as one operation.\<close>

theorem pump_terminates:
  assumes "(pump_step N ^^ n) (tunnel_of s) v"
  shows "n \<le> 2 * length (c_in s) + 2 * length (u_in s) + 8
    \<and> (\<exists>w. (pump_step N)\<^sup>*\<^sup>* v w \<and> tn_main w = Returned)
    \<and> ((\<exists>w. pump_step N v w) \<or> conn_after s v = snd (pump N s))"
proof -
  have "(pump_step N)\<^sup>*\<^sup>* (tunnel_of s) v" using assms by (rule relpowp_imp_rtranclp)
  note track = tunnel_machine.reachable_inv [OF refl this]
  have "n + steps_left v \<le> 2 * length (c_in s) + 2 * length (u_in s) + 8"
    using steps_bound [OF assms] by (simp add: steps_left_def tunnel_of_def lane_left_def)
  then show ?thesis using pump_ends [OF track] pump_progress [OF track] returned_is_pump [OF track] by auto
qed

theorem pump_terminates_witness:
  "(1 :: nat) \<le> 2 * length [Received [7]] + 2 * length ([] :: recv_result list) + 8
    \<and> (\<exists>w. (pump_step demo_net)\<^sup>*\<^sup>* ((tunnel_of (new_conn [Received [7]] []))\<lparr>tn_up :=
          \<lparr>ln_pc = Sending [7], ln_in = [], ln_out = [], ln_shut = False\<rparr>\<rparr>) w \<and> tn_main w = Returned)"
proof -
  let ?s = "new_conn [Received [7]] []"
  let ?v = "(tunnel_of ?s)\<lparr>tn_up := \<lparr>ln_pc = Sending [7], ln_in = [], ln_out = [], ln_shut = False\<rparr>\<rparr>"
  have "lane_step (n_to_upstream demo_net) (tn_up (tunnel_of ?s)) (receive (tn_up (tunnel_of ?s)))"
    by (rule Recv) (simp add: tunnel_of_def)
  moreover have "receive (tn_up (tunnel_of ?s)) = \<lparr>ln_pc = Sending [7], ln_in = [], ln_out = [], ln_shut = False\<rparr>"
    by (simp add: tunnel_of_def receive_def new_conn_def)
  ultimately have "pump_step demo_net (tunnel_of ?s) ?v" using pump_step.Up by metis
  then have "(pump_step demo_net ^^ 1) (tunnel_of ?s) ?v" by (simp only: relpowp_1)
  from pump_terminates [OF this] show ?thesis by (simp add: new_conn_def)
qed

end
