(* ===== verification/Egress_Lifecycle.thy ===== *)
theory Egress_Lifecycle
  imports Egress
begin

text \<open>
  \<^verbatim>\<open>EgressProxy\<close> and its server: the listening socket, which is bound when the object is made, and
  the thread that serves it. \<^verbatim>\<open>shutdown\<close> waits for the serving loop to say that it has ended, and a
  loop that never began never says so.
\<close>

section \<open>The code\<close>

datatype serving = Not_yet | Serving | Loop_ended

record proxy_server =
  pv_allowlist :: "pystr list"
  pv_address :: "pystr \<times> int"
  pv_open :: bool
  pv_serving :: serving
  pv_thread :: bool

text \<open>The port the system gives to the socket, or what binding raises, is a parameter.\<close>

definition new_proxy :: "exn + int \<Rightarrow> pystr list \<Rightarrow> exn + proxy_server" where
  "new_proxy bound allowlist = (case bound of
     Inl e \<Rightarrow> Inl e
   | Inr port \<Rightarrow> Inr \<lparr>pv_allowlist = remdups allowlist, pv_address = (lit ''0.0.0.0'', port), pv_open = True,
       pv_serving = Not_yet, pv_thread = False\<rparr>)"

definition proxy_port :: "proxy_server \<Rightarrow> int" where
  "proxy_port p = snd (pv_address p)"

text \<open>A loop over a closed socket ends at once.\<close>

definition proxy_start :: "proxy_server \<Rightarrow> int \<times> proxy_server" where
  "proxy_start p = (proxy_port p,
     p\<lparr>pv_thread := True, pv_serving := (if pv_open p then Serving else Loop_ended)\<rparr>)"

text \<open>\<open>None\<close>: the call does not return.\<close>

definition proxy_stop :: "proxy_server \<Rightarrow> proxy_server option" where
  "proxy_stop p = (if pv_serving p = Not_yet then None
     else Some (p\<lparr>pv_serving := Loop_ended, pv_open := False, pv_thread := False\<rparr>))"

text \<open>A connection that is accepted runs the handler with the allowlist of its server.\<close>

definition serve :: "'e net_scheme \<Rightarrow> proxy_server \<Rightarrow> conn \<Rightarrow> ((exn + unit) \<times> conn) option" where
  "serve N p s = (if pv_open p \<and> pv_serving p = Serving then Some (handle N (pv_allowlist p) s) else None)"

section \<open>What stopping does\<close>

lemma proxy_started: "new_proxy (Inr port) al = Inr p \<Longrightarrow> proxy_start p = (port, q) \<Longrightarrow>
    proxy_port q = port \<and> pv_open q \<and> pv_serving q = Serving \<and> set (pv_allowlist q) = set al"
  by (auto simp: new_proxy_def proxy_start_def proxy_port_def)

lemma started_proxy_stops: "proxy_start p = (port, q) \<Longrightarrow> \<exists>r. proxy_stop q = Some r \<and> \<not> pv_open r \<and> \<not> pv_thread r"
  by (auto simp: proxy_start_def proxy_stop_def split: if_splits)

lemma proxy_stop_idem: "proxy_stop p = Some q \<Longrightarrow> proxy_stop q = Some q"
  by (auto simp: proxy_stop_def split: if_splits)

lemma unstarted_proxy_hangs: "new_proxy bound al = Inr p \<Longrightarrow> proxy_stop p = None"
  by (auto simp: new_proxy_def proxy_stop_def split: sum.splits)

lemma stopped_proxy_serves_nothing: "proxy_stop p = Some q \<Longrightarrow> serve N q s = None"
  by (auto simp: proxy_stop_def serve_def split: if_splits)

text \<open>The order of the allowlist and repetitions in it do not matter to the handler's verdict.\<close>

lemma matches_allowlist_set: "set al = set bl \<Longrightarrow> matches_allowlist host al = matches_allowlist host bl"
  by (simp add: matches_allowlist_def list_ex_iff)

lemma served_safely:
  assumes "new_proxy (Inr port) al = Inr p" "proxy_start p = (port, q)"
    and "serve N q (new_conn cin uin) = Some (r, t)"
  shows "list_all (\<lambda>(h, pt). matches_allowlist h al) (c_dials t)"
proof -
  have al: "set (pv_allowlist q) = set al" using proxy_started [OF assms(1,2)] by simp
  have h: "handle N (pv_allowlist q) (new_conn cin uin) = (r, t)"
    using assms(3) by (simp add: serve_def split: if_splits)
  have "list_all (\<lambda>(h, pt). matches_allowlist h (pv_allowlist q)) (c_dials t)"
  proof (cases rule: handle_cases [of N "pv_allowlist q" "new_conn cin uin"])
    case quiet
    then show ?thesis using h by (simp add: new_conn_def)
  next
    case (connect buf ins host pt)
    let ?s = "(new_conn cin uin)\<lparr>c_in := snd (drain_head ins buf)\<rparr>"
    have t: "t = snd (connect_to N (pv_allowlist q) host pt ?s)"
      using handle_connect [OF connect, of N "pv_allowlist q"] h by (metis snd_conv)
    have "c_dials ?s = []" "c_attempts ?s = []" "u_out ?s = []" by (simp_all add: new_conn_def)
    from connect_to_safe [OF this t] show ?thesis by blast
  qed
  then show ?thesis using matches_allowlist_set [OF al] by (simp add: case_prod_unfold)
qed

end
