(* ===== verification/Contexts.thy ===== *)
theory Contexts
  imports Runner_Props
begin

text \<open>
  The classes used as context managers: \<^verbatim>\<open>with Sandbox(task) as sb\<close> and \<^verbatim>\<open>with TrajectoryWriter(p) as w\<close>,
  that is \<^verbatim>\<open>__enter__\<close> and \<^verbatim>\<open>__exit__\<close> around a body. The exit runs whatever the body does, but
  not when the entry raises.
\<close>

section \<open>The code\<close>

definition with_sandbox :: "'e senv_scheme \<Rightarrow> task \<Rightarrow> bool \<Rightarrow> ('z sstate_scheme, 'a) py \<Rightarrow> ('z sstate_scheme, 'a) py" where
  "with_sandbox E task callback body =
     seq (modify (\<lambda>s. s\<lparr>sb := new_sandbox task callback\<rparr>))
       (seq (start E) (try_finally body (stop E)))"

definition with_writer :: "'e env_scheme \<Rightarrow> path \<Rightarrow> path option \<Rightarrow> int \<Rightarrow> ('z tstate_scheme, 'a) py
    \<Rightarrow> ('z tstate_scheme, 'a) py" where
  "with_writer E p odir limit body =
     seq (modify (\<lambda>s. s\<lparr>wr := new_writer p odir limit\<rparr>))
       (seq (open_writer E) (try_finally body close_writer))"

section \<open>What the exit guarantees\<close>

lemma with_sandbox_settles:
  fixes s :: "'z sstate_scheme"
  assumes ok: "daemon_ok E" and "settled (dcalls s)"
    and up: "start E (s\<lparr>sb := new_sandbox task cb\<rparr>) = (Inr (), u)"
    and body: "preserves (tracked {} {} {}) body"
  shows "settled (dcalls (snd (with_sandbox E task cb body s)))"
proof -
  have s: "tracked {} {} {} (s\<lparr>sb := new_sandbox task cb\<rparr>)"
    using assms(2) by (auto simp: settled_def tracked_def new_sandbox_def)
  have "\<not> sb_client (sb (s\<lparr>sb := new_sandbox task cb\<rparr>))" by (simp add: new_sandbox_def)
  from wp_Inr [OF start_tracked [OF s ok this] up] have u: "tracked {} {} {} u" .
  have settle: "wp (stop E) (\<lambda>_ t. settled (dcalls t)) (\<lambda>_ t. settled (dcalls t)) t"
    if "tracked {} {} {} t" for t :: "'z sstate_scheme"
    by (rule wp_mono [OF stop_tracked [OF that ok, where X = "\<lambda>_ _. False"]]) (auto simp: settled_def tracked_def)
  have "wp (try_finally body (stop E)) (\<lambda>_ t. settled (dcalls t)) (\<lambda>_ t. settled (dcalls t)) u"
    unfolding wp_try_finally by (rule wp_mono [OF wp_preserves [OF body u]]) (erule settle)+
  then have "settled (dcalls (snd (try_finally body (stop E) u)))" by (simp add: wp_snd)
  then show ?thesis by (simp add: with_sandbox_def seq_Inr [of "start E", OF up])
qed

lemma with_writer_seals:
  assumes "open_writer E (s\<lparr>wr := new_writer p odir limit\<rparr>) = (Inr (), u)"
  shows "w_closed (wr (snd (with_writer E p odir limit body s)))"
    and "\<not> w_fh (wr (snd (with_writer E p odir limit body s)))"
  by (simp_all add: with_writer_def seq_Inr [of "open_writer E", OF assms] try_finally_def close_writer_def set_wr_def
      split: prod.split)

text \<open>After the exit the writer refuses every event.\<close>

lemma with_writer_then_refuses:
  assumes "open_writer E (s\<lparr>wr := new_writer p odir limit\<rparr>) = (Inr (), u)"
  shows "write_event E ty d (snd (with_writer E p odir limit body s))
    = (Inl (Runtime_Error (lit ''trajectory writer is closed'')), snd (with_writer E p odir limit body s))"
  using with_writer_seals(1) [OF assms, of body] by (simp add: write_event_def)

end
