(* ===== verification/Spec2Isabelle.thy ===== *)
theory Spec2Isabelle
  imports Live_Reap Cli_Main Egress_Pump Egress_Lifecycle Contexts
begin

text \<open>
  Prehnite, a runner for coding tasks: an agent works in a Docker container, and everything it does
  is written to a trajectory, a file of one JSON object a line. This is a model of the Python
  package \<^verbatim>\<open>src/src/prehnite\<close> and of its correctness. Every function of the package has a
  definition, under its name in the code where that name is free.

  \<^bold>\<open>How the program is put together.\<close> A task is a YAML file (\<^verbatim>\<open>tasks/loader.py\<close>) that validates
  against a schema (\<^verbatim>\<open>schemas.py\<close>). It is run by the headless runner (\<^verbatim>\<open>runner.py\<close>) or driven call
  by call through the tools of the MCP server (\<^verbatim>\<open>mcp_server.py\<close>). Both own a container
  (\<^verbatim>\<open>sandbox.py\<close>), which starts an egress proxy (\<^verbatim>\<open>egress_proxy.py\<close>) when the task restricts its
  network, and a trajectory writer (\<^verbatim>\<open>trajectory.py\<close>), to which the proxy reports from its threads.
  The output of commands is cut to a budget first (\<^verbatim>\<open>overflow.py\<close>). The command line (\<^verbatim>\<open>cli.py\<close>)
  starts runs and batches of runs, reads trajectories back and removes what crashed runs left.

  \<^bold>\<open>State.\<close> Stateful code is a computation of type \<^verbatim>\<open>('s, 'a) py\<close>: a state transformer that returns
  a value (\<^verbatim>\<open>Inr\<close>) or raises (\<^verbatim>\<open>Inl\<close> of an exception of the datatype \<^verbatim>\<open>exn\<close>) and keeps the state
  it had reached. The state is built up by record extension: the files (\<^verbatim>\<open>fsys\<close>), with the current
  writer and the clock readings so far (\<^verbatim>\<open>tstate\<close>), with the sandbox and the log of the daemon's
  requests and answers (\<^verbatim>\<open>sstate\<close>), with the table of sessions and their descriptors on disk
  (\<^verbatim>\<open>srv\<close>). What is outside the package is an environment that grows along (\<^verbatim>\<open>env\<close>, \<^verbatim>\<open>senv\<close>,
  \<^verbatim>\<open>venv\<close>): the digest, the clocks, the JSON serialiser and parser, the answer of the daemon to a
  request as a function of the log so far, fresh identifiers. Resources are never modelled as
  booleans: what is alive is read off the log (\<^verbatim>\<open>created\<close>, \<^verbatim>\<open>removed\<close>, \<^verbatim>\<open>proxies\<close>, ...).

  \<^bold>\<open>Theories.\<close> In the order they build on each other:

  \<^item> \<^verbatim>\<open>Py_Prelude\<close>: strings as code points, JSON values, insertion-ordered dictionaries, exceptions,
    the computations with their weakest preconditions (\<^verbatim>\<open>wp\<close>, collection \<^verbatim>\<open>wp_simps\<close>) and with
    relations kept from start to end (\<^verbatim>\<open>keeps\<close>, collection \<^verbatim>\<open>keeps_intros\<close>), and the locale
    \<^verbatim>\<open>machine\<close> of an invariant of a step relation. It is interpreted for the writer, the files, the
    sandbox's resources, its network, the server's ownership and its disk, and the tunnel's threads.
    The locale \<^verbatim>\<open>codec\<close> of a writer and its reader is interpreted for JSON, indented JSON, events and
    paths; \<^verbatim>\<open>line_codec\<close> in \<^verbatim>\<open>Trajectory\<close> is what the writer asks of the serialiser, \<^verbatim>\<open>task_store\<close> in
    \<^verbatim>\<open>Loader\<close> what the server asks of the tasks.
  \<^item> \<^verbatim>\<open>Utf8\<close>: \<^verbatim>\<open>str.encode\<close> and \<^verbatim>\<open>bytes.decode(errors="replace")\<close> on 8-bit words.
  \<^item> \<^verbatim>\<open>Overflow\<close> (\<^verbatim>\<open>overflow.py\<close>): \<^verbatim>\<open>cap_stream\<close>, \<^verbatim>\<open>cap_command_data\<close> and the spill files. The cut is
    the longest prefix of whole characters within the budget, and the spill decodes to the whole.
  \<^item> \<^verbatim>\<open>Schemas\<close> (\<^verbatim>\<open>schemas.py\<close>): the models, their validation and dumps; round trip and bounds.
  \<^item> \<^verbatim>\<open>Trajectory\<close> (\<^verbatim>\<open>trajectory.py\<close>): writer, reader, recovery of the sequence counter. The invariant
    \<^verbatim>\<open>writer_inv\<close> says that the file parses to events numbered from 0 without gaps.
  \<^item> \<^verbatim>\<open>Branches\<close> (\<^verbatim>\<open>_filter_branch\<close> of \<^verbatim>\<open>mcp_server.py\<close>): refinement of the container's own history.
  \<^item> \<^verbatim>\<open>Egress\<close>, \<^verbatim>\<open>Egress_Pump\<close>, \<^verbatim>\<open>Egress_Lifecycle\<close> (\<^verbatim>\<open>egress_proxy.py\<close>): the allowlist and its label by
    label specification, the handler of one connection on a scripted network, the forwarding
    threads as an interleaved step relation with a termination proof, and the listening socket.
  \<^item> \<^verbatim>\<open>Sandbox\<close> (\<^verbatim>\<open>sandbox.py\<close>): start, exec, snapshot, revert and stop with every failure of the
    daemon; the invariant \<^verbatim>\<open>tracked\<close> ties the object's fields to the log.
  \<^item> \<^verbatim>\<open>Loader\<close> (\<^verbatim>\<open>tasks/loader.py\<close>): discovery is sound and complete.
  \<^item> \<^verbatim>\<open>Json\<close>, \<^verbatim>\<open>Json_Indent\<close>: the standard library's JSON. The printer and the parser meet the
    contract \<^verbatim>\<open>codec_ok\<close> that the other theories ask of the serialiser, and what \<^verbatim>\<open>json.dumps\<close> prints
    with an indent is read back.
  \<^item> \<^verbatim>\<open>Runner\<close>, \<^verbatim>\<open>Runner_Props\<close>, \<^verbatim>\<open>Contexts\<close> (\<^verbatim>\<open>runner.py\<close>, the context managers): \<^verbatim>\<open>run_body\<close> and its
    \<^verbatim>\<open>try/except/finally\<close>; the trajectory is sealed, the verdict is the recorded one, and everything
    created is released.
  \<^item> \<^verbatim>\<open>Mcp_Server\<close>, \<^verbatim>\<open>Mcp_Sessions\<close>, \<^verbatim>\<open>Mcp_Restart\<close>, \<^verbatim>\<open>Mcp_Props\<close>, \<^verbatim>\<open>Mcp_Durable\<close> (\<^verbatim>\<open>mcp_server.py\<close>):
    the tools, who owns which resource between two calls, what a restarted server resumes from
    disk, and the invariant \<^verbatim>\<open>durable\<close> that ties the disk to the live sessions through any history of
    calls and restarts (the step relation \<^verbatim>\<open>life\<close>). A session's
    sandbox and writer are loaded into the state's registers for an operation and stored back.
  \<^item> \<^verbatim>\<open>Cli_Stats\<close>, \<^verbatim>\<open>Cli_Compare\<close>, \<^verbatim>\<open>Cli_Batch\<close>, \<^verbatim>\<open>Cli_Reap\<close>, \<^verbatim>\<open>Cli_Inspect\<close> (\<^verbatim>\<open>cli.py\<close>): the subcommands;
    \<^verbatim>\<open>Live_Reap\<close>: the reaper beside a running server.
    Times are integers of microseconds, medians are doubled, percentages are exact fractions.
  \<^item> \<^verbatim>\<open>Cli_Args\<close>, \<^verbatim>\<open>Cli_Typing\<close>, \<^verbatim>\<open>Cli_Main\<close> (\<^verbatim>\<open>main\<close> of \<^verbatim>\<open>cli.py\<close>): the declarations as data, what
    \<^verbatim>\<open>argparse\<close> of Python 3.11 makes of an argument vector under them, the types of what it yields,
    and the dispatch to the subcommands.

  \<^bold>\<open>What is shown.\<close> A trajectory is readable at every moment, append-only, and sealed by a run
  whatever fails. A stopped sandbox has released every container, image and proxy it created, a run
  and a finished session too, and between two tool calls each of them belongs to a live session.
  The proxy dials only what the allowlist admits and reports first; both directions of a tunnel
  end under every schedule. The outcome of a run is the same verdict for every reader of its file,
  and it agrees with the verify commands recorded. Whatever was called before, and
  however often the server was restarted, the trajectory of every live session reads back, a new
  server comes up with the sessions of the old one, and a reap spares them. A command line is read back as
  the call it was written for. Where the code does not keep what its comments promise, the properties state what it does.

  \<^bold>\<open>Hypotheses.\<close> \<^verbatim>\<open>codec_ok\<close>: an event serialised is one line that parses to its dump. \<^verbatim>\<open>daemon_ok\<close>:
  closing the daemon's client does not fail, and the requests that start, stop or remove a container
  or remove an image fail only with the errors of the Docker API. \<^verbatim>\<open>daemon_has\<close>, for a restart: the
  daemon answers and still has the containers it is asked for. \<^verbatim>\<open>steady\<close>, for a history of restarts:
  fresh session identifiers that are file names, descriptors that can be deleted, texts that can be
  printed, and a JSON reader that inverts the printer (which \<^verbatim>\<open>Json_Indent\<close> proves of the standard
  one). Others are stated where they are used, and every one is met by the instance in the
  property's witness.

  \<^bold>\<open>Bounds.\<close> Recursion follows the data nearly everywhere. The JSON parser has as fuel one more than
  the length of its text; each call takes at least one character of a text that was printed, so
  the round trips hold with that fuel. A schedule of the tunnel has at most 8 steps more than
  twice the receives of either direction, and the property proves that bound. Python's integers are unbounded and so
  are the model's; bytes are 8-bit words.

  \<^bold>\<open>Not modelled.\<close> The MCP transport and log lines; the usage and help texts of \<^verbatim>\<open>argparse\<close> and the
  warnings about skipped files in \<^verbatim>\<open>stats\<close> and \<^verbatim>\<open>compare\<close>; the inside of the validation library
  (its declarations are the \<^verbatim>\<open>validate\<close> functions, its lax conversions a parameter). Parsers of YAML, ISO dates, integers
  and floats, the rounding of printed floats and \<^verbatim>\<open>textwrap\<close> are parameters. Threads other than the
  tunnel's are interleavings of writes, which a lock makes atomic; connections of the proxy
  are independent of each other; tool calls run one at a time, as the event loop runs them. Two
  programs that write into one trajectory file at the same time are not covered, and neither are
  failing writes to the disk (a full one, say): making directories, appending to a trajectory,
  spilling output and writing a descriptor succeed. Reads and deletions may fail. The server is
  built as in production; the table of sessions a test may hand to it is not a parameter.
\<close>

end
